(* ===== verification/Brew_Prelude.thy ===== *)
theory Brew_Prelude
  imports
    Main
    "HOL-Library.Word"
    "HOL-Library.AList"
    "HOL-Library.Sublist"
    "HOL-Library.Char_ord"
    "HOL-Library.List_Lexorder"
begin

text \<open>
  The vocabulary every theory of the development shares: the Go types the program uses
  (machine integers, identifiers, instants, errors), the parts of Go's standard library it
  calls (\<^verbatim>\<open>strings.TrimSpace\<close>, \<^verbatim>\<open>fmt\<close>'s decimal verb, map update, slice paging), the
  third-party UUID package as a parameter, and the generic lemmas and fact collections
  that the component theories rely on.
\<close>

section \<open>Fact collections\<close>

named_theorems go_defs \<open>definitions of the model's straight-line helpers\<close>
named_theorems msg_defs \<open>message constructors, message names and topics\<close>
named_theorems agg_simps \<open>effect of an operation on the fields of an aggregate\<close>

section \<open>Go's types\<close>

text \<open>
  A Go \<open>int\<close> (and \<open>int64\<close>, \<open>time.Duration\<close>) is a 64-bit word that wraps around; it is
  compared through \<^const>\<open>sint\<close>. Counters that grow by one per stored event (stream
  versions, lengths) are unbounded integers. A UUID is a 16-byte array, here a 128-bit
  word. An instant is the number of nanoseconds since Go's zero time, so that
  \<^verbatim>\<open>Time.IsZero\<close> is equality with zero. Strings are byte strings.
\<close>

type_synonym go_int = "64 word"
type_synonym uuid = "128 word"
type_synonym instant = int

text \<open>
  Errors keep what \<^verbatim>\<open>errors.Is\<close> and \<^verbatim>\<open>errors.As\<close> can observe: the sentinel that
  \<^verbatim>\<open>fmt.Errorf("%w ...")\<close> wraps. Every other error (driver, transport, decoding) is
  \<open>ErrOther\<close>. A Go panic is a separate value: it is not an error a caller can inspect.
\<close>

datatype go_error =
    ErrInvalid string
  | ErrNotFound
  | ErrAggregateNotFound
  | ErrConcurrency
  | ErrOther string
  | GoPanic string

type_synonym 'a result = "go_error + 'a"

text \<open>The result of an operation on a state: the outcome and the state it leaves behind.\<close>

type_synonym ('s, 'a) outcome = "'a result \<times> 's"

definition failed :: "'a result \<Rightarrow> bool" where
  "failed r \<longleftrightarrow> (\<exists>e. r = Inl e)"

lemma failed_simps [simp]: "failed (Inl e)" "\<not> failed (Inr x)"
  by (auto simp: failed_def)

section \<open>The UUID package\<close>

text \<open>
  \<^verbatim>\<open>github.com/google/uuid\<close> is not part of the repository: its parser and printer are
  parameters of the model. The code relies on one documented fact, that parsing the text
  of a UUID gives the UUID back.
\<close>

record uuid_pkg =
  Parse :: "string \<Rightarrow> uuid option"
  UString :: "uuid \<Rightarrow> string"

definition uuid_ok :: "uuid_pkg \<Rightarrow> bool" where
  "uuid_ok U \<longleftrightarrow> (\<forall>u. Parse U (UString U u) = Some u)"

definition MustParse :: "uuid_pkg \<Rightarrow> string \<Rightarrow> uuid result" where
  "MustParse U s = (case Parse U s of None \<Rightarrow> Inl (GoPanic ''uuid: Parse'') | Some u \<Rightarrow> Inr u)"

lemma uuid_ok_Parse [simp]: "uuid_ok U \<Longrightarrow> Parse U (UString U u) = Some u"
  by (simp add: uuid_ok_def)

lemma uuid_ok_MustParse [simp]: "uuid_ok U \<Longrightarrow> MustParse U (UString U u) = Inr u"
  by (simp add: MustParse_def)

lemma uuid_ok_inj: "uuid_ok U \<Longrightarrow> UString U u = UString U v \<longleftrightarrow> u = v"
  by (metis uuid_ok_Parse option.inject)

text \<open>
  A concrete instance, used to evaluate the model on real inputs: the canonical text of
  RFC 4122, 32 lower-case hexadecimal digits in groups of 8, 4, 4, 4 and 12.
\<close>

fun hex_digits :: "nat \<Rightarrow> nat \<Rightarrow> nat list" where
  "hex_digits 0 n = []"
| "hex_digits (Suc k) n = hex_digits k (n div 16) @ [n mod 16]"

definition hex_char :: "nat \<Rightarrow> char" where
  "hex_char d = ''0123456789abcdef'' ! d"

definition hex_val :: "char \<Rightarrow> nat" where
  "hex_val c = (case find (\<lambda>d. hex_char d = c) [0..<16] of None \<Rightarrow> 0 | Some d \<Rightarrow> d)"

definition is_hex :: "char \<Rightarrow> bool" where
  "is_hex c \<longleftrightarrow> c \<in> set ''0123456789abcdef''"

definition hex_UString :: "uuid \<Rightarrow> string" where
  "hex_UString u =
     (let ds = map hex_char (hex_digits 32 (unat u)) in
      take 8 ds @ ''-'' @ take 4 (drop 8 ds) @ ''-'' @ take 4 (drop 12 ds) @ ''-'' @
      take 4 (drop 16 ds) @ ''-'' @ drop 20 ds)"

definition hex_Parse :: "string \<Rightarrow> uuid option" where
  "hex_Parse s =
     (let ds = take 8 s @ take 4 (drop 9 s) @ take 4 (drop 14 s) @ take 4 (drop 19 s) @ drop 24 s in
      if length s = 36 \<and> s ! 8 = CHR ''-'' \<and> s ! 13 = CHR ''-'' \<and> s ! 18 = CHR ''-'' \<and> s ! 23 = CHR ''-''
         \<and> list_all is_hex ds
      then Some (of_nat (foldl (\<lambda>a c. a * 16 + hex_val c) 0 ds)) else None)"

definition hex_uuid :: uuid_pkg where
  "hex_uuid = \<lparr>Parse = hex_Parse, UString = hex_UString\<rparr>"

lemma length_hex_digits [simp]: "length (hex_digits k n) = k"
  by (induction k n rule: hex_digits.induct) auto

lemma hex_digits_bound: "d \<in> set (hex_digits k n) \<Longrightarrow> d < 16"
  by (induction k n rule: hex_digits.induct) auto

lemma hex_val_char: "d < 16 \<Longrightarrow> hex_val (hex_char d) = d"
  by (simp add: hex_val_def hex_char_def upt_rec numeral_nat less_Suc_eq, elim disjE, simp_all)

lemma is_hex_char: "d < 16 \<Longrightarrow> is_hex (hex_char d)"
  unfolding is_hex_def hex_char_def by (rule nth_mem) simp

lemma foldl_hex_digits: "foldl (\<lambda>a d. a * 16 + d) 0 (hex_digits k n) = n mod 16 ^ k"
proof (induction k n rule: hex_digits.induct)
  case (2 k n)
  have "n mod 16 ^ Suc k = n div 16 mod 16 ^ k * 16 + n mod 16"
    using mod_mult2_eq [of n 16 "16 ^ k"] by simp
  with 2 show ?case by simp
qed simp

lemma foldl_hex_chars:
  "\<forall>d \<in> set ds. d < 16 \<Longrightarrow>
     foldl (\<lambda>a c. a * 16 + hex_val c) x (map hex_char ds) = foldl (\<lambda>a d. a * 16 + d) x ds"
  by (induction ds arbitrary: x) (auto simp: hex_val_char)

lemma regroup_uuid:
  assumes "length ds = 32"
    and s: "s = take 8 ds @ [c] @ take 4 (drop 8 ds) @ [c] @ take 4 (drop 12 ds) @ [c] @
      take 4 (drop 16 ds) @ [c] @ drop 20 ds"
  shows "take 8 s @ take 4 (drop 9 s) @ take 4 (drop 14 s) @ take 4 (drop 19 s) @ drop 24 s = ds"
    and "length s = 36" and "s ! 8 = c" and "s ! 13 = c" and "s ! 18 = c" and "s ! 23 = c"
proof -
  have e: "take 4 (drop n ds) @ drop (n + 4) ds = drop n ds" for n
    by (metis append_take_drop_id drop_drop add.commute)
  have "take 8 ds @ take 4 (drop 8 ds) @ take 4 (drop 12 ds) @ take 4 (drop 16 ds) @ drop 20 ds = ds"
    using e [of 8] e [of 12] e [of 16] by simp
  then show "take 8 s @ take 4 (drop 9 s) @ take 4 (drop 14 s) @ take 4 (drop 19 s) @ drop 24 s = ds"
    using assms by simp
  show "length s = 36" and "s ! 8 = c" and "s ! 13 = c" and "s ! 18 = c" and "s ! 23 = c"
    using assms by (simp_all add: nth_append)
qed

lemma hex_uuid_ok: "uuid_ok hex_uuid"
proof -
  have "hex_Parse (hex_UString u) = Some u" for u
  proof -
    let ?ds = "map hex_char (hex_digits 32 (unat u))"
    have len: "length ?ds = 32" by simp
    have "unat u < 2 ^ LENGTH(128)" by (rule unsigned_less)
    then have "unat u < 16 ^ 32" by simp
    then have val: "foldl (\<lambda>a c. a * 16 + hex_val c) 0 ?ds = unat u"
      by (simp add: foldl_hex_chars hex_digits_bound foldl_hex_digits)
    have hex: "list_all is_hex ?ds"
      by (auto simp: list_all_iff is_hex_char hex_digits_bound)
    show ?thesis
      using regroup_uuid [OF len refl, of "CHR ''-''"] val hex
      by (simp add: hex_Parse_def hex_UString_def Let_def)
  qed
  then show ?thesis by (simp add: uuid_ok_def hex_uuid_def)
qed

section \<open>Signed 64-bit arithmetic\<close>

definition max_int :: int where
  "max_int = 2 ^ 63 - 1"

lemma sint_bounds: "- (2 ^ 63) \<le> sint (x :: go_int)" "sint (x :: go_int) \<le> max_int"
  using sint_range_size [of x] by (simp_all add: word_size max_int_def)

lemma sint_of_int_id:
  "- (2 ^ 63) \<le> i \<Longrightarrow> i \<le> max_int \<Longrightarrow> signed_take_bit 63 i = i"
  by (simp add: signed_take_bit_int_eq_self_iff max_int_def)

lemma sint_add_exact:
  "- (2 ^ 63) \<le> sint a + sint b \<Longrightarrow> sint a + sint b \<le> max_int \<Longrightarrow>
     sint (a + b :: go_int) = sint a + sint b"
  by (simp add: sint_word_add sint_of_int_id)

lemma sint_sub_exact:
  "- (2 ^ 63) \<le> sint a - sint b \<Longrightarrow> sint a - sint b \<le> max_int \<Longrightarrow>
     sint (a - b :: go_int) = sint a - sint b"
  by (simp add: sint_word_diff sint_of_int_id)

lemma sint_sub_in_range:
  "0 \<le> sint b \<Longrightarrow> sint b \<le> sint a \<Longrightarrow> sint (a - b :: go_int) = sint a - sint b"
  by (rule sint_sub_exact) (use sint_bounds [of a] sint_bounds [of b] in auto)

section \<open>Strings\<close>

text \<open>
  \<^verbatim>\<open>strings.TrimSpace\<close> removes leading and trailing white space as Unicode defines it; these
  are the UTF-8 encodings of the code points that \<^verbatim>\<open>unicode.IsSpace\<close> accepts.
\<close>

definition go_spaces :: "string list" where
  "go_spaces =
     [[CHR 0x09], [CHR 0x0A], [CHR 0x0B], [CHR 0x0C], [CHR 0x0D], [CHR 0x20],
      [CHR 0xC2, CHR 0x85], [CHR 0xC2, CHR 0xA0], [CHR 0xE1, CHR 0x9A, CHR 0x80]] @
     map (\<lambda>b. [CHR 0xE2, CHR 0x80, b])
       [CHR 0x80, CHR 0x81, CHR 0x82, CHR 0x83, CHR 0x84, CHR 0x85, CHR 0x86, CHR 0x87, CHR 0x88,
        CHR 0x89, CHR 0x8A, CHR 0xA8, CHR 0xA9, CHR 0xAF] @
     [[CHR 0xE2, CHR 0x81, CHR 0x9F], [CHR 0xE3, CHR 0x80, CHR 0x80]]"

function trim_left :: "string list \<Rightarrow> string \<Rightarrow> string" where
  "trim_left ws s =
     (case find (\<lambda>w. w \<noteq> [] \<and> prefix w s) ws of None \<Rightarrow> s | Some w \<Rightarrow> trim_left ws (drop (length w) s))"
  by pat_completeness auto
termination
proof (relation "measure (\<lambda>(ws, s). length s)")
  fix ws s w
  assume "find (\<lambda>w. w \<noteq> [] \<and> prefix w s) ws = Some w"
  then have "w \<noteq> []" "prefix w s" by (auto simp: find_Some_iff)
  then show "((ws, drop (length w) s), (ws, s)) \<in> measure (\<lambda>(ws, s). length s)"
    by (auto simp: prefix_def)
qed simp

declare trim_left.simps [simp del]

definition TrimSpace :: "string \<Rightarrow> string" where
  "TrimSpace s = rev (trim_left (map rev go_spaces) (rev (trim_left go_spaces s)))"

lemma trim_left_suffix: "suffix (trim_left ws s) s"
proof (induction ws s rule: trim_left.induct)
  case (1 ws s)
  show ?case
  proof (cases "find (\<lambda>w. w \<noteq> [] \<and> prefix w s) ws")
    case None
    then show ?thesis by (simp add: trim_left.simps [of ws s])
  next
    case (Some w)
    from 1 [OF this] show ?thesis
      by (simp add: trim_left.simps [of ws s] Some) (meson suffix_drop suffix_order.trans)
  qed
qed

lemma trim_left_clean: "w \<in> set ws \<Longrightarrow> w \<noteq> [] \<Longrightarrow> \<not> prefix w (trim_left ws s)"
proof (induction ws s rule: trim_left.induct)
  case (1 ws s)
  show ?case
  proof (cases "find (\<lambda>w. w \<noteq> [] \<and> prefix w s) ws")
    case None
    with 1 show ?thesis by (simp add: trim_left.simps [of ws s]) (auto simp: find_None_iff)
  next
    case (Some w')
    with 1 show ?thesis by (simp add: trim_left.simps [of ws s])
  qed
qed

lemma trim_left_Nil [simp]: "trim_left ws [] = []"
  using trim_left_suffix [of ws "[]"] by (simp add: suffix_def)

lemma TrimSpace_Nil [simp]: "TrimSpace [] = []"
  by (simp add: TrimSpace_def)

text \<open>The \<^verbatim>\<open>%d\<close> verb on an integer.\<close>

fun show_nat :: "nat \<Rightarrow> string" where
  "show_nat n = (if n < 10 then [''0123456789'' ! n] else show_nat (n div 10) @ [''0123456789'' ! (n mod 10)])"

declare show_nat.simps [simp del]

definition show_int :: "int \<Rightarrow> string" where
  "show_int i = (if i < 0 then ''-'' @ show_nat (nat (- i)) else show_nat (nat i))"

section \<open>Maps and slices\<close>

text \<open>
  A Go map whose keys are enumerated by the program is an association list with distinct
  keys; assignment is \<^const>\<open>AList.update\<close>. Reading a missing key gives the zero value.
\<close>

definition lookup_default :: "'v \<Rightarrow> ('k \<times> 'v) list \<Rightarrow> 'k \<Rightarrow> 'v" where
  "lookup_default d m k = (case map_of m k of None \<Rightarrow> d | Some v \<Rightarrow> v)"

lemma lookup_default_update [simp]:
  "lookup_default d (AList.update k v m) k' = (if k' = k then v else lookup_default d m k')"
  by (simp add: lookup_default_def AList.update_conv)

lemma lookup_default_Nil [simp]: "lookup_default d [] k = d"
  by (simp add: lookup_default_def)

lemma keys_update: "fst ` set (AList.update k v m) = insert k (fst ` set m)"
  by (induction m) auto

lemma set_update_subset: "x \<in> set (AList.update k v m) \<Longrightarrow> x = (k, v) \<or> x \<in> set m"
  by (induction m) (auto split: if_splits)

lemma map_of_in_keys: "distinct (map fst m) \<Longrightarrow> (k, v) \<in> set m \<longleftrightarrow> map_of m k = Some v"
  by (metis map_of_eq_Some_iff)

text \<open>The paging loop of the read-model services.\<close>

function page_loop :: "'a list \<Rightarrow> nat \<Rightarrow> nat \<Rightarrow> 'a list \<Rightarrow> 'a list" where
  "page_loop xs index limit acc =
     (if index < length xs \<and> length acc < limit
      then page_loop xs (Suc index) limit (acc @ [xs ! index]) else acc)"
  by pat_completeness auto
termination
  by (relation "measure (\<lambda>(xs, index, limit, acc). length xs - index)") auto

declare page_loop.simps [simp del]

lemma page_loop_eq:
  "page_loop xs index limit acc = acc @ take (limit - length acc) (drop index xs)"
proof (induction xs index limit acc rule: page_loop.induct)
  case (1 xs index limit acc)
  show ?case
  proof (cases "index < length xs \<and> length acc < limit")
    case True
    then have "limit - length acc = Suc (limit - Suc (length acc))" by arith
    with True 1 show ?thesis
      by (simp add: page_loop.simps [of xs index limit acc] Cons_nth_drop_Suc [symmetric])
  next
    case False
    then show ?thesis by (auto simp: page_loop.simps [of xs index limit acc])
  qed
qed

section \<open>Loops that stop at the first error\<close>

text \<open>
  \<^verbatim>\<open>for _, x := range xs { if err := f(x); err != nil { return err } }\<close>: the state changes of
  the iterations before the error stay in force.
\<close>

fun for_each :: "('a \<Rightarrow> 's \<Rightarrow> ('s, unit) outcome) \<Rightarrow> 'a list \<Rightarrow> 's \<Rightarrow> ('s, unit) outcome" where
  "for_each f [] s = (Inr (), s)"
| "for_each f (x # xs) s =
     (case f x s of (Inl e, s') \<Rightarrow> (Inl e, s') | (Inr _, s') \<Rightarrow> for_each f xs s')"

lemma for_each_append:
  "for_each f (xs @ ys) s =
     (case for_each f xs s of (Inl e, s') \<Rightarrow> (Inl e, s') | (Inr _, s') \<Rightarrow> for_each f ys s')"
  by (induction xs arbitrary: s) (auto split: prod.splits sum.splits)

lemma for_each_invariant:
  assumes "\<And>x s. x \<in> set xs \<Longrightarrow> P s \<Longrightarrow> P (snd (f x s))" and "P s"
  shows "P (snd (for_each f xs s))"
  using assms
proof (induction xs arbitrary: s)
  case (Cons x xs)
  from Cons.prems have "P (snd (f x s))" by simp
  with Cons show ?case by (cases "f x s"; cases "fst (f x s)") auto
qed simp

lemma for_each_concat: "for_each f (concat (map g xs)) s = for_each (\<lambda>x. for_each f (g x)) xs s"
proof (induction xs arbitrary: s)
  case (Cons x xs)
  then show ?case by (cases "for_each f (g x) s"; cases "fst (for_each f (g x) s)") (auto simp: for_each_append)
qed simp

lemma for_each_map: "for_each f (map g xs) s = for_each (\<lambda>x. f (g x)) xs s"
proof (induction xs arbitrary: s)
  case (Cons x xs)
  then show ?case by (cases "f (g x) s"; cases "fst (f (g x) s)") auto
qed simp

lemma chunks_take: "concat (map (\<lambda>k. take m (drop (k * m) xs)) [0..<n]) = take (n * m) xs"
proof (induction n)
  case (Suc n)
  have "take (Suc n * m) xs = take (n * m + m) xs" by (simp add: add.commute)
  also have "\<dots> = take (n * m) xs @ take m (drop (n * m) xs)" by (rule take_add)
  finally show ?case using Suc by simp
qed simp

end
