(* ===== verification/Custom_Types.thy ===== *)
theory Custom_Types
  imports Brew_Prelude
begin

text \<open>
  The value objects of \<^verbatim>\<open>src/internal/shared/customtypes/customtypes.go\<close>: quantities, the
  clamped page window of the read models, and prices. A price's \<open>float64\<close> is only carried
  through the program, never computed with: it is kept as its 64-bit pattern.
\<close>

record Quantity =
  qValue :: go_int
  UnitOfMeasure :: string

definition NewQuantity :: "go_int \<Rightarrow> string \<Rightarrow> Quantity" where
  [go_defs]: "NewQuantity value unitOfMeasure = \<lparr>qValue = value, UnitOfMeasure = unitOfMeasure\<rparr>"

definition Quantity_String :: "Quantity \<Rightarrow> string" where
  "Quantity_String q = show_int (sint (qValue q)) @ '' '' @ UnitOfMeasure q"

definition zero_Quantity :: Quantity where
  [go_defs]: "zero_Quantity = \<lparr>qValue = 0, UnitOfMeasure = []\<rparr>"

abbreviation amount :: "Quantity \<Rightarrow> int" where
  "amount q \<equiv> sint (qValue q)"

definition DefaultPageLimit :: go_int where
  "DefaultPageLimit = 50"

definition MaxPageLimit :: go_int where
  "MaxPageLimit = 200"

record Page =
  Limit :: go_int
  Offset :: go_int

definition NewPage :: "go_int \<Rightarrow> go_int \<Rightarrow> Page" where
  "NewPage limit offset =
     (let limit = (if sint limit \<le> 0 then DefaultPageLimit else limit);
          limit = (if sint limit > sint MaxPageLimit then MaxPageLimit else limit);
          offset = (if sint offset < 0 then 0 else offset)
      in \<lparr>Limit = limit, Offset = offset\<rparr>)"

record Price =
  pValue :: "64 word"
  Currency :: string

definition NewPrice :: "64 word \<Rightarrow> string \<Rightarrow> Price" where
  [go_defs]: "NewPrice value currency = \<lparr>pValue = value, Currency = currency\<rparr>"

lemma NewQuantity_sel [simp]:
  "qValue (NewQuantity v u) = v" "UnitOfMeasure (NewQuantity v u) = u"
  by (simp_all add: NewQuantity_def)

lemma NewPage_limit_bounds: "1 \<le> sint (Limit (NewPage l off)) \<and> sint (Limit (NewPage l off)) \<le> 200"
  by (auto simp: NewPage_def DefaultPageLimit_def MaxPageLimit_def Let_def)

lemma NewPage_offset_nonneg: "0 \<le> sint (Offset (NewPage l off))"
  by (auto simp: NewPage_def Let_def)

lemma NewPage_keeps:
  "1 \<le> sint l \<Longrightarrow> sint l \<le> 200 \<Longrightarrow> 0 \<le> sint off \<Longrightarrow> NewPage l off = \<lparr>Limit = l, Offset = off\<rparr>"
  by (auto simp: NewPage_def MaxPageLimit_def Let_def)

text \<open>The window a page selects, as the list functions of the read models compute it.\<close>

definition page_slice :: "Page \<Rightarrow> 'a list \<Rightarrow> 'a list" where
  "page_slice p xs = page_loop xs (nat (sint (Offset p))) (nat (sint (Limit p))) []"

lemma page_slice_eq: "page_slice p xs = take (nat (sint (Limit p))) (drop (nat (sint (Offset p))) xs)"
  by (simp add: page_slice_def page_loop_eq)

end
