(* ===== verification/Warehouse_Messages.thy ===== *)
theory Warehouse_Messages
  imports Custom_Types
begin

text \<open>
  The published language of the Warehouses module,
  \<^verbatim>\<open>src/internal/warehouses/sharedkernel\<close>: its commands, its domain events, the events of the
  order-allocation saga and its integration events, with their constructors and wire
  names. Each Go interface (\<open>Command\<close>, \<open>DomainEvent\<close>, \<open>IntegrationEvent\<close>) is a datatype with
  one constructor per struct. The one-field wrappers \<open>BeerId\<close> and \<open>BeerName\<close> are their
  values.
\<close>

section \<open>The base structs of every message\<close>

record CommandBase =
  cmd_AggregateId :: uuid
  cmd_CommitId :: uuid

definition NewCommandBase :: "uuid \<Rightarrow> uuid \<Rightarrow> CommandBase" where
  [msg_defs]: "NewCommandBase aggregateID commitID = \<lparr>cmd_AggregateId = aggregateID, cmd_CommitId = commitID\<rparr>"

record DomainEventBase =
  ev_AggregateId :: uuid
  ev_CommitId :: uuid

definition NewDomainEventBase :: "uuid \<Rightarrow> uuid \<Rightarrow> DomainEventBase" where
  [msg_defs]: "NewDomainEventBase aggregateID commitID = \<lparr>ev_AggregateId = aggregateID, ev_CommitId = commitID\<rparr>"

type_synonym BeerId = uuid
type_synonym BeerName = string

section \<open>Commands\<close>

datatype warehouse_command =
    UpdateAvailabilityDueToProductionOrder (wc_base: CommandBase) (wc_BeerId: BeerId) BeerName (wc_Quantity: Quantity)
  | UpdateAvailabilityDueToSalesOrder (wc_base: CommandBase) (wc_BeerId: BeerId) BeerName (wc_Quantity: Quantity) string
  | CompensateAvailabilityDueToFailedAllocation (wc_base: CommandBase) (wc_BeerId: BeerId) (wc_Quantity: Quantity) string

definition NewUpdateAvailabilityDueToProductionOrder ::
  "BeerId \<Rightarrow> uuid \<Rightarrow> BeerName \<Rightarrow> Quantity \<Rightarrow> warehouse_command" where
  [msg_defs]: "NewUpdateAvailabilityDueToProductionOrder beerId commitId beerName quantity =
     UpdateAvailabilityDueToProductionOrder (NewCommandBase beerId commitId) beerId beerName quantity"

definition NewUpdateAvailabilityDueToSalesOrder ::
  "BeerId \<Rightarrow> uuid \<Rightarrow> BeerName \<Rightarrow> Quantity \<Rightarrow> string \<Rightarrow> warehouse_command" where
  [msg_defs]: "NewUpdateAvailabilityDueToSalesOrder beerId commitId beerName quantity salesOrderId =
     UpdateAvailabilityDueToSalesOrder (NewCommandBase beerId commitId) beerId beerName quantity salesOrderId"

definition NewCompensateAvailabilityDueToFailedAllocation ::
  "BeerId \<Rightarrow> uuid \<Rightarrow> Quantity \<Rightarrow> string \<Rightarrow> warehouse_command" where
  [msg_defs]: "NewCompensateAvailabilityDueToFailedAllocation beerId commitId quantity salesOrderId =
     CompensateAvailabilityDueToFailedAllocation (NewCommandBase beerId commitId) beerId quantity salesOrderId"

fun warehouse_command_name :: "warehouse_command \<Rightarrow> string" where
  "warehouse_command_name (UpdateAvailabilityDueToProductionOrder _ _ _ _) =
     ''warehouses.update_availability_due_to_production_order''"
| "warehouse_command_name (UpdateAvailabilityDueToSalesOrder _ _ _ _ _) =
     ''warehouses.update_availability_due_to_sales_order''"
| "warehouse_command_name (CompensateAvailabilityDueToFailedAllocation _ _ _ _) =
     ''warehouses.compensate_availability_due_to_failed_allocation''"

section \<open>Domain events\<close>

record SagaRowData =
  row_BeerId :: string
  row_BeerName :: string
  row_Quantity :: go_int
  row_UnitOfMeasure :: string

definition zero_SagaRowData :: SagaRowData where
  [go_defs]: "zero_SagaRowData = \<lparr>row_BeerId = [], row_BeerName = [], row_Quantity = 0, row_UnitOfMeasure = []\<rparr>"

datatype warehouse_event =
    AvailabilityUpdatedDueToProductionOrder (we_base: DomainEventBase) BeerId BeerName Quantity
  | BeerAvailabilityUpdated (we_base: DomainEventBase) BeerId BeerName Quantity string
  | QuantityNotFound (we_base: DomainEventBase) BeerId string Quantity Quantity
  | AvailabilityCompensated (we_base: DomainEventBase) BeerId BeerName Quantity string
  | OrderAllocationStarted (we_base: DomainEventBase) string "SagaRowData list"
  | AllocationStepSucceeded (we_base: DomainEventBase) string string
  | AllocationStepFailed (we_base: DomainEventBase) string string string
  | AllocationStepCompensated (we_base: DomainEventBase) string string
  | OrderAllocationCompleted (we_base: DomainEventBase) string
  | OrderAllocationRejected (we_base: DomainEventBase) string string

definition NewAvailabilityUpdatedDueToProductionOrder ::
  "BeerId \<Rightarrow> uuid \<Rightarrow> BeerName \<Rightarrow> Quantity \<Rightarrow> warehouse_event" where
  [msg_defs]: "NewAvailabilityUpdatedDueToProductionOrder beerId commitId beerName quantity =
     AvailabilityUpdatedDueToProductionOrder (NewDomainEventBase beerId commitId) beerId beerName quantity"

definition NewBeerAvailabilityUpdated ::
  "BeerId \<Rightarrow> uuid \<Rightarrow> BeerName \<Rightarrow> Quantity \<Rightarrow> string \<Rightarrow> warehouse_event" where
  [msg_defs]: "NewBeerAvailabilityUpdated beerId commitId beerName quantity salesOrderId =
     BeerAvailabilityUpdated (NewDomainEventBase beerId commitId) beerId beerName quantity salesOrderId"

definition NewQuantityNotFound ::
  "BeerId \<Rightarrow> uuid \<Rightarrow> string \<Rightarrow> Quantity \<Rightarrow> Quantity \<Rightarrow> warehouse_event" where
  [msg_defs]: "NewQuantityNotFound beerId commitId salesOrderId requested available =
     QuantityNotFound (NewDomainEventBase beerId commitId) beerId salesOrderId requested available"

definition NewAvailabilityCompensated ::
  "BeerId \<Rightarrow> uuid \<Rightarrow> BeerName \<Rightarrow> Quantity \<Rightarrow> string \<Rightarrow> warehouse_event" where
  [msg_defs]: "NewAvailabilityCompensated beerId commitId beerName quantity salesOrderId =
     AvailabilityCompensated (NewDomainEventBase beerId commitId) beerId beerName quantity salesOrderId"

definition NewOrderAllocationStarted ::
  "uuid_pkg \<Rightarrow> uuid \<Rightarrow> uuid \<Rightarrow> SagaRowData list \<Rightarrow> warehouse_event" where
  [msg_defs]: "NewOrderAllocationStarted U salesOrderId commitId rows =
     OrderAllocationStarted (NewDomainEventBase salesOrderId commitId) (UString U salesOrderId) rows"

definition NewAllocationStepSucceeded :: "uuid_pkg \<Rightarrow> uuid \<Rightarrow> uuid \<Rightarrow> string \<Rightarrow> warehouse_event" where
  [msg_defs]: "NewAllocationStepSucceeded U salesOrderId commitId beerId =
     AllocationStepSucceeded (NewDomainEventBase salesOrderId commitId) (UString U salesOrderId) beerId"

definition NewAllocationStepFailed :: "uuid_pkg \<Rightarrow> uuid \<Rightarrow> uuid \<Rightarrow> string \<Rightarrow> string \<Rightarrow> warehouse_event" where
  [msg_defs]: "NewAllocationStepFailed U salesOrderId commitId beerId reason =
     AllocationStepFailed (NewDomainEventBase salesOrderId commitId) (UString U salesOrderId) beerId reason"

definition NewAllocationStepCompensated :: "uuid_pkg \<Rightarrow> uuid \<Rightarrow> uuid \<Rightarrow> string \<Rightarrow> warehouse_event" where
  [msg_defs]: "NewAllocationStepCompensated U salesOrderId commitId beerId =
     AllocationStepCompensated (NewDomainEventBase salesOrderId commitId) (UString U salesOrderId) beerId"

definition NewOrderAllocationCompleted :: "uuid_pkg \<Rightarrow> uuid \<Rightarrow> uuid \<Rightarrow> warehouse_event" where
  [msg_defs]: "NewOrderAllocationCompleted U salesOrderId commitId =
     OrderAllocationCompleted (NewDomainEventBase salesOrderId commitId) (UString U salesOrderId)"

definition NewOrderAllocationRejected :: "uuid_pkg \<Rightarrow> uuid \<Rightarrow> uuid \<Rightarrow> string \<Rightarrow> warehouse_event" where
  [msg_defs]: "NewOrderAllocationRejected U salesOrderId commitId reason =
     OrderAllocationRejected (NewDomainEventBase salesOrderId commitId) (UString U salesOrderId) reason"

fun warehouse_event_name :: "warehouse_event \<Rightarrow> string" where
  "warehouse_event_name (AvailabilityUpdatedDueToProductionOrder _ _ _ _) =
     ''warehouses.availability_updated_due_to_production_order''"
| "warehouse_event_name (BeerAvailabilityUpdated _ _ _ _ _) = ''warehouses.beer_availability_updated''"
| "warehouse_event_name (QuantityNotFound _ _ _ _ _) = ''warehouses.quantity_not_found''"
| "warehouse_event_name (AvailabilityCompensated _ _ _ _ _) = ''warehouses.availability_compensated''"
| "warehouse_event_name (OrderAllocationStarted _ _ _) = ''warehouses.order_allocation_started''"
| "warehouse_event_name (AllocationStepSucceeded _ _ _) = ''warehouses.allocation_step_succeeded''"
| "warehouse_event_name (AllocationStepFailed _ _ _ _) = ''warehouses.allocation_step_failed''"
| "warehouse_event_name (AllocationStepCompensated _ _ _) = ''warehouses.allocation_step_compensated''"
| "warehouse_event_name (OrderAllocationCompleted _ _) = ''warehouses.order_allocation_completed''"
| "warehouse_event_name (OrderAllocationRejected _ _ _) = ''warehouses.order_allocation_rejected''"

section \<open>Integration events\<close>

definition OrderAllocationCompletedName :: string where
  "OrderAllocationCompletedName = ''warehouses.order_allocation_completed''"

definition OrderAllocationRejectedName :: string where
  "OrderAllocationRejectedName = ''warehouses.order_allocation_rejected''"

datatype warehouse_integration_event =
    IntOrderAllocationCompleted (wi_CommitId: uuid) (wi_SalesOrderId: string)
  | IntOrderAllocationRejected (wi_CommitId: uuid) (wi_SalesOrderId: string) string

definition NewIntOrderAllocationCompleted :: "string \<Rightarrow> uuid \<Rightarrow> warehouse_integration_event" where
  [msg_defs]: "NewIntOrderAllocationCompleted salesOrderId commitId =
     IntOrderAllocationCompleted commitId salesOrderId"

definition NewIntOrderAllocationRejected :: "string \<Rightarrow> uuid \<Rightarrow> string \<Rightarrow> warehouse_integration_event" where
  [msg_defs]: "NewIntOrderAllocationRejected salesOrderId commitId reason =
     IntOrderAllocationRejected commitId salesOrderId reason"

fun warehouse_integration_name :: "warehouse_integration_event \<Rightarrow> string" where
  "warehouse_integration_name (IntOrderAllocationCompleted _ _) = OrderAllocationCompletedName"
| "warehouse_integration_name (IntOrderAllocationRejected _ _ _) = OrderAllocationRejectedName"

end
