(* ===== verification/Sales_Messages.thy ===== *)
theory Sales_Messages
  imports Warehouse_Messages
begin

text \<open>
  The published language of the Sales module, \<^verbatim>\<open>src/internal/sales/sharedkernel\<close>: the row
  type, the commands, the domain events and the integration event, with their
  constructors and wire names. The base structs of messages come from muflone and are
  shared with the Warehouses module.
\<close>

record SalesOrderRowDto =
  so_BeerId :: uuid
  so_BeerName :: string
  so_Quantity :: Quantity
  so_Price :: Price

type_synonym SalesOrderId = uuid
type_synonym CustomerId = uuid
type_synonym SalesOrderNumber = string
type_synonym CustomerName = string
type_synonym OrderDate = instant

section \<open>Commands\<close>

datatype sales_command =
    CreateSalesOrder (sc_base: CommandBase) (sc_SalesOrderId: SalesOrderId) SalesOrderNumber OrderDate
      CustomerId CustomerName "SalesOrderRowDto list"
  | MarkSalesOrderAllocated (sc_base: CommandBase) (sc_SalesOrderId: SalesOrderId)
  | MarkSalesOrderAllocationRejected (sc_base: CommandBase) (sc_SalesOrderId: SalesOrderId) string

definition NewCreateSalesOrder ::
  "SalesOrderId \<Rightarrow> uuid \<Rightarrow> SalesOrderNumber \<Rightarrow> OrderDate \<Rightarrow> CustomerId \<Rightarrow> CustomerName
     \<Rightarrow> SalesOrderRowDto list \<Rightarrow> sales_command" where
  [msg_defs]: "NewCreateSalesOrder salesOrderId commitId salesOrderNumber orderDate customerId customerName rows =
     CreateSalesOrder (NewCommandBase salesOrderId commitId) salesOrderId salesOrderNumber orderDate
       customerId customerName rows"

definition NewMarkSalesOrderAllocated :: "SalesOrderId \<Rightarrow> uuid \<Rightarrow> sales_command" where
  [msg_defs]: "NewMarkSalesOrderAllocated salesOrderId commitId =
     MarkSalesOrderAllocated (NewCommandBase salesOrderId commitId) salesOrderId"

definition NewMarkSalesOrderAllocationRejected :: "SalesOrderId \<Rightarrow> uuid \<Rightarrow> string \<Rightarrow> sales_command" where
  [msg_defs]: "NewMarkSalesOrderAllocationRejected salesOrderId commitId reason =
     MarkSalesOrderAllocationRejected (NewCommandBase salesOrderId commitId) salesOrderId reason"

fun sales_command_name :: "sales_command \<Rightarrow> string" where
  "sales_command_name (CreateSalesOrder _ _ _ _ _ _ _) = ''sales.create_sales_order''"
| "sales_command_name (MarkSalesOrderAllocated _ _) = ''sales.mark_sales_order_allocated''"
| "sales_command_name (MarkSalesOrderAllocationRejected _ _ _) = ''sales.mark_sales_order_allocation_rejected''"

section \<open>Domain events\<close>

datatype sales_event =
    SalesOrderCreated (se_base: DomainEventBase) (se_SalesOrderId: SalesOrderId) SalesOrderNumber OrderDate
      CustomerId CustomerName "SalesOrderRowDto list"
  | SalesOrderAllocated (se_base: DomainEventBase) (se_SalesOrderId: SalesOrderId)
  | SalesOrderAllocationRejected (se_base: DomainEventBase) (se_SalesOrderId: SalesOrderId) string

definition NewSalesOrderCreated ::
  "SalesOrderId \<Rightarrow> uuid \<Rightarrow> SalesOrderNumber \<Rightarrow> OrderDate \<Rightarrow> CustomerId \<Rightarrow> CustomerName
     \<Rightarrow> SalesOrderRowDto list \<Rightarrow> sales_event" where
  [msg_defs]: "NewSalesOrderCreated salesOrderId commitId salesOrderNumber orderDate customerId customerName rows =
     SalesOrderCreated (NewDomainEventBase salesOrderId commitId) salesOrderId salesOrderNumber orderDate
       customerId customerName rows"

definition NewSalesOrderAllocated :: "SalesOrderId \<Rightarrow> uuid \<Rightarrow> sales_event" where
  [msg_defs]: "NewSalesOrderAllocated salesOrderId commitId =
     SalesOrderAllocated (NewDomainEventBase salesOrderId commitId) salesOrderId"

definition NewSalesOrderAllocationRejected :: "SalesOrderId \<Rightarrow> uuid \<Rightarrow> string \<Rightarrow> sales_event" where
  [msg_defs]: "NewSalesOrderAllocationRejected salesOrderId commitId reason =
     SalesOrderAllocationRejected (NewDomainEventBase salesOrderId commitId) salesOrderId reason"

fun sales_event_name :: "sales_event \<Rightarrow> string" where
  "sales_event_name (SalesOrderCreated _ _ _ _ _ _ _) = ''sales.sales_order_created''"
| "sales_event_name (SalesOrderAllocated _ _) = ''sales.sales_order_allocated''"
| "sales_event_name (SalesOrderAllocationRejected _ _ _) = ''sales.sales_order_allocation_rejected''"

section \<open>The integration event\<close>

definition SalesOrderCreatedName :: string where
  "SalesOrderCreatedName = ''sales.sales_order_created''"

record SalesOrderCreatedRow =
  sr_BeerId :: string
  sr_BeerName :: string
  sr_Quantity :: go_int
  sr_UnitOfMeasure :: string

datatype sales_integration_event =
    IntSalesOrderCreated (si_CommitId: uuid) (si_SalesOrderId: string) (si_Rows: "SalesOrderCreatedRow list")

definition NewIntSalesOrderCreated ::
  "uuid_pkg \<Rightarrow> uuid \<Rightarrow> uuid \<Rightarrow> SalesOrderCreatedRow list \<Rightarrow> sales_integration_event" where
  [msg_defs]: "NewIntSalesOrderCreated U salesOrderId commitId rows =
     IntSalesOrderCreated commitId (UString U salesOrderId) rows"

fun sales_integration_name :: "sales_integration_event \<Rightarrow> string" where
  "sales_integration_name (IntSalesOrderCreated _ _ _) = SalesOrderCreatedName"

end
