(* ===== verification/Json_Wire.thy ===== *)
theory Json_Wire
  imports Sales_Messages
begin

text \<open>
  The part of \<^verbatim>\<open>encoding/json\<close> the bus uses. A payload is the JSON value its bytes denote, or
  bytes that are no JSON at all. Marshalling writes a struct as an object under its field
  tags; unmarshalling into a struct ignores unknown keys, leaves the zero value where a
  key is missing or \<open>null\<close>, matches keys without regard to case, lets the last occurrence
  of a key win, and fails on a value of the wrong kind. Integers outside 64 bits fail.
  \<open>JNum\<close> is a number written as an integer, \<open>JReal\<close> any other number literal. Strings are
  valid UTF-8, as all strings are that enter the program through a JSON body (marshalling
  would replace invalid bytes).
  Here are the integration messages, the ones whose consumers declare their own struct:
  \<^verbatim>\<open>sharedkernel/integrationevents\<close> of both modules, \<open>salesOrderCreatedMessage\<close> of the saga
  runner and \<open>allocationOutcomeMessage\<close> of the Sales integration handler.
\<close>

section \<open>JSON values and struct decoding\<close>

datatype json =
    JNull
  | JBool bool
  | JNum int
  | JReal string
  | JStr string
  | JArr "json list"
  | JObj "(string \<times> json) list"

datatype payload = Json json | NotJson

text \<open>Key matching folds ASCII letters and the two other code points that fold to one.\<close>

definition fold_char :: "char \<Rightarrow> char" where
  "fold_char c =
     (case map_of (zip ''ABCDEFGHIJKLMNOPQRSTUVWXYZ'' ''abcdefghijklmnopqrstuvwxyz'') c of
        None \<Rightarrow> c | Some l \<Rightarrow> l)"

fun fold_name :: "string \<Rightarrow> string" where
  "fold_name [] = []"
| "fold_name (c # cs) =
     (if c = CHR 0xC5 \<and> take 1 cs = [CHR 0xBF] then CHR ''s'' # fold_name (drop 1 cs)
      else if c = CHR 0xE2 \<and> take 2 cs = [CHR 0x84, CHR 0xAA] then CHR ''k'' # fold_name (drop 2 cs)
      else fold_char c # fold_name cs)"

text \<open>The value a field receives: the last non-null occurrence of its key.\<close>

definition json_field :: "string \<Rightarrow> (string \<times> json) list \<Rightarrow> json option" where
  "json_field k kvs = map_option snd (find (\<lambda>(k', v). fold_name k' = k \<and> v \<noteq> JNull) (rev kvs))"

definition decode_error :: "'a result" where
  "decode_error = Inl (ErrOther ''json'')"

definition get_str :: "string \<Rightarrow> (string \<times> json) list \<Rightarrow> string result" where
  "get_str k kvs = (case json_field k kvs of None \<Rightarrow> Inr [] | Some (JStr s) \<Rightarrow> Inr s | Some _ \<Rightarrow> decode_error)"

definition get_int :: "string \<Rightarrow> (string \<times> json) list \<Rightarrow> go_int result" where
  "get_int k kvs =
     (case json_field k kvs of
        None \<Rightarrow> Inr 0
      | Some (JNum i) \<Rightarrow> if - (2 ^ 63) \<le> i \<and> i \<le> max_int then Inr (of_int i) else decode_error
      | Some _ \<Rightarrow> decode_error)"

definition get_uuid :: "uuid_pkg \<Rightarrow> string \<Rightarrow> (string \<times> json) list \<Rightarrow> uuid result" where
  "get_uuid U k kvs =
     (case json_field k kvs of
        None \<Rightarrow> Inr 0
      | Some (JStr s) \<Rightarrow> (case Parse U s of None \<Rightarrow> decode_error | Some u \<Rightarrow> Inr u)
      | Some _ \<Rightarrow> decode_error)"

fun map_result :: "('a \<Rightarrow> 'b result) \<Rightarrow> 'a list \<Rightarrow> 'b list result" where
  "map_result f [] = Inr []"
| "map_result f (x # xs) =
     (case f x of Inl e \<Rightarrow> Inl e
      | Inr y \<Rightarrow> (case map_result f xs of Inl e \<Rightarrow> Inl e | Inr ys \<Rightarrow> Inr (y # ys)))"

definition get_list :: "(json \<Rightarrow> 'a result) \<Rightarrow> string \<Rightarrow> (string \<times> json) list \<Rightarrow> 'a list result" where
  "get_list f k kvs =
     (case json_field k kvs of
        None \<Rightarrow> Inr [] | Some (JArr vs) \<Rightarrow> map_result f vs | Some _ \<Rightarrow> decode_error)"

text \<open>An object, or \<open>null\<close> which leaves the zero struct.\<close>

fun object_of :: "payload \<Rightarrow> (string \<times> json) list result" where
  "object_of (Json (JObj kvs)) = Inr kvs"
| "object_of (Json JNull) = Inr []"
| "object_of _ = decode_error"

lemma map_result_map: "(\<And>x. x \<in> set xs \<Longrightarrow> f (g x) = Inr (h x)) \<Longrightarrow> map_result f (map g xs) = Inr (map h xs)"
  by (induction xs) simp_all

section \<open>Integration messages on the wire\<close>

definition marshal_int_row :: "SalesOrderCreatedRow \<Rightarrow> json" where
  "marshal_int_row r =
     JObj [(''beer_id'', JStr (sr_BeerId r)), (''beer_name'', JStr (sr_BeerName r)),
           (''quantity'', JNum (sint (sr_Quantity r))), (''unit_of_measure'', JStr (sr_UnitOfMeasure r))]"

fun marshal_sales_integration :: "uuid_pkg \<Rightarrow> sales_integration_event \<Rightarrow> payload" where
  "marshal_sales_integration U (IntSalesOrderCreated commitId salesOrderId rows) =
     Json (JObj [(''commit_id'', JStr (UString U commitId)), (''sales_order_id'', JStr salesOrderId),
                 (''rows'', JArr (map marshal_int_row rows))])"

fun marshal_warehouse_integration :: "uuid_pkg \<Rightarrow> warehouse_integration_event \<Rightarrow> payload" where
  "marshal_warehouse_integration U (IntOrderAllocationCompleted commitId salesOrderId) =
     Json (JObj [(''commit_id'', JStr (UString U commitId)), (''sales_order_id'', JStr salesOrderId)])"
| "marshal_warehouse_integration U (IntOrderAllocationRejected commitId salesOrderId reason) =
     Json (JObj [(''commit_id'', JStr (UString U commitId)), (''sales_order_id'', JStr salesOrderId),
                 (''reason'', JStr reason)])"

record salesOrderCreatedMessage =
  som_CommitId :: uuid
  som_SalesOrderId :: string
  som_Rows :: "SagaRowData list"

record allocationOutcomeMessage =
  aom_CommitId :: uuid
  aom_SalesOrderId :: string
  aom_Reason :: string

definition unmarshal_row :: "json \<Rightarrow> SagaRowData result" where
  "unmarshal_row j =
     (case object_of (Json j) of Inl e \<Rightarrow> Inl e | Inr kvs \<Rightarrow>
      (case get_str ''beer_id'' kvs of Inl e \<Rightarrow> Inl e | Inr b \<Rightarrow>
      (case get_str ''beer_name'' kvs of Inl e \<Rightarrow> Inl e | Inr n \<Rightarrow>
      (case get_int ''quantity'' kvs of Inl e \<Rightarrow> Inl e | Inr q \<Rightarrow>
      (case get_str ''unit_of_measure'' kvs of Inl e \<Rightarrow> Inl e | Inr u \<Rightarrow>
         Inr \<lparr>row_BeerId = b, row_BeerName = n, row_Quantity = q, row_UnitOfMeasure = u\<rparr>)))))"

definition unmarshal_salesOrderCreated :: "uuid_pkg \<Rightarrow> payload \<Rightarrow> salesOrderCreatedMessage result" where
  "unmarshal_salesOrderCreated U p =
     (case object_of p of Inl e \<Rightarrow> Inl e | Inr kvs \<Rightarrow>
      (case get_uuid U ''commit_id'' kvs of Inl e \<Rightarrow> Inl e | Inr c \<Rightarrow>
      (case get_str ''sales_order_id'' kvs of Inl e \<Rightarrow> Inl e | Inr s \<Rightarrow>
      (case get_list unmarshal_row ''rows'' kvs of Inl e \<Rightarrow> Inl e | Inr rows \<Rightarrow>
         Inr \<lparr>som_CommitId = c, som_SalesOrderId = s, som_Rows = rows\<rparr>))))"

definition unmarshal_allocationOutcome :: "uuid_pkg \<Rightarrow> payload \<Rightarrow> allocationOutcomeMessage result" where
  "unmarshal_allocationOutcome U p =
     (case object_of p of Inl e \<Rightarrow> Inl e | Inr kvs \<Rightarrow>
      (case get_uuid U ''commit_id'' kvs of Inl e \<Rightarrow> Inl e | Inr c \<Rightarrow>
      (case get_str ''sales_order_id'' kvs of Inl e \<Rightarrow> Inl e | Inr s \<Rightarrow>
      (case get_str ''reason'' kvs of Inl e \<Rightarrow> Inl e | Inr r \<Rightarrow>
         Inr \<lparr>aom_CommitId = c, aom_SalesOrderId = s, aom_Reason = r\<rparr>))))"

section \<open>The consumers' structs read what the producers wrote\<close>

lemmas unmarshal_defs = json_field_def get_str_def get_int_def get_uuid_def get_list_def fold_char_def

definition row_of_int_row :: "SalesOrderCreatedRow \<Rightarrow> SagaRowData" where
  "row_of_int_row r = \<lparr>row_BeerId = sr_BeerId r, row_BeerName = sr_BeerName r,
                       row_Quantity = sr_Quantity r, row_UnitOfMeasure = sr_UnitOfMeasure r\<rparr>"

lemma of_int_sint_range:
  "- (2 ^ 63) \<le> sint (w :: go_int)" "sint (w :: go_int) \<le> max_int" "of_int (sint w) = w"
  using sint_bounds [of w] by simp_all

lemma unmarshal_marshal_row: "unmarshal_row (marshal_int_row r) = Inr (row_of_int_row r)"
  using of_int_sint_range [of "sr_Quantity r"]
  by (simp add: unmarshal_row_def marshal_int_row_def unmarshal_defs row_of_int_row_def)

lemma unmarshal_marshal_salesOrderCreated:
  "uuid_ok U \<Longrightarrow> unmarshal_salesOrderCreated U (marshal_sales_integration U (IntSalesOrderCreated c s rows)) =
     Inr \<lparr>som_CommitId = c, som_SalesOrderId = s, som_Rows = map row_of_int_row rows\<rparr>"
  by (simp add: unmarshal_salesOrderCreated_def unmarshal_defs
      map_result_map [of rows unmarshal_row marshal_int_row row_of_int_row] unmarshal_marshal_row)

lemma unmarshal_marshal_outcome:
  "uuid_ok U \<Longrightarrow> unmarshal_allocationOutcome U (marshal_warehouse_integration U (IntOrderAllocationCompleted c s)) =
     Inr \<lparr>aom_CommitId = c, aom_SalesOrderId = s, aom_Reason = []\<rparr>"
  "uuid_ok U \<Longrightarrow> unmarshal_allocationOutcome U (marshal_warehouse_integration U (IntOrderAllocationRejected c s r)) =
     Inr \<lparr>aom_CommitId = c, aom_SalesOrderId = s, aom_Reason = r\<rparr>"
  by (simp_all add: unmarshal_allocationOutcome_def unmarshal_defs)

end
