(* ===== verification/Aggregate_Root.thy ===== *)
theory Aggregate_Root
  imports Brew_Prelude
begin

text \<open>
  \<^verbatim>\<open>src/internal/muflone/aggregate.go\<close>. The Go struct \<open>AggregateRoot\<close> is embedded in every
  concrete aggregate; here it is an extensible record that the aggregates extend. The
  \<open>router\<close> field, set by \<open>Bind\<close> to the concrete aggregate, is the function argument
  \<open>route\<close>: the aggregate's \<open>Route\<close> method. The locale \<open>event_sourced\<close> is the contract of
  \<open>EventRouter\<close>: routing an event leaves the bookkeeping of the root alone.
\<close>

section \<open>The root and its operations\<close>

record 'e AggregateRoot =
  ar_id :: uuid
  ar_version :: int
  ar_uncommitted :: "'e list"

type_synonym ('e, 'x) router =
  "'e \<Rightarrow> ('e, 'x) AggregateRoot_scheme \<Rightarrow> ('e, 'x) AggregateRoot_scheme"

definition SetID :: "uuid \<Rightarrow> ('e, 'x) AggregateRoot_scheme \<Rightarrow> ('e, 'x) AggregateRoot_scheme" where
  [go_defs]: "SetID i a = a\<lparr>ar_id := i\<rparr>"

definition ApplyEvent ::
  "('e, 'x) router \<Rightarrow> 'e \<Rightarrow> ('e, 'x) AggregateRoot_scheme \<Rightarrow> ('e, 'x) AggregateRoot_scheme" where
  "ApplyEvent route event a = (let a' = route event a in a'\<lparr>ar_version := ar_version a' + 1\<rparr>)"

definition RaiseEvent ::
  "('e, 'x) router \<Rightarrow> 'e \<Rightarrow> ('e, 'x) AggregateRoot_scheme \<Rightarrow> ('e, 'x) AggregateRoot_scheme" where
  "RaiseEvent route event a =
     (let a' = ApplyEvent route event a in a'\<lparr>ar_uncommitted := ar_uncommitted a' @ [event]\<rparr>)"

definition UncommittedEvents :: "('e, 'x) AggregateRoot_scheme \<Rightarrow> 'e list" where
  [go_defs]: "UncommittedEvents a = ar_uncommitted a"

definition ClearUncommittedEvents ::
  "('e, 'x) AggregateRoot_scheme \<Rightarrow> ('e, 'x) AggregateRoot_scheme" where
  [go_defs]: "ClearUncommittedEvents a = a\<lparr>ar_uncommitted := []\<rparr>"

text \<open>Replaying a stream, and raising a sequence of new events.\<close>

definition replay ::
  "('e, 'x) router \<Rightarrow> ('e, 'x) AggregateRoot_scheme \<Rightarrow> 'e list \<Rightarrow> ('e, 'x) AggregateRoot_scheme" where
  "replay route a es = foldl (\<lambda>a e. ApplyEvent route e a) a es"

definition raise_all ::
  "('e, 'x) router \<Rightarrow> ('e, 'x) AggregateRoot_scheme \<Rightarrow> 'e list \<Rightarrow> ('e, 'x) AggregateRoot_scheme" where
  "raise_all route a es = foldl (\<lambda>a e. RaiseEvent route e a) a es"

text \<open>
  \<open>loaded_as route f hist a\<close>: the aggregate \<open>a\<close> is what one gets by replaying the history
  \<open>hist\<close> into the factory's value \<open>f\<close> and then raising exactly its uncommitted events.
\<close>

definition loaded_as ::
  "('e, 'x) router \<Rightarrow> ('e, 'x) AggregateRoot_scheme \<Rightarrow> 'e list \<Rightarrow> ('e, 'x) AggregateRoot_scheme \<Rightarrow> bool" where
  "loaded_as route f hist a \<longleftrightarrow> a = raise_all route (replay route f hist) (ar_uncommitted a)"

section \<open>Laws that hold for any router\<close>

lemma replay_simps [simp]:
  "replay route a [] = a"
  "replay route a (e # es) = replay route (ApplyEvent route e a) es"
  by (simp_all add: replay_def)

lemma replay_append [simp]: "replay route a (xs @ ys) = replay route (replay route a xs) ys"
  by (simp add: replay_def)

lemma raise_all_simps [simp]:
  "raise_all route a [] = a"
  "raise_all route a (e # es) = raise_all route (RaiseEvent route e a) es"
  by (simp_all add: raise_all_def)

lemma raise_all_append [simp]:
  "raise_all route a (xs @ ys) = raise_all route (raise_all route a xs) ys"
  by (simp add: raise_all_def)

section \<open>The contract of an event router\<close>

locale event_sourced =
  fixes route :: "('e, 'x) router"
  assumes route_version: "ar_version (route e a) = ar_version a"
    and route_uncommitted_commute:
      "route e (a\<lparr>ar_uncommitted := u\<rparr>) = (route e a)\<lparr>ar_uncommitted := u\<rparr>"
begin

lemma route_uncommitted: "ar_uncommitted (route e a) = ar_uncommitted a"
proof -
  have "route e a = route e (a\<lparr>ar_uncommitted := ar_uncommitted a\<rparr>)" by simp
  also have "\<dots> = (route e a)\<lparr>ar_uncommitted := ar_uncommitted a\<rparr>"
    by (rule route_uncommitted_commute)
  finally have "ar_uncommitted (route e a) = ar_uncommitted ((route e a)\<lparr>ar_uncommitted := ar_uncommitted a\<rparr>)"
    by (rule arg_cong)
  then show ?thesis by simp
qed

lemma apply_fields:
  "ar_version (ApplyEvent route e a) = ar_version a + 1"
  "ar_uncommitted (ApplyEvent route e a) = ar_uncommitted a"
  by (simp_all add: ApplyEvent_def Let_def route_version route_uncommitted)

lemma raise_fields:
  "ar_version (RaiseEvent route e a) = ar_version a + 1"
  "ar_uncommitted (RaiseEvent route e a) = ar_uncommitted a @ [e]"
  by (simp_all add: RaiseEvent_def Let_def apply_fields)

lemma replay_fields:
  "ar_version (replay route a es) = ar_version a + int (length es)"
  "ar_uncommitted (replay route a es) = ar_uncommitted a"
  by (induction es arbitrary: a) (simp_all add: apply_fields)

lemma apply_uncommitted_commute:
  "ApplyEvent route e (a\<lparr>ar_uncommitted := u\<rparr>) = (ApplyEvent route e a)\<lparr>ar_uncommitted := u\<rparr>"
  by (simp add: ApplyEvent_def Let_def route_uncommitted_commute)

lemma replay_uncommitted_commute:
  "replay route (a\<lparr>ar_uncommitted := u\<rparr>) es = (replay route a es)\<lparr>ar_uncommitted := u\<rparr>"
  by (induction es arbitrary: a) (simp_all add: apply_uncommitted_commute)

lemma raise_apply:
  "RaiseEvent route e a = (ApplyEvent route e a)\<lparr>ar_uncommitted := ar_uncommitted a @ [e]\<rparr>"
  by (simp add: RaiseEvent_def Let_def apply_fields)

lemma raise_all_replay:
  "raise_all route a es = (replay route a es)\<lparr>ar_uncommitted := ar_uncommitted a @ es\<rparr>"
  by (induction es arbitrary: a)
    (simp_all add: raise_apply replay_uncommitted_commute apply_fields)

lemma loaded_as_replay:
  assumes "ar_uncommitted f = []"
  shows "loaded_as route f hist a \<longleftrightarrow>
    a = (replay route f (hist @ ar_uncommitted a))\<lparr>ar_uncommitted := ar_uncommitted a\<rparr>"
  using assms by (simp add: loaded_as_def raise_all_replay replay_fields)

lemma loaded_as_version:
  assumes "ar_uncommitted f = []" and "ar_version f = 0" and "loaded_as route f hist a"
  shows "ar_version a = int (length hist) + int (length (ar_uncommitted a))"
proof -
  have "ar_version a = ar_version ((replay route f (hist @ ar_uncommitted a))\<lparr>ar_uncommitted := ar_uncommitted a\<rparr>)"
    using assms loaded_as_replay by metis
  then show ?thesis using assms(2) by (simp add: replay_fields)
qed

lemma loaded_as_fresh: "ar_uncommitted f = [] \<Longrightarrow> loaded_as route f hist (replay route f hist)"
  by (simp add: loaded_as_def replay_fields)

lemma loaded_as_raise: "loaded_as route f hist a \<Longrightarrow> loaded_as route f hist (RaiseEvent route e a)"
proof -
  assume a: "loaded_as route f hist a"
  have "raise_all route (replay route f hist) (ar_uncommitted a @ [e]) =
      RaiseEvent route e (raise_all route (replay route f hist) (ar_uncommitted a))"
    by simp
  also have "\<dots> = RaiseEvent route e a" using a by (simp add: loaded_as_def)
  finally show ?thesis by (simp add: loaded_as_def raise_fields)
qed

lemma loaded_as_cleared:
  assumes "ar_uncommitted f = []" and "loaded_as route f hist a"
  shows "replay route f (hist @ ar_uncommitted a) = ClearUncommittedEvents a"
proof -
  have a: "a = (replay route f (hist @ ar_uncommitted a))\<lparr>ar_uncommitted := ar_uncommitted a\<rparr>"
    using assms loaded_as_replay by blast
  have "ar_uncommitted (replay route f (hist @ ar_uncommitted a)) = []"
    using assms(1) by (simp only: replay_fields)
  then have "(replay route f (hist @ ar_uncommitted a))\<lparr>ar_uncommitted := []\<rparr>
      = replay route f (hist @ ar_uncommitted a)"
    by (metis AggregateRoot.surjective AggregateRoot.update_convs(3))
  then show ?thesis by (subst (2) a) (simp add: ClearUncommittedEvents_def)
qed

end

end
