(* ===== verification/Event_Store.thy ===== *)
theory Event_Store
  imports Brew_Prelude
begin

text \<open>
  \<^verbatim>\<open>src/internal/muflone/eventstore.go\<close>: stored events, the \<open>EventStore\<close> and
  \<open>StreamLister\<close> interfaces as a record of functions over a store state, and the
  in-memory store. The locale \<open>event_store\<close> states what the clients of the interface rely
  on, in terms of the history of each stream; \<open>reliable_event_store\<close> adds that no
  operation fails but for a version conflict.
\<close>

section \<open>Stored events and the interface\<close>

record 'e StoredEvent =
  StreamID :: string
  Version :: int
  CommitID :: uuid
  OccurredAt :: instant
  Event :: 'e

text \<open>
  A Go interface value is the record of its methods. \<open>es_Append\<close> takes the current time,
  which the store reads from the clock, and returns the outcome with the store it leaves.
  \<open>es_ListStreams\<close> is \<open>None\<close> for a store that does not implement \<open>StreamLister\<close>.
\<close>

record ('s, 'e) EventStore =
  es_ReadStream :: "string \<Rightarrow> 's \<Rightarrow> 'e StoredEvent list result"
  es_Append :: "instant \<Rightarrow> string \<Rightarrow> int \<Rightarrow> uuid \<Rightarrow> 'e list \<Rightarrow> 's \<Rightarrow> ('s, unit) outcome"
  es_ListStreams :: "(string \<Rightarrow> 's \<Rightarrow> string list result) option"

section \<open>The in-memory store\<close>

record 'e InMemoryEventStore =
  streams :: "(string \<times> 'e StoredEvent list) list"
  appended :: "'e list"

definition NewInMemoryEventStore :: "'e InMemoryEventStore" where
  "NewInMemoryEventStore = \<lparr>streams = [], appended = []\<rparr>"

definition stream_of :: "'e InMemoryEventStore \<Rightarrow> string \<Rightarrow> 'e StoredEvent list" where
  "stream_of s streamID = lookup_default [] (streams s) streamID"

definition InMemory_ReadStream ::
  "string \<Rightarrow> 'e InMemoryEventStore \<Rightarrow> 'e StoredEvent list result" where
  "InMemory_ReadStream streamID s = Inr (stream_of s streamID)"

fun append_loop ::
  "instant \<Rightarrow> string \<Rightarrow> int \<Rightarrow> uuid \<Rightarrow> nat \<Rightarrow> 'e list \<Rightarrow> 'e StoredEvent list \<times> 'e list
     \<Rightarrow> 'e StoredEvent list \<times> 'e list" where
  "append_loop now streamID expectedVersion commitID i [] acc = acc"
| "append_loop now streamID expectedVersion commitID i (event # evs) (stream, log) =
     append_loop now streamID expectedVersion commitID (Suc i) evs
       (stream @ [\<lparr>StreamID = streamID, Version = expectedVersion + int i + 1, CommitID = commitID,
                   OccurredAt = now, Event = event\<rparr>],
        log @ [event])"

definition InMemory_Append ::
  "instant \<Rightarrow> string \<Rightarrow> int \<Rightarrow> uuid \<Rightarrow> 'e list \<Rightarrow> 'e InMemoryEventStore
     \<Rightarrow> ('e InMemoryEventStore, unit) outcome" where
  "InMemory_Append now streamID expectedVersion commitID evs s =
     (let stream = stream_of s streamID in
      if int (length stream) \<noteq> expectedVersion then (Inl ErrConcurrency, s)
      else case append_loop now streamID expectedVersion commitID 0 evs (stream, appended s) of
        (stream', log') \<Rightarrow>
          (Inr (), s\<lparr>streams := AList.update streamID stream' (streams s), appended := log'\<rparr>))"

definition InMemory_ListStreams :: "string \<Rightarrow> 'e InMemoryEventStore \<Rightarrow> string list result" where
  "InMemory_ListStreams streamPrefix s =
     Inr (sort (filter (prefix (streamPrefix @ ''-'')) (map fst (streams s))))"

text \<open>
  \<open>Seed\<close> reads the length of the slice it is growing, so the version it writes counts each
  earlier event of the batch twice.
\<close>

fun seed_loop :: "('e \<Rightarrow> uuid) \<Rightarrow> string \<Rightarrow> nat \<Rightarrow> 'e list \<Rightarrow> 'e StoredEvent list \<Rightarrow> 'e StoredEvent list" where
  "seed_loop commit_of streamID i [] stream = stream"
| "seed_loop commit_of streamID i (event # evs) stream =
     seed_loop commit_of streamID (Suc i) evs
       (stream @ [\<lparr>StreamID = streamID, Version = int (length stream) + int i + 1,
                   CommitID = commit_of event, OccurredAt = 0, Event = event\<rparr>])"

definition Seed :: "('e \<Rightarrow> uuid) \<Rightarrow> string \<Rightarrow> 'e list \<Rightarrow> 'e InMemoryEventStore \<Rightarrow> 'e InMemoryEventStore" where
  "Seed commit_of streamID evs s =
     s\<lparr>streams := AList.update streamID (seed_loop commit_of streamID 0 evs (stream_of s streamID)) (streams s)\<rparr>"

definition Appended :: "'e InMemoryEventStore \<Rightarrow> 'e list" where
  [go_defs]: "Appended s = appended s"

definition in_memory_store :: "('e InMemoryEventStore, 'e) EventStore" where
  "in_memory_store =
     \<lparr>es_ReadStream = InMemory_ReadStream, es_Append = InMemory_Append,
      es_ListStreams = Some InMemory_ListStreams\<rparr>"

section \<open>Well-formed stores\<close>

text \<open>
  Stream identifiers are unique, no stream is empty, and the versions of a stream are
  1, 2, ..., n under its own identifier.
\<close>

definition versions_ok :: "string \<Rightarrow> 'e StoredEvent list \<Rightarrow> bool" where
  "versions_ok sid stream \<longleftrightarrow>
     (\<forall>i < length stream. Version (stream ! i) = int i + 1 \<and> StreamID (stream ! i) = sid)"

definition store_wf :: "'e InMemoryEventStore \<Rightarrow> bool" where
  "store_wf s \<longleftrightarrow> distinct (map fst (streams s)) \<and>
     (\<forall>(sid, stream) \<in> set (streams s). stream \<noteq> [] \<and> versions_ok sid stream)"

definition mem_history :: "'e InMemoryEventStore \<Rightarrow> string \<Rightarrow> 'e list" where
  "mem_history s sid = map Event (stream_of s sid)"

fun stored_batch :: "instant \<Rightarrow> string \<Rightarrow> int \<Rightarrow> uuid \<Rightarrow> nat \<Rightarrow> 'e list \<Rightarrow> 'e StoredEvent list" where
  "stored_batch now sid ev cid i [] = []"
| "stored_batch now sid ev cid i (e # evs) =
     \<lparr>StreamID = sid, Version = ev + int i + 1, CommitID = cid, OccurredAt = now, Event = e\<rparr>
       # stored_batch now sid ev cid (Suc i) evs"

lemma append_loop_eq:
  "append_loop now sid ev cid i evs (stream, log) = (stream @ stored_batch now sid ev cid i evs, log @ evs)"
  by (induction evs arbitrary: i stream log) simp_all

lemma length_stored_batch [simp]: "length (stored_batch now sid ev cid i evs) = length evs"
  by (induction evs arbitrary: i) simp_all

lemma stored_batch_Nil_iff [simp]: "stored_batch now sid ev cid i evs = [] \<longleftrightarrow> evs = []"
  by (cases evs) simp_all

lemma stored_batch_events [simp]: "map Event (stored_batch now sid ev cid i evs) = evs"
  by (induction evs arbitrary: i) simp_all

lemma stored_batch_nth:
  "j < length evs \<Longrightarrow> stored_batch now sid ev cid i evs ! j =
     \<lparr>StreamID = sid, Version = ev + int (i + j) + 1, CommitID = cid, OccurredAt = now, Event = evs ! j\<rparr>"
proof (induction evs arbitrary: i j)
  case (Cons e evs)
  then show ?case by (cases j) simp_all
qed simp

lemma versions_ok_append:
  "versions_ok sid stream \<Longrightarrow> versions_ok sid (stream @ stored_batch now sid (int (length stream)) cid 0 evs)"
  by (auto simp: versions_ok_def nth_append stored_batch_nth)

lemma InMemory_Append_ok:
  assumes "int (length (stream_of s sid)) = ev"
  shows "InMemory_Append now sid ev cid evs s =
    (Inr (), s\<lparr>streams := AList.update sid (stream_of s sid @ stored_batch now sid ev cid 0 evs) (streams s),
               appended := appended s @ evs\<rparr>)"
  using assms by (simp add: InMemory_Append_def Let_def append_loop_eq)

lemma InMemory_Append_conflict:
  "int (length (stream_of s sid)) \<noteq> ev \<Longrightarrow> InMemory_Append now sid ev cid evs s = (Inl ErrConcurrency, s)"
  by (simp add: InMemory_Append_def Let_def)

lemma stream_of_update [simp]:
  "stream_of (s\<lparr>streams := AList.update sid st (streams s), appended := l\<rparr>) sid' =
     (if sid' = sid then st else stream_of s sid')"
  by (simp add: stream_of_def)

lemma stream_of_wf: "store_wf s \<Longrightarrow> versions_ok sid (stream_of s sid)"
proof (cases "map_of (streams s) sid")
  case None
  then show ?thesis by (simp add: stream_of_def lookup_default_def versions_ok_def)
next
  case (Some st)
  assume "store_wf s"
  moreover from Some have "(sid, st) \<in> set (streams s)" by (rule map_of_SomeD)
  ultimately show ?thesis using Some by (auto simp: store_wf_def stream_of_def lookup_default_def)
qed

lemma store_wf_New: "store_wf NewInMemoryEventStore"
  by (simp add: store_wf_def NewInMemoryEventStore_def)

lemma store_wf_Append:
  assumes "store_wf s" and "evs \<noteq> []"
  shows "store_wf (snd (InMemory_Append now sid ev cid evs s))"
proof (cases "int (length (stream_of s sid)) = ev")
  case True
  let ?st = "stream_of s sid @ stored_batch now sid ev cid 0 evs"
  have "versions_ok sid ?st"
    using versions_ok_append [OF stream_of_wf [OF assms(1)]] True by blast
  then have "\<forall>(sid', st) \<in> set (AList.update sid ?st (streams s)). st \<noteq> [] \<and> versions_ok sid' st"
    using assms by (fastforce simp: store_wf_def dest: set_update_subset)
  then show ?thesis
    using True assms(1) by (simp add: InMemory_Append_ok store_wf_def AList.distinct_update)
next
  case False
  with assms show ?thesis by (simp add: InMemory_Append_conflict)
qed

section \<open>The contract of an event store\<close>

locale event_store =
  fixes es :: "('s, 'e) EventStore"
    and history :: "'s \<Rightarrow> string \<Rightarrow> 'e list"
    and inv :: "'s \<Rightarrow> bool"
  assumes read_history: "inv s \<Longrightarrow> es_ReadStream es sid s = Inr recs \<Longrightarrow> map Event recs = history s sid"
    and read_error: "inv s \<Longrightarrow> es_ReadStream es sid s = Inl err \<Longrightarrow> err \<noteq> ErrAggregateNotFound"
    and append_ok: "inv s \<Longrightarrow> evs \<noteq> [] \<Longrightarrow> es_Append es now sid ev cid evs s = (Inr (), s') \<Longrightarrow>
          ev = int (length (history s sid)) \<and> history s' = (history s)(sid := history s sid @ evs)"
    and append_failed: "inv s \<Longrightarrow> evs \<noteq> [] \<Longrightarrow> es_Append es now sid ev cid evs s = (Inl e, s') \<Longrightarrow>
          history s' = history s"
    and append_inv: "inv s \<Longrightarrow> evs \<noteq> [] \<Longrightarrow> inv (snd (es_Append es now sid ev cid evs s))"
    and list_streams: "inv s \<Longrightarrow> es_ListStreams es = Some ls \<Longrightarrow> ls p s = Inr ids \<Longrightarrow>
          sorted ids \<and> distinct ids \<and> set ids = {sid. history s sid \<noteq> [] \<and> prefix (p @ ''-'') sid}"
begin

lemma append_stale:
  assumes "inv s" and "evs \<noteq> []" and "ev \<noteq> int (length (history s sid))"
  shows "failed (fst (es_Append es now sid ev cid evs s))"
proof (rule ccontr)
  assume "\<not> failed (fst (es_Append es now sid ev cid evs s))"
  then obtain u s' where "es_Append es now sid ev cid evs s = (Inr u, s')"
    by (metis failed_def prod.collapse sum.exhaust)
  with append_ok [OF assms(1,2)] assms(3) show False by auto
qed

lemma history_grows:
  assumes "inv s" and "evs \<noteq> []"
  shows "prefix (history s sid') (history (snd (es_Append es now sid ev cid evs s)) sid')"
proof (cases "es_Append es now sid ev cid evs s")
  case (Pair r s')
  then show ?thesis
    using append_ok [OF assms] append_failed [OF assms] by (cases r) auto
qed

end

locale reliable_event_store = event_store es history inv
  for es :: "('s, 'e) EventStore" and history :: "'s \<Rightarrow> string \<Rightarrow> 'e list" and inv :: "'s \<Rightarrow> bool" +
  assumes read_total: "inv s \<Longrightarrow> \<not> failed (es_ReadStream es sid s)"
    and append_total: "inv s \<Longrightarrow> evs \<noteq> [] \<Longrightarrow> ev = int (length (history s sid)) \<Longrightarrow>
          fst (es_Append es now sid ev cid evs s) = Inr ()"
    and append_conflict: "inv s \<Longrightarrow> evs \<noteq> [] \<Longrightarrow> ev \<noteq> int (length (history s sid)) \<Longrightarrow>
          fst (es_Append es now sid ev cid evs s) = Inl ErrConcurrency"
    and read_frame: "inv s \<Longrightarrow> evs \<noteq> [] \<Longrightarrow> sid' \<noteq> sid \<Longrightarrow>
          es_ReadStream es sid' (snd (es_Append es now sid ev cid evs s)) = es_ReadStream es sid' s"

lemma in_memory_ids:
  assumes "store_wf s"
  shows "set (map fst (streams s)) = {sid. mem_history s sid \<noteq> []}"
proof -
  have "sid \<in> fst ` set (streams s) \<longleftrightarrow> stream_of s sid \<noteq> []" for sid
  proof (cases "map_of (streams s) sid")
    case None
    then have "stream_of s sid = []" by (simp add: stream_of_def lookup_default_def)
    with None show ?thesis by (simp add: map_of_eq_None_iff)
  next
    case (Some st)
    then have "(sid, st) \<in> set (streams s)" by (rule map_of_SomeD)
    with assms have "st \<noteq> []" by (auto simp: store_wf_def)
    with Some show ?thesis
      by (auto simp: stream_of_def lookup_default_def dest: map_of_SomeD intro: rev_image_eqI)
  qed
  then show ?thesis by (auto simp: mem_history_def)
qed

interpretation mem: reliable_event_store in_memory_store mem_history store_wf
proof
  show "store_wf s \<Longrightarrow> es_ReadStream in_memory_store sid s = Inr recs \<Longrightarrow> map Event recs = mem_history s sid"
    for s :: "'e InMemoryEventStore" and sid recs
    by (simp add: in_memory_store_def InMemory_ReadStream_def mem_history_def)
  show "store_wf s \<Longrightarrow> es_ReadStream in_memory_store sid s = Inl err \<Longrightarrow> err \<noteq> ErrAggregateNotFound"
    for s :: "'e InMemoryEventStore" and sid err
    by (simp add: in_memory_store_def InMemory_ReadStream_def)
  show "ev = int (length (mem_history s sid)) \<and> mem_history s' = (mem_history s)(sid := mem_history s sid @ evs)"
    if "es_Append in_memory_store now sid ev cid evs s = (Inr (), s')"
    for s :: "'e InMemoryEventStore" and sid ev cid evs now s'
    using that by (cases "int (length (stream_of s sid)) = ev")
      (auto simp: in_memory_store_def InMemory_Append_ok InMemory_Append_conflict mem_history_def)
  show "mem_history s' = mem_history s"
    if "es_Append in_memory_store now sid ev cid evs s = (Inl e, s')"
    for s :: "'e InMemoryEventStore" and sid ev cid evs now s' e
    using that by (cases "int (length (stream_of s sid)) = ev")
      (auto simp: in_memory_store_def InMemory_Append_ok InMemory_Append_conflict)
  show "store_wf s \<Longrightarrow> evs \<noteq> [] \<Longrightarrow> store_wf (snd (es_Append in_memory_store now sid ev cid evs s))"
    for s :: "'e InMemoryEventStore" and sid ev cid evs now
    by (simp add: in_memory_store_def store_wf_Append)
  show "sorted ids \<and> distinct ids \<and> set ids = {sid. mem_history s sid \<noteq> [] \<and> prefix (p @ ''-'') sid}"
    if "store_wf s" "es_ListStreams in_memory_store = Some ls" "ls p s = Inr ids"
    for s :: "'e InMemoryEventStore" and ls p ids
    using that in_memory_ids [OF that(1)]
    by (auto simp: in_memory_store_def InMemory_ListStreams_def store_wf_def)
  show "\<not> failed (es_ReadStream in_memory_store sid s)" for s :: "'e InMemoryEventStore" and sid
    by (simp add: in_memory_store_def InMemory_ReadStream_def)
  show "ev = int (length (mem_history s sid)) \<Longrightarrow> fst (es_Append in_memory_store now sid ev cid evs s) = Inr ()"
    for s :: "'e InMemoryEventStore" and sid ev cid evs now
    by (simp add: in_memory_store_def InMemory_Append_ok mem_history_def)
  show "ev \<noteq> int (length (mem_history s sid)) \<Longrightarrow>
      fst (es_Append in_memory_store now sid ev cid evs s) = Inl ErrConcurrency"
    for s :: "'e InMemoryEventStore" and sid ev cid evs now
    by (simp add: in_memory_store_def InMemory_Append_conflict mem_history_def)
  show "sid' \<noteq> sid \<Longrightarrow> es_ReadStream in_memory_store sid' (snd (es_Append in_memory_store now sid ev cid evs s)) =
      es_ReadStream in_memory_store sid' s"
    for s :: "'e InMemoryEventStore" and sid sid' ev cid evs now
    by (cases "int (length (stream_of s sid)) = ev")
      (simp_all add: in_memory_store_def InMemory_ReadStream_def InMemory_Append_ok InMemory_Append_conflict)
qed

end
