(* ===== verification/Repository.thy ===== *)
theory Repository
  imports Aggregate_Root Event_Store
begin

text \<open>
  \<^verbatim>\<open>src/internal/muflone/repository.go\<close>: \<open>GetByID\<close> rebuilds an aggregate by replaying its
  stream, \<open>Save\<close> appends the uncommitted events under an optimistic-concurrency check and
  then hands them to the publisher, one by one. The record is the Go struct; the aggregate
  type's methods enter through \<open>repo_route\<close>. The locale \<open>repository\<close> combines the contracts
  of the event store and of the router and proves what the handlers of every module rely
  on: loading is replay, a save over a stale load fails and changes nothing, and a load
  after a save returns the saved aggregate.
\<close>

section \<open>The repository\<close>

record ('s, 'e, 'b, 'x) EventStoreRepository =
  repo_store :: "('s, 'e) EventStore"
  repo_factory :: "('e, 'x) AggregateRoot_scheme"
  repo_streamName :: string
  repo_publisher :: "('e \<Rightarrow> 'b \<Rightarrow> ('b, unit) outcome) option"
  repo_route :: "('e, 'x) router"

definition repo_stream :: "uuid_pkg \<Rightarrow> ('s, 'e, 'b, 'x) EventStoreRepository \<Rightarrow> uuid \<Rightarrow> string" where
  "repo_stream U R i = repo_streamName R @ ''-'' @ UString U i"

definition GetByID ::
  "uuid_pkg \<Rightarrow> ('s, 'e, 'b, 'x) EventStoreRepository \<Rightarrow> uuid \<Rightarrow> 's \<Rightarrow> ('e, 'x) AggregateRoot_scheme result" where
  "GetByID U R i s =
     (case es_ReadStream (repo_store R) (repo_stream U R i) s of
        Inl e \<Rightarrow> Inl e
      | Inr stored \<Rightarrow>
          if length stored = 0 then Inl ErrAggregateNotFound
          else Inr (foldl (\<lambda>a record. ApplyEvent (repo_route R) (Event record) a) (repo_factory R) stored))"

definition Save ::
  "uuid_pkg \<Rightarrow> ('s, 'e, 'b, 'x) EventStoreRepository \<Rightarrow> instant \<Rightarrow> ('e, 'x) AggregateRoot_scheme \<Rightarrow> uuid
     \<Rightarrow> 's \<times> 'b \<Rightarrow> ('s \<times> 'b, ('e, 'x) AggregateRoot_scheme) outcome" where
  "Save U R now aggregate commitID w =
     (case w of (s, b) \<Rightarrow>
      let uncommitted = UncommittedEvents aggregate in
      if length uncommitted = 0 then (Inr aggregate, (s, b))
      else
        let expectedVersion = ar_version aggregate - int (length uncommitted) in
        case es_Append (repo_store R) now (repo_stream U R (ar_id aggregate)) expectedVersion commitID uncommitted s of
          (Inl e, s') \<Rightarrow> (Inl e, (s', b))
        | (Inr _, s') \<Rightarrow>
            (case repo_publisher R of
               None \<Rightarrow> (Inr (ClearUncommittedEvents aggregate), (s', b))
             | Some publish \<Rightarrow>
                 (case for_each publish uncommitted b of
                    (Inl e, b') \<Rightarrow> (Inl e, (s', b'))
                  | (Inr _, b') \<Rightarrow> (Inr (ClearUncommittedEvents aggregate), (s', b')))))"

lemma foldl_records: "foldl (\<lambda>a r. ApplyEvent route (Event r) a) f recs = replay route f (map Event recs)"
  by (induction recs arbitrary: f) simp_all

lemma repo_stream_inj:
  "uuid_ok U \<Longrightarrow> repo_stream U R i = repo_stream U R j \<longleftrightarrow> i = j"
  by (simp add: repo_stream_def uuid_ok_inj)

lemma Save_no_events: "ar_uncommitted a = [] \<Longrightarrow> Save U R now a cid w = (Inr a, w)"
  by (cases w) (simp add: Save_def UncommittedEvents_def)

text \<open>
  The two halves of a save: the append decides what is stored, the publisher decides what
  is sent and whether an error is reported.
\<close>

lemma Save_append_failed:
  assumes "ar_uncommitted a \<noteq> []"
    and "es_Append (repo_store R) now (repo_stream U R (ar_id a)) (ar_version a - int (length (ar_uncommitted a)))
           cid (ar_uncommitted a) s = (Inl e, s')"
  shows "Save U R now a cid (s, b) = (Inl e, (s', b))"
  using assms by (simp add: Save_def UncommittedEvents_def Let_def)

lemma Save_append_ok:
  assumes "ar_uncommitted a \<noteq> []"
    and "es_Append (repo_store R) now (repo_stream U R (ar_id a)) (ar_version a - int (length (ar_uncommitted a)))
           cid (ar_uncommitted a) s = (Inr u, s')"
  shows "fst (snd (Save U R now a cid (s, b))) = s'"
    and "repo_publisher R = None \<Longrightarrow>
           Save U R now a cid (s, b) = (Inr (ClearUncommittedEvents a), (s', b))"
    and "repo_publisher R = Some publish \<Longrightarrow> for_each publish (ar_uncommitted a) b = (Inr v, b') \<Longrightarrow>
           Save U R now a cid (s, b) = (Inr (ClearUncommittedEvents a), (s', b'))"
    and "repo_publisher R = Some publish \<Longrightarrow> for_each publish (ar_uncommitted a) b = (Inl e, b') \<Longrightarrow>
           Save U R now a cid (s, b) = (Inl e, (s', b'))"
  using assms by (simp_all add: Save_def UncommittedEvents_def Let_def split: option.splits prod.splits sum.splits)

lemma Save_store:
  assumes "ar_uncommitted a \<noteq> []"
  shows "fst (snd (Save U R now a cid (s, b))) =
    snd (es_Append (repo_store R) now (repo_stream U R (ar_id a)) (ar_version a - int (length (ar_uncommitted a)))
      cid (ar_uncommitted a) s)"
proof (cases "es_Append (repo_store R) now (repo_stream U R (ar_id a))
    (ar_version a - int (length (ar_uncommitted a))) cid (ar_uncommitted a) s")
  case (Pair r t)
  then show ?thesis
    by (cases r) (simp_all add: Save_append_failed [OF assms] Save_append_ok(1) [OF assms])
qed

section \<open>What a repository guarantees\<close>

locale repository =
  event_store "repo_store R" history inv + event_sourced "repo_route R"
  for R :: "('s, 'e, 'b, 'x) EventStoreRepository"
    and history :: "'s \<Rightarrow> string \<Rightarrow> 'e list" and inv :: "'s \<Rightarrow> bool" +
  assumes factory_uncommitted: "ar_uncommitted (repo_factory R) = []"
    and factory_version: "ar_version (repo_factory R) = 0"
begin

lemma get_replay:
  assumes "inv s" and "GetByID U R i s = Inr a"
  shows "history s (repo_stream U R i) \<noteq> []"
    and "a = replay (repo_route R) (repo_factory R) (history s (repo_stream U R i))"
proof -
  obtain recs where r: "es_ReadStream (repo_store R) (repo_stream U R i) s = Inr recs"
    and "recs \<noteq> []" and a: "a = replay (repo_route R) (repo_factory R) (map Event recs)"
    using assms(2) by (auto simp: GetByID_def foldl_records split: sum.splits if_splits)
  moreover from r have "map Event recs = history s (repo_stream U R i)"
    by (rule read_history [OF assms(1)])
  ultimately show "history s (repo_stream U R i) \<noteq> []"
    and "a = replay (repo_route R) (repo_factory R) (history s (repo_stream U R i))"
    by auto
qed

lemma get_not_found:
  assumes "inv s" and "GetByID U R i s = Inl ErrAggregateNotFound"
  shows "history s (repo_stream U R i) = []"
proof -
  have "es_ReadStream (repo_store R) (repo_stream U R i) s = Inr []"
    using assms(2) read_error [OF assms(1)] by (auto simp: GetByID_def split: sum.splits if_splits)
  from read_history [OF assms(1) this] show ?thesis by simp
qed

lemma get_loaded:
  "inv s \<Longrightarrow> GetByID U R i s = Inr a \<Longrightarrow>
     loaded_as (repo_route R) (repo_factory R) (history s (repo_stream U R i)) a"
  using get_replay loaded_as_fresh factory_uncommitted by blast

lemma get_fields:
  assumes "inv s" and "GetByID U R i s = Inr a"
  shows "ar_uncommitted a = []" and "ar_version a = int (length (history s (repo_stream U R i)))"
  using get_replay(2) [OF assms] by (simp_all add: replay_fields factory_uncommitted factory_version)

text \<open>
  A save over a load of \<open>hist\<close>: the append expects exactly \<open>length hist\<close> stored events.
\<close>

lemma save_expected_version:
  "loaded_as (repo_route R) (repo_factory R) hist a \<Longrightarrow>
     ar_version a - int (length (ar_uncommitted a)) = int (length hist)"
  using loaded_as_version factory_uncommitted factory_version by fastforce

lemma save_stored:
  assumes "inv s" and loaded: "loaded_as (repo_route R) (repo_factory R) hist a"
    and prefix: "prefix hist (history s (repo_stream U R (ar_id a)))"
    and new: "ar_uncommitted a \<noteq> []"
    and saved: "Save U R now a cid (s, b) = (Inr a', (s', b'))"
  shows "hist = history s (repo_stream U R (ar_id a))"
    and "history s' = (history s)(repo_stream U R (ar_id a) := hist @ ar_uncommitted a)"
    and "a' = ClearUncommittedEvents a" and "inv s'"
proof -
  let ?sid = "repo_stream U R (ar_id a)"
  obtain r t where app: "es_Append (repo_store R) now ?sid (int (length hist)) cid (ar_uncommitted a) s = (r, t)"
    by fastforce
  note ev = save_expected_version [OF loaded]
  have r: "r = Inr ()"
  proof (cases r)
    case (Inl e)
    with Save_append_failed [OF new, of R now U cid s e t b] app ev saved show ?thesis by simp
  qed simp
  have t: "s' = t" and a': "a' = ClearUncommittedEvents a"
    using saved app r new ev
    by (auto simp: Save_def UncommittedEvents_def Let_def split: option.splits prod.splits sum.splits)
  from append_ok [OF assms(1) new] app r
  have len: "int (length hist) = int (length (history s ?sid))"
    and h: "history t = (history s)(?sid := history s ?sid @ ar_uncommitted a)" by blast+
  from prefix len show hist: "hist = history s ?sid" by (auto simp: prefix_def)
  show "history s' = (history s)(?sid := hist @ ar_uncommitted a)" using h t hist by simp
  show "a' = ClearUncommittedEvents a" by (rule a')
  show "inv s'" using append_inv [OF assms(1) new, of now ?sid "int (length hist)" cid] app t by simp
qed

text \<open>A load after a save gives back the saved aggregate.\<close>

lemma save_load:
  assumes "inv s" and loaded: "loaded_as (repo_route R) (repo_factory R) hist a"
    and "prefix hist (history s (repo_stream U R (ar_id a)))"
    and "ar_uncommitted a \<noteq> []"
    and "Save U R now a cid (s, b) = (Inr a', (s', b'))"
    and "GetByID U R (ar_id a) s' = Inr a''"
  shows "a'' = a'"
proof -
  note st = save_stored [OF assms(1-5)]
  have "a'' = replay (repo_route R) (repo_factory R) (hist @ ar_uncommitted a)"
    using get_replay(2) [OF st(4) assms(6)] st(2) by simp
  with st(3) loaded_as_cleared [OF factory_uncommitted loaded] show ?thesis by simp
qed

text \<open>Optimistic concurrency: a save over an outdated load fails and stores nothing.\<close>

lemma stale_save:
  assumes "inv s" and loaded: "loaded_as (repo_route R) (repo_factory R) hist a"
    and stale: "strict_prefix hist (history s (repo_stream U R (ar_id a)))"
    and new: "ar_uncommitted a \<noteq> []"
  shows "failed (fst (Save U R now a cid (s, b)))"
    and "history (fst (snd (Save U R now a cid (s, b)))) = history s"
    and "snd (snd (Save U R now a cid (s, b))) = b"
proof -
  let ?sid = "repo_stream U R (ar_id a)"
  obtain r t where app: "es_Append (repo_store R) now ?sid (int (length hist)) cid (ar_uncommitted a) s = (r, t)"
    by fastforce
  have "int (length hist) \<noteq> int (length (history s ?sid))"
    using stale by (auto simp: strict_prefix_def prefix_def)
  from append_stale [OF assms(1) new this, of now cid] app obtain e where r: "r = Inl e"
    by (auto simp: failed_def)
  with app have "history t = history s" using append_failed [OF assms(1) new] by blast
  with r app new save_expected_version [OF loaded]
  show "failed (fst (Save U R now a cid (s, b)))"
    and "history (fst (snd (Save U R now a cid (s, b)))) = history s"
    and "snd (snd (Save U R now a cid (s, b))) = b"
    by (simp_all add: Save_append_failed [OF new])
qed

end

locale reliable_repository =
  repository R history inv + reliable_event_store "repo_store R" history inv
  for R :: "('s, 'e, 'b, 'x) EventStoreRepository"
    and history :: "'s \<Rightarrow> string \<Rightarrow> 'e list" and inv :: "'s \<Rightarrow> bool"
begin

lemma get_total:
  assumes "inv s"
  shows "GetByID U R i s =
    (if history s (repo_stream U R i) = [] then Inl ErrAggregateNotFound
     else Inr (replay (repo_route R) (repo_factory R) (history s (repo_stream U R i))))"
proof -
  obtain recs where r: "es_ReadStream (repo_store R) (repo_stream U R i) s = Inr recs"
    using read_total [OF assms, of "repo_stream U R i"] by (metis failed_simps(1) sum.exhaust)
  then have h: "map Event recs = history s (repo_stream U R i)" by (rule read_history [OF assms])
  then have "length recs = 0 \<longleftrightarrow> history s (repo_stream U R i) = []" by (metis length_0_conv map_is_Nil_conv)
  with r h show ?thesis by (simp add: GetByID_def foldl_records)
qed

lemma save_current_append:
  assumes "inv s" and "loaded_as (repo_route R) (repo_factory R) (history s (repo_stream U R (ar_id a))) a"
    and new: "ar_uncommitted a \<noteq> []"
  obtains s' where
    "es_Append (repo_store R) now (repo_stream U R (ar_id a)) (ar_version a - int (length (ar_uncommitted a)))
       cid (ar_uncommitted a) s = (Inr (), s')"
    and "history s' = (history s)(repo_stream U R (ar_id a) := history s (repo_stream U R (ar_id a)) @ ar_uncommitted a)"
    and "inv s'"
proof -
  let ?sid = "repo_stream U R (ar_id a)"
  let ?app = "es_Append (repo_store R) now ?sid (int (length (history s ?sid))) cid (ar_uncommitted a) s"
  have "fst ?app = Inr ()" by (rule append_total [OF assms(1) new]) simp
  then have app: "?app = (Inr (), snd ?app)" by (metis prod.collapse)
  show thesis
  proof (rule that [of "snd ?app"])
    show "es_Append (repo_store R) now ?sid (ar_version a - int (length (ar_uncommitted a)))
        cid (ar_uncommitted a) s = (Inr (), snd ?app)"
      using app save_expected_version [OF assms(2)] by simp
    show "history (snd ?app) = (history s)(?sid := history s ?sid @ ar_uncommitted a)"
      using append_ok [OF assms(1) new app] by simp
    show "inv (snd ?app)" by (rule append_inv [OF assms(1) new])
  qed
qed

lemma stale_save_conflict:
  assumes "inv s" and "loaded_as (repo_route R) (repo_factory R) hist a"
    and stale: "strict_prefix hist (history s (repo_stream U R (ar_id a)))"
    and new: "ar_uncommitted a \<noteq> []"
  shows "fst (Save U R now a cid (s, b)) = Inl ErrConcurrency"
proof -
  let ?sid = "repo_stream U R (ar_id a)"
  have "int (length hist) \<noteq> int (length (history s ?sid))"
    using stale by (auto simp: strict_prefix_def prefix_def)
  then have "fst (es_Append (repo_store R) now ?sid (int (length hist)) cid (ar_uncommitted a) s) = Inl ErrConcurrency"
    by (rule append_conflict [OF assms(1) new])
  then obtain t where "es_Append (repo_store R) now ?sid (int (length hist)) cid (ar_uncommitted a) s = (Inl ErrConcurrency, t)"
    by (metis prod.collapse)
  then show ?thesis using save_expected_version [OF assms(2)] by (simp add: Save_append_failed [OF new])
qed

end

end
