(* ===== verification/Service_Bus.thy ===== *)
theory Service_Bus
  imports Json_Wire Repository
begin

text \<open>
  \<^verbatim>\<open>src/internal/muflone/servicebus.go\<close>, the publishing side. What has been put on the wire is a
  list of topic and payload pairs, oldest first. Watermill's publisher is not part of the
  repository: the parameter \<open>net\<close> says, for everything published so far and the next
  message, whether the publisher refuses it and with which error. Integration events are
  marshalled, since their consumers decode their own structs; commands and domain events
  are decoded into the very type that was marshalled and stay typed here.
\<close>

datatype Message =
    WCommand warehouse_command
  | SCommand sales_command
  | WEvent warehouse_event
  | SEvent sales_event
  | WIntegration warehouse_integration_event
  | SIntegration sales_integration_event

fun MessageName :: "Message \<Rightarrow> string" where
  "MessageName (WCommand c) = warehouse_command_name c"
| "MessageName (SCommand c) = sales_command_name c"
| "MessageName (WEvent e) = warehouse_event_name e"
| "MessageName (SEvent e) = sales_event_name e"
| "MessageName (WIntegration e) = warehouse_integration_name e"
| "MessageName (SIntegration e) = sales_integration_name e"

datatype wire_payload = Typed Message | Raw payload

type_synonym wire = "string \<times> wire_payload"
type_synonym network = "wire list \<Rightarrow> wire \<Rightarrow> go_error option"

fun wire_marshal :: "uuid_pkg \<Rightarrow> Message \<Rightarrow> wire_payload" where
  "wire_marshal U (WIntegration e) = Raw (marshal_warehouse_integration U e)"
| "wire_marshal U (SIntegration e) = Raw (marshal_sales_integration U e)"
| "wire_marshal U m = Typed m"

definition commandTopicPrefix :: string where
  "commandTopicPrefix = ''commands.''"

definition domainEventTopicPrefix :: string where
  "domainEventTopicPrefix = ''events.''"

definition integrationEventTopicPrefix :: string where
  "integrationEventTopicPrefix = ''integrationevents.''"

definition DeadLetterTopic :: string where
  "DeadLetterTopic = ''brewup.dead_letter''"

lemmas topic_defs = commandTopicPrefix_def domainEventTopicPrefix_def integrationEventTopicPrefix_def DeadLetterTopic_def

definition bus_publish :: "uuid_pkg \<Rightarrow> network \<Rightarrow> string \<Rightarrow> Message \<Rightarrow> wire list \<Rightarrow> (wire list, unit) outcome" where
  "bus_publish U net topic msg sent =
     (let w = (topic, wire_marshal U msg) in
      case net sent w of Some e \<Rightarrow> (Inl e, sent) | None \<Rightarrow> (Inr (), sent @ [w]))"

definition Send :: "uuid_pkg \<Rightarrow> network \<Rightarrow> Message \<Rightarrow> wire list \<Rightarrow> (wire list, unit) outcome" where
  "Send U net command sent = bus_publish U net (commandTopicPrefix @ MessageName command) command sent"

definition PublishDomainEvent :: "uuid_pkg \<Rightarrow> network \<Rightarrow> Message \<Rightarrow> wire list \<Rightarrow> (wire list, unit) outcome" where
  "PublishDomainEvent U net event sent = bus_publish U net (domainEventTopicPrefix @ MessageName event) event sent"

definition PublishIntegrationEvent :: "uuid_pkg \<Rightarrow> network \<Rightarrow> Message \<Rightarrow> wire list \<Rightarrow> (wire list, unit) outcome" where
  "PublishIntegrationEvent U net event sent =
     bus_publish U net (integrationEventTopicPrefix @ MessageName event) event sent"

text \<open>The network that accepts everything, and the wire forms of the three kinds of message.\<close>

definition open_net :: network where
  "open_net = (\<lambda>_ _. None)"

definition command_wire :: "Message \<Rightarrow> wire" where
  "command_wire m = (commandTopicPrefix @ MessageName m, Typed m)"

definition event_wire :: "Message \<Rightarrow> wire" where
  "event_wire m = (domainEventTopicPrefix @ MessageName m, Typed m)"

definition integration_wire :: "uuid_pkg \<Rightarrow> Message \<Rightarrow> wire" where
  "integration_wire U m = (integrationEventTopicPrefix @ MessageName m, wire_marshal U m)"

lemma bus_publish_cases:
  "bus_publish U net topic m sent = (Inr (), sent @ [(topic, wire_marshal U m)]) \<or>
   (\<exists>e. net sent (topic, wire_marshal U m) = Some e \<and> bus_publish U net topic m sent = (Inl e, sent))"
  by (auto simp: bus_publish_def Let_def split: option.splits)

lemma Send_open [simp]: "Send U open_net (WCommand c) sent = (Inr (), sent @ [command_wire (WCommand c)])"
  "Send U open_net (SCommand d) sent = (Inr (), sent @ [command_wire (SCommand d)])"
  by (simp_all add: Send_def bus_publish_def open_net_def command_wire_def)

lemma Publish_open [simp]:
  "PublishDomainEvent U open_net (WEvent e) sent = (Inr (), sent @ [event_wire (WEvent e)])"
  "PublishDomainEvent U open_net (SEvent d) sent = (Inr (), sent @ [event_wire (SEvent d)])"
  "PublishIntegrationEvent U open_net m sent = (Inr (), sent @ [integration_wire U m])"
  by (simp_all add: PublishDomainEvent_def PublishIntegrationEvent_def bus_publish_def open_net_def
      event_wire_def integration_wire_def)

lemma for_each_publish_open:
  "for_each (\<lambda>e. PublishDomainEvent U open_net (WEvent e)) es sent = (Inr (), sent @ map (\<lambda>e. event_wire (WEvent e)) es)"
  "for_each (\<lambda>e. PublishDomainEvent U open_net (SEvent e)) fs sent = (Inr (), sent @ map (\<lambda>e. event_wire (SEvent e)) fs)"
proof -
  show "for_each (\<lambda>e. PublishDomainEvent U open_net (WEvent e)) es sent = (Inr (), sent @ map (\<lambda>e. event_wire (WEvent e)) es)"
    by (induction es arbitrary: sent) simp_all
  show "for_each (\<lambda>e. PublishDomainEvent U open_net (SEvent e)) fs sent = (Inr (), sent @ map (\<lambda>e. event_wire (SEvent e)) fs)"
    by (induction fs arbitrary: sent) simp_all
qed

text \<open>Publishing never takes back a message, whatever the network does.\<close>

lemma publish_prefix:
  "prefix sent (snd (bus_publish U net topic m sent))"
  using bus_publish_cases [of U net topic m sent] by (auto simp: prefix_def)

lemma send_prefix [intro]: "prefix sent (snd (Send U net m sent))"
  by (simp add: Send_def publish_prefix)

lemma publish_integration_prefix [intro]: "prefix sent (snd (PublishIntegrationEvent U net m sent))"
  by (simp add: PublishIntegrationEvent_def publish_prefix)

end
