(* ===== verification/Sales_Order.thy ===== *)
theory Sales_Order
  imports Service_Bus
begin

text \<open>
  The write side of the Sales module: the aggregate of
  \<^verbatim>\<open>src/internal/sales/domain/sales_order.go\<close> and the command handlers of
  \<^verbatim>\<open>src/internal/sales/domain/commandhandlers\<close> over the repository wired in
  \<^verbatim>\<open>src/internal/sales/module.go\<close>. The specification of an order's stream is its shape: it
  was created once and settled at most once.
\<close>

section \<open>The aggregate\<close>

definition SalesOrder_StreamName :: string where
  "SalesOrder_StreamName = ''SalesOrder''"

datatype AllocationStatus = AllocationUnset | AllocationPending | AllocationDone | AllocationRejected

definition ErrInvalidSalesOrder :: go_error where
  "ErrInvalidSalesOrder = ErrInvalid ''sales order needs a number, a customer, and an order date''"

definition ErrAllocationConflict :: go_error where
  "ErrAllocationConflict = ErrInvalid ''sales order allocation already settled differently''"

record SalesOrder = "sales_event AggregateRoot" +
  so_salesOrderId :: SalesOrderId
  so_salesOrderNumber :: SalesOrderNumber
  so_orderDate :: OrderDate
  so_customerId :: CustomerId
  so_customerName :: CustomerName
  so_rows :: "SalesOrderRowDto list"
  so_allocation :: AllocationStatus
  so_rejectionReason :: string

definition NewSalesOrder :: SalesOrder where
  "NewSalesOrder =
     \<lparr>ar_id = 0, ar_version = 0, ar_uncommitted = [], so_salesOrderId = 0, so_salesOrderNumber = [], so_orderDate = 0,
      so_customerId = 0, so_customerName = [], so_rows = [], so_allocation = AllocationUnset, so_rejectionReason = []\<rparr>"

fun SalesOrder_Route :: "sales_event \<Rightarrow> SalesOrder \<Rightarrow> SalesOrder" where
  "SalesOrder_Route (SalesOrderCreated _ salesOrderId number orderDate customerId customerName rows) s =
     (SetID salesOrderId s)\<lparr>so_salesOrderId := salesOrderId, so_salesOrderNumber := number, so_orderDate := orderDate,
        so_customerId := customerId, so_customerName := customerName, so_rows := rows, so_allocation := AllocationPending\<rparr>"
| "SalesOrder_Route (SalesOrderAllocated _ _) s = s\<lparr>so_allocation := AllocationDone\<rparr>"
| "SalesOrder_Route (SalesOrderAllocationRejected _ _ reason) s =
     s\<lparr>so_allocation := AllocationRejected, so_rejectionReason := reason\<rparr>"

text \<open>\<^verbatim>\<open>domain.CreateSalesOrder\<close>, next to the command of the same name.\<close>

definition domain_CreateSalesOrder ::
  "SalesOrderId \<Rightarrow> uuid \<Rightarrow> SalesOrderNumber \<Rightarrow> OrderDate \<Rightarrow> CustomerId \<Rightarrow> CustomerName
     \<Rightarrow> SalesOrderRowDto list \<Rightarrow> SalesOrder result" where
  "domain_CreateSalesOrder salesOrderId commitId number orderDate customerId customerName rows =
     (if TrimSpace number = [] \<or> TrimSpace customerName = [] \<or> orderDate = 0 then Inl ErrInvalidSalesOrder
      else Inr (RaiseEvent SalesOrder_Route
        (NewSalesOrderCreated salesOrderId commitId number orderDate customerId customerName rows) NewSalesOrder))"

definition MarkAllocated :: "uuid \<Rightarrow> SalesOrder \<Rightarrow> (bool \<times> SalesOrder) result" where
  "MarkAllocated commitId s =
     (case so_allocation s of
        AllocationDone \<Rightarrow> Inr (False, s)
      | AllocationRejected \<Rightarrow> Inl ErrAllocationConflict
      | _ \<Rightarrow> Inr (True, RaiseEvent SalesOrder_Route (NewSalesOrderAllocated (so_salesOrderId s) commitId) s))"

definition MarkAllocationRejected :: "uuid \<Rightarrow> string \<Rightarrow> SalesOrder \<Rightarrow> (bool \<times> SalesOrder) result" where
  "MarkAllocationRejected commitId reason s =
     (case so_allocation s of
        AllocationRejected \<Rightarrow> Inr (False, s)
      | AllocationDone \<Rightarrow> Inl ErrAllocationConflict
      | _ \<Rightarrow> Inr (True, RaiseEvent SalesOrder_Route (NewSalesOrderAllocationRejected (so_salesOrderId s) commitId reason) s))"

section \<open>The command handlers\<close>

type_synonym ('s, 'b) sales_repository = "('s, sales_event, 'b, unit SalesOrder_ext) EventStoreRepository"

definition sales_repo ::
  "('s, sales_event) EventStore \<Rightarrow> (sales_event \<Rightarrow> 'b \<Rightarrow> ('b, unit) outcome) option \<Rightarrow> ('s, 'b) sales_repository" where
  "sales_repo es pub =
     \<lparr>repo_store = es, repo_factory = NewSalesOrder, repo_streamName = SalesOrder_StreamName,
      repo_publisher = pub, repo_route = SalesOrder_Route\<rparr>"

definition save_unit :: "uuid_pkg \<Rightarrow> ('s, 'b) sales_repository \<Rightarrow> instant \<Rightarrow> SalesOrder \<Rightarrow> uuid \<Rightarrow> 's \<times> 'b
    \<Rightarrow> ('s \<times> 'b, unit) outcome" where
  "save_unit U R now a newid w = (case Save U R now a newid w of (Inl e, w') \<Rightarrow> (Inl e, w') | (Inr _, w') \<Rightarrow> (Inr (), w'))"

definition Handle_CreateSalesOrder ::
  "uuid_pkg \<Rightarrow> ('s, 'b) sales_repository \<Rightarrow> instant \<Rightarrow> uuid \<Rightarrow> CommandBase \<Rightarrow> SalesOrderId \<Rightarrow> SalesOrderNumber \<Rightarrow> OrderDate
     \<Rightarrow> CustomerId \<Rightarrow> CustomerName \<Rightarrow> SalesOrderRowDto list \<Rightarrow> 's \<times> 'b \<Rightarrow> ('s \<times> 'b, unit) outcome" where
  "Handle_CreateSalesOrder U R now newid base salesOrderId number orderDate customerId customerName rows w =
     (case GetByID U R (cmd_AggregateId base) (fst w) of
        Inr _ \<Rightarrow> (Inr (), w)
      | Inl err \<Rightarrow>
          if err \<noteq> ErrAggregateNotFound then (Inl err, w)
          else (case domain_CreateSalesOrder salesOrderId (cmd_CommitId base) number orderDate customerId customerName rows of
                  Inl err \<Rightarrow> (Inl err, w)
                | Inr aggregate \<Rightarrow> save_unit U R now aggregate newid w))"

definition Handle_MarkSalesOrderAllocated ::
  "uuid_pkg \<Rightarrow> ('s, 'b) sales_repository \<Rightarrow> instant \<Rightarrow> uuid \<Rightarrow> CommandBase \<Rightarrow> 's \<times> 'b \<Rightarrow> ('s \<times> 'b, unit) outcome" where
  "Handle_MarkSalesOrderAllocated U R now newid base w =
     (case GetByID U R (cmd_AggregateId base) (fst w) of
        Inl err \<Rightarrow> (Inl err, w)
      | Inr aggregate \<Rightarrow>
          (case MarkAllocated (cmd_CommitId base) aggregate of
             Inl err \<Rightarrow> (Inl err, w)
           | Inr (changed, aggregate') \<Rightarrow> if \<not> changed then (Inr (), w) else save_unit U R now aggregate' newid w))"

definition Handle_MarkSalesOrderAllocationRejected ::
  "uuid_pkg \<Rightarrow> ('s, 'b) sales_repository \<Rightarrow> instant \<Rightarrow> uuid \<Rightarrow> CommandBase \<Rightarrow> string \<Rightarrow> 's \<times> 'b \<Rightarrow> ('s \<times> 'b, unit) outcome" where
  "Handle_MarkSalesOrderAllocationRejected U R now newid base reason w =
     (case GetByID U R (cmd_AggregateId base) (fst w) of
        Inl err \<Rightarrow> (Inl err, w)
      | Inr aggregate \<Rightarrow>
          (case MarkAllocationRejected (cmd_CommitId base) reason aggregate of
             Inl err \<Rightarrow> (Inl err, w)
           | Inr (changed, aggregate') \<Rightarrow> if \<not> changed then (Inr (), w) else save_unit U R now aggregate' newid w))"

fun sales_handle ::
  "uuid_pkg \<Rightarrow> ('s, 'b) sales_repository \<Rightarrow> instant \<Rightarrow> uuid \<Rightarrow> sales_command \<Rightarrow> 's \<times> 'b \<Rightarrow> ('s \<times> 'b, unit) outcome" where
  "sales_handle U R now newid (CreateSalesOrder base i number orderDate customerId customerName rows) w =
     Handle_CreateSalesOrder U R now newid base i number orderDate customerId customerName rows w"
| "sales_handle U R now newid (MarkSalesOrderAllocated base i) w = Handle_MarkSalesOrderAllocated U R now newid base w"
| "sales_handle U R now newid (MarkSalesOrderAllocationRejected base i reason) w =
     Handle_MarkSalesOrderAllocationRejected U R now newid base reason w"

lemmas sales_handler_defs =
  Handle_CreateSalesOrder_def Handle_MarkSalesOrderAllocated_def Handle_MarkSalesOrderAllocationRejected_def

section \<open>The router keeps its contract\<close>

interpretation order: event_sourced SalesOrder_Route
proof
  show "ar_version (SalesOrder_Route e s) = ar_version s" for e s
    by (cases e) (simp_all add: SetID_def)
  show "SalesOrder_Route e (s\<lparr>ar_uncommitted := u\<rparr>) = (SalesOrder_Route e s)\<lparr>ar_uncommitted := u\<rparr>" for e s u
    by (cases e) (simp_all add: SetID_def)
qed

lemma NewSalesOrder_fields [simp]:
  "ar_uncommitted NewSalesOrder = []" "ar_version NewSalesOrder = 0"
  by (simp_all add: NewSalesOrder_def)

definition order_of :: "sales_event list \<Rightarrow> SalesOrder" where
  "order_of hist = replay SalesOrder_Route NewSalesOrder hist"

definition order_stream :: "uuid_pkg \<Rightarrow> SalesOrderId \<Rightarrow> string" where
  "order_stream U i = SalesOrder_StreamName @ ''-'' @ UString U i"

lemma sales_repo_fields [simp]:
  "repo_store (sales_repo es pub) = es"
  "repo_factory (sales_repo es pub) = NewSalesOrder"
  "repo_route (sales_repo es pub) = SalesOrder_Route"
  "repo_publisher (sales_repo es pub) = pub"
  "repo_stream U (sales_repo es pub) i = order_stream U i"
  by (simp_all add: sales_repo_def repo_stream_def order_stream_def)

lemma order_stream_inj: "uuid_ok U \<Longrightarrow> order_stream U i = order_stream U j \<longleftrightarrow> i = j"
  by (simp add: order_stream_def uuid_ok_inj)

lemma order_loaded: "loaded_as SalesOrder_Route NewSalesOrder hist (order_of hist)"
  by (simp add: order_of_def order.loaded_as_fresh)

lemma order_of_uncommitted [simp]: "ar_uncommitted (order_of hist) = []"
  by (simp add: order_of_def order.replay_fields)

section \<open>The decisions of the handlers\<close>

text \<open>The events a command adds to a history, or its error.\<close>

definition order_conflict :: "sales_event list result" where
  "order_conflict = Inl ErrAllocationConflict"

fun sales_decide :: "sales_command \<Rightarrow> sales_event list \<Rightarrow> sales_event list result" where
  "sales_decide (CreateSalesOrder base i number orderDate customerId customerName rows) hist =
     (if hist \<noteq> [] then Inr []
      else if TrimSpace number = [] \<or> TrimSpace customerName = [] \<or> orderDate = 0 then Inl ErrInvalidSalesOrder
      else Inr [NewSalesOrderCreated i (cmd_CommitId base) number orderDate customerId customerName rows])"
| "sales_decide (MarkSalesOrderAllocated base i) hist =
     (if hist = [] then Inl ErrAggregateNotFound
      else case so_allocation (order_of hist) of
        AllocationDone \<Rightarrow> Inr [] | AllocationRejected \<Rightarrow> order_conflict
      | _ \<Rightarrow> Inr [NewSalesOrderAllocated (so_salesOrderId (order_of hist)) (cmd_CommitId base)])"
| "sales_decide (MarkSalesOrderAllocationRejected base i reason) hist =
     (if hist = [] then Inl ErrAggregateNotFound
      else case so_allocation (order_of hist) of
        AllocationRejected \<Rightarrow> Inr [] | AllocationDone \<Rightarrow> order_conflict
      | _ \<Rightarrow> Inr [NewSalesOrderAllocationRejected (so_salesOrderId (order_of hist)) (cmd_CommitId base) reason])"

text \<open>Commands come from their constructors, which set the aggregate identifier to the order's.\<close>

definition sales_command_ok :: "sales_command \<Rightarrow> bool" where
  "sales_command_ok c \<longleftrightarrow> cmd_AggregateId (sc_base c) = sc_SalesOrderId c"

text \<open>The shape of an order's stream: created once, then settled at most once.\<close>

fun order_shape :: "SalesOrderId \<Rightarrow> sales_event list \<Rightarrow> bool" where
  "order_shape i [] = True"
| "order_shape i [SalesOrderCreated b j _ _ _ _ _] = (i = j \<and> ev_AggregateId b = i)"
| "order_shape i [SalesOrderCreated b j _ _ _ _ _, SalesOrderAllocated b' k] = (i = j \<and> i = k \<and> ev_AggregateId b = i \<and> ev_AggregateId b' = i)"
| "order_shape i [SalesOrderCreated b j _ _ _ _ _, SalesOrderAllocationRejected b' k _] =
     (i = j \<and> i = k \<and> ev_AggregateId b = i \<and> ev_AggregateId b' = i)"
| "order_shape i _ = False"

lemma order_shape_cases:
  assumes "order_shape i hist" and "hist \<noteq> []"
  obtains (pending) b n d ci cn rs where "hist = [SalesOrderCreated b i n d ci cn rs]" "ev_AggregateId b = i"
  | (allocated) b n d ci cn rs b' where "hist = [SalesOrderCreated b i n d ci cn rs, SalesOrderAllocated b' i]"
      "ev_AggregateId b = i" "ev_AggregateId b' = i"
  | (rejected) b n d ci cn rs b' r where "hist = [SalesOrderCreated b i n d ci cn rs, SalesOrderAllocationRejected b' i r]"
      "ev_AggregateId b = i" "ev_AggregateId b' = i"
  using assms by (cases "(i, hist)" rule: order_shape.cases) auto

lemma order_of_simps [simp]:
  "so_allocation (order_of [SalesOrderCreated b i n d ci cn rs]) = AllocationPending"
  "so_allocation (order_of [SalesOrderCreated b i n d ci cn rs, SalesOrderAllocated b' j]) = AllocationDone"
  "so_allocation (order_of [SalesOrderCreated b i n d ci cn rs, SalesOrderAllocationRejected b' j r]) = AllocationRejected"
  "so_salesOrderId (order_of [SalesOrderCreated b i n d ci cn rs]) = i"
  "ar_id (order_of [SalesOrderCreated b i n d ci cn rs]) = i"
  by (simp_all add: order_of_def ApplyEvent_def Let_def SetID_def)

lemma sales_decide_shape:
  assumes "order_shape (sc_SalesOrderId c) hist" and "sales_decide c hist = Inr evs"
  shows "order_shape (sc_SalesOrderId c) (hist @ evs)"
proof (cases "hist = []")
  case True
  with assms(2) show ?thesis by (cases c) (auto simp: msg_defs split: if_splits)
next
  case False
  from assms(1) False show ?thesis
    by (cases rule: order_shape_cases)
      (use assms(2) in \<open>cases c; auto simp: msg_defs order_conflict_def split: if_splits\<close>)+
qed

section \<open>Every handler implements its decision\<close>

definition orders_ok :: "uuid_pkg \<Rightarrow> (string \<Rightarrow> sales_event list) \<Rightarrow> bool" where
  "orders_ok U h \<longleftrightarrow> (\<forall>i. order_shape i (h (order_stream U i))) \<and> 
     (\<forall>sid. h sid \<noteq> [] \<longrightarrow> prefix (SalesOrder_StreamName @ ''-'') sid \<longrightarrow> sid \<in> range (order_stream U))"

lemma orders_okD: "orders_ok U h \<Longrightarrow> order_shape i (h (order_stream U i))"
  by (simp add: orders_ok_def)

lemma orders_ok_range:
  "orders_ok U h \<Longrightarrow> h sid \<noteq> [] \<Longrightarrow> prefix (SalesOrder_StreamName @ ''-'') sid \<Longrightarrow> sid \<in> range (order_stream U)"
  by (simp add: orders_ok_def)

lemma orders_ok_upd:
  "uuid_ok U \<Longrightarrow> orders_ok U h \<Longrightarrow> order_shape i hist \<Longrightarrow> orders_ok U (h(order_stream U i := hist))"
  by (simp add: orders_ok_def order_stream_inj)

text \<open>The aggregate a handler saves: the loaded one with the decided events raised.\<close>

lemma decided_aggregate:
  assumes "order_shape i hist" and "sales_decide c hist = Inr [e]" and "sc_SalesOrderId c = i"
  shows "ar_uncommitted (RaiseEvent SalesOrder_Route e (order_of hist)) = [e]"
    and "ar_id (RaiseEvent SalesOrder_Route e (order_of hist)) = i"
proof -
  show "ar_uncommitted (RaiseEvent SalesOrder_Route e (order_of hist)) = [e]"
    by (simp add: order.raise_fields)
  show "ar_id (RaiseEvent SalesOrder_Route e (order_of hist)) = i"
  proof (cases "hist = []")
    case True
    with assms(2,3) show ?thesis
      by (cases c) (auto simp: msg_defs RaiseEvent_def ApplyEvent_def Let_def SetID_def split: if_splits)
  next
    case False
    from assms(1) False show ?thesis
      by (cases rule: order_shape_cases)
        (use assms(2) in \<open>cases c; auto simp: msg_defs RaiseEvent_def ApplyEvent_def Let_def order_conflict_def split: if_splits\<close>)+
  qed
qed

locale sales_handlers =
  repository "sales_repo es pub" history inv
  for es :: "('s, sales_event) EventStore"
    and pub :: "(sales_event \<Rightarrow> 'b \<Rightarrow> ('b, unit) outcome) option"
    and history :: "'s \<Rightarrow> string \<Rightarrow> sales_event list" and inv :: "'s \<Rightarrow> bool"
begin

lemma handle_cases:
  assumes "inv s" and "sales_command_ok c"
    and run: "sales_handle U (sales_repo es pub) now newid c (s, b) = (r, (s', b'))"
  shows "(s' = s \<and> b' = b) \<or>
    (\<exists>e. sales_decide c (history s (order_stream U (sc_SalesOrderId c))) = Inr [e] \<and>
       save_unit U (sales_repo es pub) now (RaiseEvent SalesOrder_Route e
         (order_of (history s (order_stream U (sc_SalesOrderId c))))) newid (s, b) = (r, (s', b')))"
proof -
  let ?R = "sales_repo es pub" and ?i = "sc_SalesOrderId c"
  let ?h = "history s (order_stream U ?i)"
  have i: "cmd_AggregateId (sc_base c) = ?i" using assms(2) by (simp add: sales_command_ok_def)
  show ?thesis
  proof (cases "GetByID U ?R ?i s")
    case (Inr x)
    from get_replay [OF assms(1) this] have h: "?h \<noteq> []" and x: "x = order_of ?h" by (simp_all add: order_of_def)
    show ?thesis
      using run i Inr h x
      by (cases c; cases "so_allocation (order_of ?h)")
        (auto simp: sales_handler_defs MarkAllocated_def MarkAllocationRejected_def)
  next
    case (Inl err)
    have "?h = []" if "err = ErrAggregateNotFound" using get_not_found [OF assms(1)] Inl that by fastforce
    with run i Inl show ?thesis
      by (cases c) (auto simp: sales_handler_defs domain_CreateSalesOrder_def order_of_def split: if_splits)
  qed
qed

text \<open>
  Whatever the store and the publisher do, a command leaves every history as it was or
  appends exactly the event it decided on to its order's stream.
\<close>

lemma handle_effect:
  assumes "uuid_ok U" and "inv s" and "orders_ok U (history s)" and "sales_command_ok c"
    and run: "sales_handle U (sales_repo es pub) now newid c (s, b) = (r, (s', b'))"
  shows "inv s' \<and> orders_ok U (history s')"
  using handle_cases [OF assms(2,4) run]
proof (elim disjE exE conjE)
  assume "s' = s"
  with assms show ?thesis by simp
next
  fix e
  let ?i = "sc_SalesOrderId c"
  let ?h = "history s (order_stream U ?i)" and ?a = "RaiseEvent SalesOrder_Route e (order_of (history s (order_stream U ?i)))"
  assume dec: "sales_decide c ?h = Inr [e]"
    and sv: "save_unit U (sales_repo es pub) now ?a newid (s, b) = (r, (s', b'))"
  note a = decided_aggregate [OF orders_okD [OF assms(3)] dec refl]
  have l: "loaded_as SalesOrder_Route NewSalesOrder ?h ?a" by (intro order.loaded_as_raise order_loaded)
  obtain q t where app: "es_Append es now (order_stream U ?i) (int (length ?h)) newid [e] s = (q, t)" by fastforce
  have ev: "ar_version ?a - 1 = int (length ?h)" using save_expected_version [of ?h ?a] l a(1) by simp
  have "fst (snd (save_unit U (sales_repo es pub) now ?a newid (s, b))) = t"
    using Save_store [of ?a U "sales_repo es pub" now newid s b] app a ev
    by (auto simp: save_unit_def split: prod.splits sum.splits)
  then have s': "s' = t" by (simp add: sv)
  have "inv t" using append_inv [OF assms(2), of "[e]" now "order_stream U ?i" "int (length ?h)" newid] app by simp
  moreover have "history t = history s \<or> history t = (history s)(order_stream U ?i := ?h @ [e])"
    using append_ok [OF assms(2), of "[e]"] append_failed [OF assms(2), of "[e]"] app by (cases q) auto
  moreover have "order_shape ?i (?h @ [e])" by (rule sales_decide_shape [OF orders_okD [OF assms(3)] dec])
  ultimately show ?thesis
    using orders_ok_upd [OF assms(1,3)] assms(3) s' by metis
qed

end

locale reliable_sales_handlers =
  sales_handlers es pub history inv + reliable_repository "sales_repo es pub" history inv
  for es :: "('s, sales_event) EventStore"
    and pub :: "(sales_event \<Rightarrow> 'b \<Rightarrow> ('b, unit) outcome) option"
    and history :: "'s \<Rightarrow> string \<Rightarrow> sales_event list" and inv :: "'s \<Rightarrow> bool"
begin

lemma handle_exact:
  assumes "inv s" and "orders_ok U (history s)" and "sales_command_ok c"
  defines "h \<equiv> history s (order_stream U (sc_SalesOrderId c))"
  shows "case sales_decide c h of
      Inl e \<Rightarrow> sales_handle U (sales_repo es pub) now newid c (s, b) = (Inl e, (s, b))
    | Inr [] \<Rightarrow> sales_handle U (sales_repo es pub) now newid c (s, b) = (Inr (), (s, b))
    | Inr evs \<Rightarrow> history (fst (snd (sales_handle U (sales_repo es pub) now newid c (s, b)))) =
        (history s)(order_stream U (sc_SalesOrderId c) := h @ evs)"
proof -
  let ?R = "sales_repo es pub" and ?i = "sc_SalesOrderId c"
  have i: "cmd_AggregateId (sc_base c) = ?i" using assms(3) by (simp add: sales_command_ok_def)
  have get: "GetByID U ?R ?i s = (if h = [] then Inl ErrAggregateNotFound else Inr (order_of h))"
    using get_total [OF assms(1), of U ?i] by (simp add: order_of_def h_def)
  show ?thesis
  proof (cases "\<exists>e. sales_decide c h = Inr [e]")
    case False
    with get i show ?thesis
      by (cases c; cases "so_allocation (order_of h)")
        (auto simp: sales_handler_defs domain_CreateSalesOrder_def MarkAllocated_def MarkAllocationRejected_def
          order_conflict_def)
  next
    case True
    then obtain e where e: "sales_decide c h = Inr [e]" by blast
    let ?a = "RaiseEvent SalesOrder_Route e (order_of h)"
    have run: "sales_handle U ?R now newid c (s, b) = save_unit U ?R now ?a newid (s, b)"
      using e get i by (cases c; cases "so_allocation (order_of h)")
        (auto simp: sales_handler_defs domain_CreateSalesOrder_def MarkAllocated_def MarkAllocationRejected_def
          order_conflict_def order_of_def split: if_splits)
    have shape: "order_shape ?i h" using orders_okD [OF assms(2)] by (simp add: h_def)
    note a = decided_aggregate [OF shape e refl]
    have l: "loaded_as SalesOrder_Route NewSalesOrder h ?a" by (intro order.loaded_as_raise order_loaded)
    obtain s' where "es_Append es now (order_stream U ?i) (ar_version ?a - int (length (ar_uncommitted ?a))) newid (ar_uncommitted ?a) s
        = (Inr (), s')"
      and h': "history s' = (history s)(order_stream U ?i := h @ ar_uncommitted ?a)"
      using save_current_append [OF assms(1), of U ?a now newid] a l unfolding h_def by auto
    then have "fst (snd (save_unit U ?R now ?a newid (s, b))) = s'"
      using Save_store [of ?a U ?R now newid s b] a by (auto simp: save_unit_def split: prod.splits sum.splits)
    with e h' a show ?thesis by (simp add: run)
  qed
qed

end

lemma sales_repository: "event_store es h i \<Longrightarrow> repository (sales_repo es pub) h i"
  by (intro repository.intro repository_axioms.intro) (simp_all add: order.event_sourced_axioms)

lemma sales_handlers_reliable:
  assumes "reliable_event_store es h i"
  shows "reliable_sales_handlers es pub h i"
proof -
  have "event_store es h i" using assms by (simp add: reliable_event_store_def)
  with assms show ?thesis
    by (simp add: reliable_sales_handlers_def sales_handlers_def reliable_repository_def sales_repository)
qed

interpretation mem_sales: reliable_sales_handlers in_memory_store pub mem_history store_wf for pub
  by (rule sales_handlers_reliable) (rule mem.reliable_event_store_axioms)

section \<open>Orders through any sequence of commands\<close>

text \<open>The Sales commands executed so far, in any order and with any repetitions.\<close>

inductive sales_reach :: "uuid_pkg \<Rightarrow> sales_event InMemoryEventStore \<times> 'b \<Rightarrow> bool" for U where
  boot: "sales_reach U (NewInMemoryEventStore, b)"
| handle: "sales_reach U w \<Longrightarrow> sales_command_ok c \<Longrightarrow>
    sales_reach U (snd (sales_handle U (sales_repo in_memory_store pub) now newid c w))"

lemma sales_reach_inv:
  assumes "sales_reach U w" and "uuid_ok U"
  shows "store_wf (fst w) \<and> orders_ok U (mem_history (fst w))"
  using assms(1)
proof (induction rule: sales_reach.induct)
  case (boot b)
  show ?case
    by (simp add: store_wf_New orders_ok_def mem_history_def stream_of_def NewInMemoryEventStore_def)
      (simp add: store_wf_def)
next
  case (handle w c pub now newid)
  then show ?case using mem_sales.handle_effect [OF assms(2)] by (metis prod.collapse)
qed

text \<open>
  C19. Whatever Sales commands are executed, in any order and however often, the stream of an
  order is empty, or begins with the order's creation, followed by at most one settlement,
  all about that order.
\<close>

theorem order_created_and_settled_once:
  assumes "uuid_ok U" and "sales_reach U (s, b)"
  shows "order_shape i (mem_history s (order_stream U i))"
  using sales_reach_inv [OF assms(2,1)] by (simp add: orders_ok_def)

definition demo_create :: sales_command where
  "demo_create = NewCreateSalesOrder 1 2 ''2026-001'' 1000 7 ''Muflone''
     [\<lparr>so_BeerId = 5, so_BeerName = ''IPA'', so_Quantity = NewQuantity 30 ''Lt'', so_Price = NewPrice 0 ''EUR''\<rparr>]"

definition demo_sold :: "sales_event InMemoryEventStore \<times> wire list" where
  "demo_sold = snd (sales_handle hex_uuid (sales_repo in_memory_store None) 11 4 (NewMarkSalesOrderAllocated 1 9)
     (snd (sales_handle hex_uuid (sales_repo in_memory_store None) 10 3 demo_create (NewInMemoryEventStore, []))))"

lemma demo_sold_reach: "sales_reach hex_uuid (fst demo_sold, snd demo_sold)"
  unfolding prod.collapse demo_sold_def
  by (intro sales_reach.handle sales_reach.boot) (simp_all add: sales_command_ok_def demo_create_def msg_defs)

theorem order_created_and_settled_once_witness:
  "order_shape 1 (mem_history (fst demo_sold) (order_stream hex_uuid 1)) \<and>
   length (mem_history (fst demo_sold) (order_stream hex_uuid 1)) = 2"
  using order_created_and_settled_once [OF hex_uuid_ok demo_sold_reach, of 1]
  by (rule conjI) code_simp

text \<open>
  A settled order is final: settling it again the same way, or creating it again, is
  accepted and changes nothing, and settling it the other way is refused with
  \<open>ErrAllocationConflict\<close> and changes nothing.
\<close>

theorem settled_order_final:
  assumes "uuid_ok U" and "sales_reach U (s, b)"
    and "so_allocation (order_of (mem_history s (order_stream U i))) = st" and "st \<in> {AllocationDone, AllocationRejected}"
  shows "sales_handle U (sales_repo in_memory_store pub) now newid (NewMarkSalesOrderAllocated i c) (s, b) =
      (if st = AllocationDone then Inr () else Inl ErrAllocationConflict, (s, b)) \<and>
    sales_handle U (sales_repo in_memory_store pub) now newid (NewMarkSalesOrderAllocationRejected i c r) (s, b) =
      (if st = AllocationRejected then Inr () else Inl ErrAllocationConflict, (s, b)) \<and>
    sales_handle U (sales_repo in_memory_store pub) now newid (NewCreateSalesOrder i c n d ci cn rows) (s, b) = (Inr (), (s, b))"
proof -
  let ?h = "mem_history s (order_stream U i)"
  have inv: "store_wf s" "orders_ok U (mem_history s)" using sales_reach_inv [OF assms(2,1)] by simp_all
  have "?h \<noteq> []"
  proof
    assume "?h = []"
    then show False using assms(3,4) by (auto simp: order_of_def NewSalesOrder_def)
  qed
  then show ?thesis
    using assms(3,4) mem_sales.handle_exact [OF inv, of "NewMarkSalesOrderAllocated i c" pub now newid b]
      mem_sales.handle_exact [OF inv, of "NewMarkSalesOrderAllocationRejected i c r" pub now newid b]
      mem_sales.handle_exact [OF inv, of "NewCreateSalesOrder i c n d ci cn rows" pub now newid b]
    by (auto simp: sales_command_ok_def msg_defs order_conflict_def)
qed

theorem settled_order_final_witness:
  "sales_handle hex_uuid (sales_repo in_memory_store None) 20 21 (NewMarkSalesOrderAllocated 1 22) (fst demo_sold, snd demo_sold) =
      (if AllocationDone = AllocationDone then Inr () else Inl ErrAllocationConflict, (fst demo_sold, snd demo_sold)) \<and>
    sales_handle hex_uuid (sales_repo in_memory_store None) 20 21 (NewMarkSalesOrderAllocationRejected 1 22 ''late'')
      (fst demo_sold, snd demo_sold) =
      (if AllocationDone = AllocationRejected then Inr () else Inl ErrAllocationConflict, (fst demo_sold, snd demo_sold)) \<and>
    sales_handle hex_uuid (sales_repo in_memory_store None) 20 21 (NewCreateSalesOrder 1 22 [] 0 7 [] [])
      (fst demo_sold, snd demo_sold) = (Inr (), (fst demo_sold, snd demo_sold))"
proof (rule settled_order_final [OF hex_uuid_ok demo_sold_reach])
  show "so_allocation (order_of (mem_history (fst demo_sold) (order_stream hex_uuid 1))) = AllocationDone" by code_simp
qed simp

text \<open>
  C20. What the handlers store and return on every branch: they implement the decision
  function \<open>sales_decide\<close> exactly. A refused command returns its error and changes nothing, a
  repeated one succeeds and changes nothing, an accepted one appends the decided event to
  the order's stream and touches no other.
\<close>

theorem sales_handlers_decide:
  assumes "uuid_ok U" and "sales_reach U (s, b)" and "sales_command_ok c"
  shows "case sales_decide c (mem_history s (order_stream U (sc_SalesOrderId c))) of
      Inl e \<Rightarrow> sales_handle U (sales_repo in_memory_store pub) now newid c (s, b) = (Inl e, (s, b))
    | Inr [] \<Rightarrow> sales_handle U (sales_repo in_memory_store pub) now newid c (s, b) = (Inr (), (s, b))
    | Inr evs \<Rightarrow> mem_history (fst (snd (sales_handle U (sales_repo in_memory_store pub) now newid c (s, b)))) =
        (mem_history s)(order_stream U (sc_SalesOrderId c) := mem_history s (order_stream U (sc_SalesOrderId c)) @ evs)"
  by (rule mem_sales.handle_exact [OF _ _ assms(3)]) (use sales_reach_inv [OF assms(2,1)] in simp_all)

theorem sales_handlers_decide_witness:
  "mem_history (fst (snd (sales_handle hex_uuid (sales_repo in_memory_store None) 10 3 demo_create (NewInMemoryEventStore, [] :: wire list)))) =
     (mem_history NewInMemoryEventStore)(order_stream hex_uuid 1 :=
       [NewSalesOrderCreated 1 2 ''2026-001'' 1000 7 ''Muflone''
         [\<lparr>so_BeerId = 5, so_BeerName = ''IPA'', so_Quantity = NewQuantity 30 ''Lt'', so_Price = NewPrice 0 ''EUR''\<rparr>]])"
proof -
  have h: "mem_history (NewInMemoryEventStore :: sales_event InMemoryEventStore) (order_stream hex_uuid 1) = []"
    by (simp add: mem_history_def stream_of_def NewInMemoryEventStore_def)
  have "sc_SalesOrderId demo_create = 1" "sales_command_ok demo_create"
    by (simp_all add: demo_create_def msg_defs sales_command_ok_def)
  moreover have "sales_decide demo_create [] = Inr [NewSalesOrderCreated 1 2 ''2026-001'' 1000 7 ''Muflone''
         [\<lparr>so_BeerId = 5, so_BeerName = ''IPA'', so_Quantity = NewQuantity 30 ''Lt'', so_Price = NewPrice 0 ''EUR''\<rparr>]]"
    by code_simp
  ultimately show ?thesis
    using sales_handlers_decide [OF hex_uuid_ok sales_reach.boot [of hex_uuid "[] :: wire list"], of demo_create None 10 3] h by simp
qed

end
