(* ===== verification/Sales_Read_Model.thy ===== *)
theory Sales_Read_Model
  imports Sales_Order
begin

text \<open>
  The read side of the Sales module: the DTOs of \<^verbatim>\<open>src/internal/sales/readmodel/dtos\<close>, the
  in-memory service of \<^verbatim>\<open>readmodel/services/sales_order_service.go\<close>, the projections of
  \<^verbatim>\<open>readmodel/eventhandlers\<close> and \<^verbatim>\<open>src/internal/sales/rebuild.go\<close>. Events reach the projections
  in any order and more than once; what they build is determined by the stored histories.
\<close>

section \<open>The service\<close>

record SalesOrderRow =
  dr_BeerId :: string
  dr_BeerName :: string
  dr_Quantity :: Quantity
  dr_Price :: Price

record SalesOrderDto =
  d_Id :: string
  d_SalesOrderNumber :: string
  d_OrderDate :: instant
  d_CustomerId :: string
  d_CustomerName :: string
  d_Rows :: "SalesOrderRow list"
  d_AllocationStatus :: string
  d_RejectionReason :: string

definition zero_SalesOrderDto :: SalesOrderDto where
  "zero_SalesOrderDto = \<lparr>d_Id = [], d_SalesOrderNumber = [], d_OrderDate = 0, d_CustomerId = [], d_CustomerName = [],
     d_Rows = [], d_AllocationStatus = [], d_RejectionReason = []\<rparr>"

record SalesOrderService =
  sv_orders :: "string \<rightharpoonup> SalesOrderDto"
  sv_order :: "string list"

definition NewSalesOrderService :: SalesOrderService where
  "NewSalesOrderService = \<lparr>sv_orders = Map.empty, sv_order = []\<rparr>"

text \<open>\<^verbatim>\<open>SalesOrderService.CreateSalesOrder\<close>: the upsert of a created order.\<close>

definition service_CreateSalesOrder :: "SalesOrderDto \<Rightarrow> SalesOrderService \<Rightarrow> (SalesOrderService, unit) outcome" where
  "service_CreateSalesOrder order s =
     (let existing = sv_orders s (d_Id order);
          s1 = (if existing = None then s\<lparr>sv_order := sv_order s @ [d_Id order]\<rparr> else s);
          order1 = (if d_AllocationStatus order = [] then order\<lparr>d_AllocationStatus := ''pending''\<rparr> else order);
          order2 = (case existing of
             Some ex \<Rightarrow>
               if d_AllocationStatus ex \<noteq> [] \<and> d_AllocationStatus ex \<noteq> ''pending''
               then order1\<lparr>d_AllocationStatus := d_AllocationStatus ex, d_RejectionReason := d_RejectionReason ex\<rparr>
               else order1
           | None \<Rightarrow> order1)
      in (Inr (), s1\<lparr>sv_orders := (sv_orders s1)(d_Id order \<mapsto> order2)\<rparr>))"

definition UpdateAllocationStatus ::
  "string \<Rightarrow> string \<Rightarrow> string \<Rightarrow> SalesOrderService \<Rightarrow> (SalesOrderService, unit) outcome" where
  "UpdateAllocationStatus salesOrderId status reason s =
     (let (order, s1) = (case sv_orders s salesOrderId of
            Some ex \<Rightarrow> (ex, s)
          | None \<Rightarrow> (zero_SalesOrderDto\<lparr>d_Id := salesOrderId\<rparr>, s\<lparr>sv_order := sv_order s @ [salesOrderId]\<rparr>));
          order1 = order\<lparr>d_AllocationStatus := status, d_RejectionReason := reason\<rparr>
      in (Inr (), s1\<lparr>sv_orders := (sv_orders s1)(salesOrderId \<mapsto> order1)\<rparr>))"

definition GetSalesOrder :: "string \<Rightarrow> SalesOrderService \<Rightarrow> SalesOrderDto result" where
  "GetSalesOrder i s = (case sv_orders s i of None \<Rightarrow> Inl ErrNotFound | Some order \<Rightarrow> Inr order)"

definition GetSalesOrders :: "Page \<Rightarrow> SalesOrderService \<Rightarrow> SalesOrderDto list" where
  "GetSalesOrders page s =
     page_slice page (map (\<lambda>i. case sv_orders s i of None \<Rightarrow> zero_SalesOrderDto | Some order \<Rightarrow> order) (sv_order s))"

section \<open>The projections\<close>

definition row_dto :: "uuid_pkg \<Rightarrow> SalesOrderRowDto \<Rightarrow> SalesOrderRow" where
  "row_dto U row = \<lparr>dr_BeerId = UString U (so_BeerId row), dr_BeerName = so_BeerName row,
     dr_Quantity = so_Quantity row, dr_Price = so_Price row\<rparr>"

definition OnSalesOrderCreated_projection ::
  "uuid_pkg \<Rightarrow> SalesOrderId \<Rightarrow> SalesOrderNumber \<Rightarrow> OrderDate \<Rightarrow> CustomerId \<Rightarrow> CustomerName \<Rightarrow> SalesOrderRowDto list
     \<Rightarrow> SalesOrderService \<Rightarrow> (SalesOrderService, unit) outcome" where
  "OnSalesOrderCreated_projection U salesOrderId number orderDate customerId customerName rows s =
     service_CreateSalesOrder \<lparr>d_Id = UString U salesOrderId, d_SalesOrderNumber = number, d_OrderDate = orderDate,
       d_CustomerId = UString U customerId, d_CustomerName = customerName, d_Rows = map (row_dto U) rows,
       d_AllocationStatus = [], d_RejectionReason = []\<rparr> s"

fun project_sales :: "uuid_pkg \<Rightarrow> sales_event \<Rightarrow> SalesOrderService \<Rightarrow> (SalesOrderService, unit) outcome" where
  "project_sales U (SalesOrderCreated _ i n d ci cn rows) s = OnSalesOrderCreated_projection U i n d ci cn rows s"
| "project_sales U (SalesOrderAllocated _ i) s = UpdateAllocationStatus (UString U i) ''allocated'' [] s"
| "project_sales U (SalesOrderAllocationRejected _ i reason) s = UpdateAllocationStatus (UString U i) ''rejected'' reason s"

text \<open>
  The loop body of \<^verbatim>\<open>RebuildReadModel\<close>, and the rebuild over any store that lists its streams
  and any read model: \<open>project\<close> is the type switch on the adapter's projections.
\<close>

definition rebuild_stream ::
  "(sales_event \<Rightarrow> 'v \<Rightarrow> ('v, unit) outcome) \<Rightarrow> ('s, sales_event) EventStore \<Rightarrow> 's \<Rightarrow> string \<Rightarrow> 'v \<Rightarrow> ('v, unit) outcome" where
  "rebuild_stream project es st streamID v =
     (case es_ReadStream es streamID st of
        Inl err \<Rightarrow> (Inl err, v)
      | Inr stored \<Rightarrow> for_each (\<lambda>record. project (Event record)) stored v)"

definition sales_RebuildReadModel ::
  "(sales_event \<Rightarrow> 'v \<Rightarrow> ('v, unit) outcome) \<Rightarrow> ('s, sales_event) EventStore \<Rightarrow> (string \<Rightarrow> 's \<Rightarrow> string list result) \<Rightarrow> 's
     \<Rightarrow> 'v \<Rightarrow> ('v, unit) outcome" where
  "sales_RebuildReadModel project es lister st v =
     (case lister SalesOrder_StreamName st of
        Inl err \<Rightarrow> (Inl err, v)
      | Inr ids \<Rightarrow> for_each (rebuild_stream project es st) ids v)"

section \<open>What the projections build\<close>

text \<open>The view of an aggregate.\<close>

definition status_text :: "AllocationStatus \<Rightarrow> string" where
  "status_text st = (case st of AllocationUnset \<Rightarrow> [] | AllocationPending \<Rightarrow> ''pending''
     | AllocationDone \<Rightarrow> ''allocated'' | AllocationRejected \<Rightarrow> ''rejected'')"

definition dto_of_order :: "uuid_pkg \<Rightarrow> SalesOrder \<Rightarrow> SalesOrderDto" where
  "dto_of_order U a =
     \<lparr>d_Id = UString U (so_salesOrderId a), d_SalesOrderNumber = so_salesOrderNumber a, d_OrderDate = so_orderDate a,
      d_CustomerId = UString U (so_customerId a), d_CustomerName = so_customerName a, d_Rows = map (row_dto U) (so_rows a),
      d_AllocationStatus = status_text (so_allocation a), d_RejectionReason = so_rejectionReason a\<rparr>"

text \<open>
  What the projections of a set of events of an order amount to: the data of its creation
  when that was among them, and the latest status known.
\<close>

definition is_created :: "sales_event \<Rightarrow> bool" where
  "is_created e \<longleftrightarrow> (case e of SalesOrderCreated _ _ _ _ _ _ _ \<Rightarrow> True | _ \<Rightarrow> False)"

definition seen_dto :: "uuid_pkg \<Rightarrow> SalesOrderId \<Rightarrow> sales_event list \<Rightarrow> sales_event set \<Rightarrow> SalesOrderDto option" where
  "seen_dto U i hist seen =
     (if seen \<inter> set hist = {} then None
      else
        let full = dto_of_order U (order_of hist);
            base = (if \<exists>e \<in> seen \<inter> set hist. is_created e then full\<lparr>d_AllocationStatus := ''pending'', d_RejectionReason := []\<rparr>
                    else zero_SalesOrderDto\<lparr>d_Id := UString U i\<rparr>)
        in Some (if \<exists>e \<in> seen \<inter> set hist. \<not> is_created e
                 then base\<lparr>d_AllocationStatus := d_AllocationStatus full, d_RejectionReason := d_RejectionReason full\<rparr> else base))"

definition project_all :: "uuid_pkg \<Rightarrow> sales_event list \<Rightarrow> SalesOrderService \<Rightarrow> (SalesOrderService, unit) outcome" where
  "project_all U = for_each (project_sales U)"

lemma project_sales_ok: "fst (project_sales U e s) = Inr ()"
  by (cases e) (simp_all add: OnSalesOrderCreated_projection_def service_CreateSalesOrder_def UpdateAllocationStatus_def
      Let_def split: option.splits prod.splits)

lemma project_all_snoc: "snd (project_all U (es @ [e]) s) = snd (project_sales U e (snd (project_all U es s)))"
proof -
  have "fst (project_all U es s) = Inr ()"
    unfolding project_all_def
  proof (induction es arbitrary: s)
    case (Cons x xs)
    have "project_sales U x s = (Inr (), snd (project_sales U x s))" using project_sales_ok [of U x s] by (metis prod.collapse)
    with Cons show ?case by (metis (no_types, lifting) case_prod_conv for_each.simps(2) sum.case(2))
  qed simp
  then show ?thesis
    unfolding project_all_def for_each_append
    using project_sales_ok [of U e "snd (for_each (project_sales U) es s)"]
    by (auto split: prod.splits sum.splits)
qed

lemma project_other:
  "uuid_ok U \<Longrightarrow> se_SalesOrderId e \<noteq> i \<Longrightarrow> sv_orders (snd (project_sales U e s)) (UString U i) = sv_orders s (UString U i)"
  by (cases e) (auto simp: OnSalesOrderCreated_projection_def service_CreateSalesOrder_def UpdateAllocationStatus_def
      Let_def uuid_ok_inj split: option.splits prod.splits)

lemmas projection_defs = OnSalesOrderCreated_projection_def service_CreateSalesOrder_def UpdateAllocationStatus_def Let_def

lemma dto_of_pending:
  "dto_of_order U (order_of [SalesOrderCreated b i n d ci cn rs]) =
     \<lparr>d_Id = UString U i, d_SalesOrderNumber = n, d_OrderDate = d, d_CustomerId = UString U ci, d_CustomerName = cn,
      d_Rows = map (row_dto U) rs, d_AllocationStatus = ''pending'', d_RejectionReason = []\<rparr>"
  "dto_of_order U (order_of [SalesOrderCreated b i n d ci cn rs, SalesOrderAllocated b' j]) =
     \<lparr>d_Id = UString U i, d_SalesOrderNumber = n, d_OrderDate = d, d_CustomerId = UString U ci, d_CustomerName = cn,
      d_Rows = map (row_dto U) rs, d_AllocationStatus = ''allocated'', d_RejectionReason = []\<rparr>"
  "dto_of_order U (order_of [SalesOrderCreated b i n d ci cn rs, SalesOrderAllocationRejected b' j r]) =
     \<lparr>d_Id = UString U i, d_SalesOrderNumber = n, d_OrderDate = d, d_CustomerId = UString U ci, d_CustomerName = cn,
      d_Rows = map (row_dto U) rs, d_AllocationStatus = ''rejected'', d_RejectionReason = r\<rparr>"
  by (simp_all add: dto_of_order_def order_of_def ApplyEvent_def Let_def SetID_def NewSalesOrder_def status_text_def)

lemma seen_step:
  assumes "order_shape i hist" and "e \<in> set hist"
    and "sv_orders s (UString U i) = seen_dto U i hist seen"
  shows "sv_orders (snd (project_sales U e s)) (UString U i) = seen_dto U i hist (insert e seen)"
proof -
  have "hist \<noteq> []" using assms(2) by auto
  with assms(1) show ?thesis
  proof (cases rule: order_shape_cases)
    case (pending b n d ci cn rs)
    with assms(2,3) show ?thesis
      by (cases "SalesOrderCreated b i n d ci cn rs \<in> seen")
        (auto simp: seen_dto_def projection_defs dto_of_pending is_created_def)
  next
    case (allocated b n d ci cn rs b')
    with assms(2,3) show ?thesis
      by (cases "SalesOrderCreated b i n d ci cn rs \<in> seen"; cases "SalesOrderAllocated b' i \<in> seen")
        (auto simp: seen_dto_def projection_defs dto_of_pending is_created_def zero_SalesOrderDto_def)
  next
    case (rejected b n d ci cn rs b' r)
    with assms(2,3) show ?thesis
      by (cases "SalesOrderCreated b i n d ci cn rs \<in> seen"; cases "SalesOrderAllocationRejected b' i r \<in> seen")
        (auto simp: seen_dto_def projection_defs dto_of_pending is_created_def zero_SalesOrderDto_def)
  qed
qed

lemma order_shape_id: "order_shape i hist \<Longrightarrow> e \<in> set hist \<Longrightarrow> se_SalesOrderId e = i"
  by (cases "(i, hist)" rule: order_shape.cases) auto

lemma project_seen:
  assumes "uuid_ok U" and "\<And>i. order_shape i (h i)" and "\<forall>e \<in> set es. e \<in> set (h (se_SalesOrderId e))"
  shows "sv_orders (snd (project_all U es NewSalesOrderService)) (UString U i) = seen_dto U i (h i) (set es)"
  using assms(3)
proof (induction es rule: rev_induct)
  case Nil
  show ?case by (simp add: project_all_def NewSalesOrderService_def seen_dto_def)
next
  case (snoc e es)
  then have IH: "sv_orders (snd (project_all U es NewSalesOrderService)) (UString U i) = seen_dto U i (h i) (set es)" by simp
  show ?case
  proof (cases "se_SalesOrderId e = i")
    case True
    with snoc.prems have "e \<in> set (h i)" by auto
    from seen_step [OF assms(2) this IH] show ?thesis by (simp add: project_all_snoc)
  next
    case False
    then have "e \<notin> set (h i)" using order_shape_id [OF assms(2)] by blast
    then have "insert e (set es) \<inter> set (h i) = set es \<inter> set (h i)" by blast
    with IH project_other [OF assms(1) False] show ?thesis by (simp add: project_all_snoc seen_dto_def)
  qed
qed

text \<open>Once every event of an order has been seen, its view is that of the aggregate.\<close>

lemma seen_all:
  assumes "order_shape i hist" and "hist \<noteq> []" and "set hist \<subseteq> seen"
  shows "seen_dto U i hist seen = Some (dto_of_order U (order_of hist))"
proof -
  have "seen \<inter> set hist = set hist \<inter> set hist" using assms(3) by blast
  then have "seen_dto U i hist seen = seen_dto U i hist (set hist)" unfolding seen_dto_def by (simp only:)
  also from assms(1,2) have "\<dots> = Some (dto_of_order U (order_of hist))"
    by (cases rule: order_shape_cases) (simp_all add: seen_dto_def dto_of_pending is_created_def Let_def)
  finally show ?thesis .
qed

text \<open>
  C21. The read model converges to the write model: when the projections have received every
  stored event of an order at least once, in any order, interleaved with the events of other
  orders and with any redeliveries, querying the order returns exactly the view of the
  order's aggregate.
\<close>

theorem sales_projection_converges:
  assumes "uuid_ok U" and "sales_reach U (s, b)"
    and "\<forall>e \<in> set es. e \<in> set (mem_history s (order_stream U (se_SalesOrderId e)))"
    and "mem_history s (order_stream U i) \<noteq> []" and "set (mem_history s (order_stream U i)) \<subseteq> set es"
  shows "GetSalesOrder (UString U i) (snd (project_all U es NewSalesOrderService)) =
    Inr (dto_of_order U (order_of (mem_history s (order_stream U i))))"
proof -
  have shape: "order_shape j (mem_history s (order_stream U j))" for j
    using sales_reach_inv [OF assms(2,1)] by (simp add: orders_ok_def)
  from project_seen [OF assms(1) shape assms(3), of i] seen_all [OF shape assms(4,5), of U]
  show ?thesis by (simp add: GetSalesOrder_def)
qed

theorem sales_projection_converges_witness:
  "GetSalesOrder (UString hex_uuid 1) (snd (project_all hex_uuid
       (rev (mem_history (fst demo_sold) (order_stream hex_uuid 1))) NewSalesOrderService)) =
     Inr (dto_of_order hex_uuid (order_of (mem_history (fst demo_sold) (order_stream hex_uuid 1))))"
proof (rule sales_projection_converges [OF hex_uuid_ok demo_sold_reach])
  have "order_shape 1 (mem_history (fst demo_sold) (order_stream hex_uuid 1))"
    using sales_reach_inv [OF demo_sold_reach hex_uuid_ok] by (simp add: orders_ok_def)
  from order_shape_id [OF this]
  show "\<forall>e \<in> set (rev (mem_history (fst demo_sold) (order_stream hex_uuid 1))).
      e \<in> set (mem_history (fst demo_sold) (order_stream hex_uuid (se_SalesOrderId e)))" by simp
  show "mem_history (fst demo_sold) (order_stream hex_uuid 1) \<noteq> []" by code_simp
qed simp

section \<open>Rebuilding\<close>

lemma project_all_ok: "project_all U es s = (Inr (), snd (project_all U es s))"
proof (induction es arbitrary: s)
  case (Cons x xs)
  have "project_sales U x s = (Inr (), snd (project_sales U x s))" using project_sales_ok [of U x s] by (metis prod.collapse)
  then have "project_all U (x # xs) s = project_all U xs (snd (project_sales U x s))"
    unfolding project_all_def by (metis (no_types, lifting) case_prod_conv for_each.simps(2) sum.case(2))
  with Cons show ?case by metis
qed (simp add: project_all_def)

lemma rebuild_in_memory:
  assumes "lister = InMemory_ListStreams" and "lister SalesOrder_StreamName st = Inr ids"
  shows "sales_RebuildReadModel (project_sales U) in_memory_store lister st s =
    project_all U (concat (map (mem_history st) ids)) s"
proof -
  have "rebuild_stream (project_sales U) in_memory_store st = (\<lambda>sid. project_all U (mem_history st sid))"
    by (simp add: fun_eq_iff rebuild_stream_def in_memory_store_def InMemory_ReadStream_def mem_history_def
        project_all_def for_each_map)
  then show ?thesis
    unfolding sales_RebuildReadModel_def assms(2) project_all_def for_each_concat by simp
qed

text \<open>
  Rebuilding reconstructs the read model from the event store: it returns no error, and
  afterwards every stored order is found with exactly the view of its aggregate and no other
  order is found.
\<close>

theorem sales_rebuild_correct:
  assumes "uuid_ok U" and "sales_reach U (s, b)"
  shows "fst (sales_RebuildReadModel (project_sales U) in_memory_store InMemory_ListStreams s NewSalesOrderService) = Inr () \<and>
    GetSalesOrder (UString U i) (snd (sales_RebuildReadModel (project_sales U) in_memory_store InMemory_ListStreams s NewSalesOrderService)) =
      (if mem_history s (order_stream U i) = [] then Inl ErrNotFound
       else Inr (dto_of_order U (order_of (mem_history s (order_stream U i)))))"
proof -
  let ?h = "\<lambda>i. mem_history s (order_stream U i)"
  have inv: "store_wf s" "orders_ok U (mem_history s)" using sales_reach_inv [OF assms(2,1)] by simp_all
  obtain ids where ids: "InMemory_ListStreams SalesOrder_StreamName s = Inr ids"
    by (simp add: InMemory_ListStreams_def)
  have st: "set ids = {sid. mem_history s sid \<noteq> [] \<and> prefix (SalesOrder_StreamName @ ''-'') sid}"
    using mem.list_streams [OF inv(1), of InMemory_ListStreams SalesOrder_StreamName ids] ids by (simp add: in_memory_store_def)
  define es where "es = concat (map (mem_history s) ids)"
  have run: "sales_RebuildReadModel (project_sales U) in_memory_store InMemory_ListStreams s NewSalesOrderService =
      project_all U es NewSalesOrderService"
    unfolding es_def by (rule rebuild_in_memory [OF refl ids])
  have shape: "order_shape j (?h j)" for j by (rule orders_okD [OF inv(2)])
  have stored: "\<forall>e \<in> set es. e \<in> set (?h (se_SalesOrderId e))"
  proof
    fix e assume "e \<in> set es"
    then obtain sid where sid: "sid \<in> set ids" and e: "e \<in> set (mem_history s sid)" by (auto simp: es_def)
    then obtain j where "e \<in> set (?h j)" using orders_ok_range [OF inv(2), of sid] st by blast
    with order_shape_id [OF shape] show "e \<in> set (?h (se_SalesOrderId e))" by metis
  qed
  have all: "set (?h i) \<subseteq> set es"
  proof (cases "?h i = []")
    case False
    then have "order_stream U i \<in> set ids" by (simp add: st order_stream_def)
    then show ?thesis by (auto simp: es_def)
  qed simp
  have "sv_orders (snd (project_all U es NewSalesOrderService)) (UString U i) = seen_dto U i (?h i) (set es)"
    by (rule project_seen [OF assms(1) shape stored])
  moreover have "seen_dto U i (?h i) (set es) = (if ?h i = [] then None else Some (dto_of_order U (order_of (?h i))))"
    using seen_all [OF shape _ all] by (simp add: seen_dto_def)
  moreover have "fst (project_all U es NewSalesOrderService) = Inr ()"
    using project_all_ok [of U es NewSalesOrderService] by (metis fst_conv)
  ultimately show ?thesis unfolding run by (simp add: GetSalesOrder_def)
qed

theorem sales_rebuild_correct_witness:
  "fst (sales_RebuildReadModel (project_sales hex_uuid) in_memory_store InMemory_ListStreams (fst demo_sold) NewSalesOrderService) = Inr () \<and>
   GetSalesOrder (UString hex_uuid 1)
     (snd (sales_RebuildReadModel (project_sales hex_uuid) in_memory_store InMemory_ListStreams (fst demo_sold) NewSalesOrderService)) =
     (if mem_history (fst demo_sold) (order_stream hex_uuid 1) = [] then Inl ErrNotFound
      else Inr (dto_of_order hex_uuid (order_of (mem_history (fst demo_sold) (order_stream hex_uuid 1)))))"
  by (rule sales_rebuild_correct [OF hex_uuid_ok demo_sold_reach])

section \<open>Listing in pages\<close>

lemma NewPage_window:
  assumes "1 \<le> m" and "m \<le> 200" and "int off \<le> max_int"
  shows "page_slice (NewPage (of_nat m) (of_nat off)) xs = take m (drop off xs)"
proof -
  have m: "sint (of_nat m :: go_int) = int m" and off: "sint (of_nat off :: go_int) = int off"
    using assms by (simp_all add: signed_of_nat signed_take_bit_int_eq_self_iff max_int_def)
  have "NewPage (of_nat m) (of_nat off) = \<lparr>Limit = of_nat m, Offset = of_nat off\<rparr>"
    by (rule NewPage_keeps) (use assms m off in auto)
  then show ?thesis by (simp add: page_slice_eq m off)
qed

text \<open>
  Paging loses nothing: for any page size from 1 to 200, reading pages of that size one
  after another, up to the end, gives every projected order exactly once, in the order of
  its first projection.
\<close>

theorem sales_pages_cover:
  assumes "1 \<le> m" and "m \<le> 200" and "length (sv_order s) \<le> n * m" and "int (n * m) \<le> max_int"
  shows "concat (map (\<lambda>k. GetSalesOrders (NewPage (of_nat m) (of_nat (k * m))) s) [0..<n]) =
    map (\<lambda>i. case sv_orders s i of None \<Rightarrow> zero_SalesOrderDto | Some order \<Rightarrow> order) (sv_order s)"
proof -
  let ?xs = "map (\<lambda>i. case sv_orders s i of None \<Rightarrow> zero_SalesOrderDto | Some order \<Rightarrow> order) (sv_order s)"
  have "GetSalesOrders (NewPage (of_nat m) (of_nat (k * m))) s = take m (drop (k * m) ?xs)" if "k < n" for k
  proof -
    have "k * m \<le> n * m" using that by simp
    then have "int (k * m) \<le> max_int" using assms(4) by linarith
    from NewPage_window [OF assms(1,2) this] show ?thesis by (simp add: GetSalesOrders_def)
  qed
  then have "concat (map (\<lambda>k. GetSalesOrders (NewPage (of_nat m) (of_nat (k * m))) s) [0..<n]) =
      concat (map (\<lambda>k. take m (drop (k * m) ?xs)) [0..<n])"
    by (intro arg_cong [where f = concat] map_cong) simp_all
  also have "\<dots> = ?xs" using assms(3) by (simp only: chunks_take) simp
  finally show ?thesis .
qed

theorem sales_pages_cover_witness:
  "concat (map (\<lambda>k. GetSalesOrders (NewPage (of_nat 1) (of_nat (k * 1))) \<lparr>sv_orders = Map.empty, sv_order = [''a'', ''b'']\<rparr>) [0..<2]) =
     [zero_SalesOrderDto, zero_SalesOrderDto]"
  using sales_pages_cover [of 1 "\<lparr>sv_orders = Map.empty, sv_order = [''a'', ''b'']\<rparr>" 2]
  by (simp add: max_int_def)

end
