(* ===== verification/Allocation_Saga.thy ===== *)
theory Allocation_Saga
  imports Service_Bus
begin

text \<open>
  \<^verbatim>\<open>src/internal/warehouses/domain/order_allocation_saga.go\<close>: the event-sourced saga that
  allocates an order row by row and compensates the rows already allocated when a step
  fails. The Go string types \<open>SagaStatus\<close> and \<open>sagaRowState\<close> are datatypes; \<open>SagaUnset\<close> is the
  zero value of a saga that has replayed nothing. The \<open>Record\<close> methods return whether
  anything changed, with the saga they leave; \<open>uuid.MustParse\<close> may panic.
\<close>

section \<open>State and operations\<close>

definition SagaStreamName :: string where
  "SagaStreamName = ''OrderAllocationSaga''"

datatype SagaStatus = SagaUnset | SagaRunning | SagaCompensating | SagaCompleted | SagaRejected

datatype sagaRowState = rowPending | rowAllocated | rowFailed | rowCompensated

record sagaRow =
  row_data :: SagaRowData
  row_state :: sagaRowState

record OrderAllocationSaga = "warehouse_event AggregateRoot" +
  sg_salesOrderId :: string
  sg_rows :: "sagaRow list"
  sg_status :: SagaStatus
  sg_reason :: string

definition NewOrderAllocationSaga :: OrderAllocationSaga where
  "NewOrderAllocationSaga =
     \<lparr>ar_id = 0, ar_version = 0, ar_uncommitted = [], sg_salesOrderId = [], sg_rows = [],
      sg_status = SagaUnset, sg_reason = []\<rparr>"

definition upd_row :: "string \<Rightarrow> sagaRowState \<Rightarrow> sagaRow \<Rightarrow> sagaRow" where
  "upd_row beerId st r = (if row_BeerId (row_data r) = beerId then r\<lparr>row_state := st\<rparr> else r)"

definition setRowState :: "string \<Rightarrow> sagaRowState \<Rightarrow> OrderAllocationSaga \<Rightarrow> OrderAllocationSaga" where
  "setRowState beerId st s =
     s\<lparr>sg_rows := map (upd_row beerId st) (sg_rows s)\<rparr>"

fun Saga_Route :: "warehouse_event \<Rightarrow> OrderAllocationSaga \<Rightarrow> OrderAllocationSaga" where
  "Saga_Route (OrderAllocationStarted base salesOrderId rows) s =
     (SetID (ev_AggregateId base) s)\<lparr>sg_salesOrderId := salesOrderId, sg_status := SagaRunning,
        sg_rows := map (\<lambda>row. \<lparr>row_data = row, row_state = rowPending\<rparr>) rows\<rparr>"
| "Saga_Route (AllocationStepSucceeded _ _ beerId) s = setRowState beerId rowAllocated s"
| "Saga_Route (AllocationStepFailed _ _ beerId reason) s =
     (setRowState beerId rowFailed s)\<lparr>sg_status := SagaCompensating, sg_reason := reason\<rparr>"
| "Saga_Route (AllocationStepCompensated _ _ beerId) s = setRowState beerId rowCompensated s"
| "Saga_Route (OrderAllocationCompleted _ _) s = s\<lparr>sg_status := SagaCompleted\<rparr>"
| "Saga_Route (OrderAllocationRejected _ _ reason) s = s\<lparr>sg_status := SagaRejected, sg_reason := reason\<rparr>"
| "Saga_Route _ s = s"

definition StartOrderAllocation :: "uuid_pkg \<Rightarrow> uuid \<Rightarrow> uuid \<Rightarrow> SagaRowData list \<Rightarrow> OrderAllocationSaga" where
  "StartOrderAllocation U salesOrderId commitId rows =
     (let saga = RaiseEvent Saga_Route (NewOrderAllocationStarted U salesOrderId commitId rows) NewOrderAllocationSaga in
      if length rows = 0 then RaiseEvent Saga_Route (NewOrderAllocationCompleted U salesOrderId commitId) saga
      else saga)"

definition NextPendingRow :: "OrderAllocationSaga \<Rightarrow> SagaRowData \<times> bool" where
  "NextPendingRow s =
     (if sg_status s = SagaRunning then
        (case find (\<lambda>r. row_state r = rowPending) (sg_rows s) of
           Some r \<Rightarrow> (row_data r, True) | None \<Rightarrow> (zero_SagaRowData, False))
      else (zero_SagaRowData, False))"

definition RowsToCompensate :: "OrderAllocationSaga \<Rightarrow> SagaRowData list" where
  "RowsToCompensate s =
     (if sg_status s \<noteq> SagaCompensating then []
      else map row_data (filter (\<lambda>r. row_state r = rowAllocated) (sg_rows s)))"

definition rowInState :: "string \<Rightarrow> sagaRowState \<Rightarrow> OrderAllocationSaga \<Rightarrow> bool" where
  "rowInState beerId st s \<longleftrightarrow> list_ex (\<lambda>r. row_BeerId (row_data r) = beerId \<and> row_state r = st) (sg_rows s)"

definition allRowsIn :: "sagaRowState \<Rightarrow> OrderAllocationSaga \<Rightarrow> bool" where
  "allRowsIn st s \<longleftrightarrow> list_all (\<lambda>r. row_state r = st) (sg_rows s)"

definition RecordAllocationSucceeded ::
  "uuid_pkg \<Rightarrow> uuid \<Rightarrow> string \<Rightarrow> OrderAllocationSaga \<Rightarrow> (bool \<times> OrderAllocationSaga) result" where
  "RecordAllocationSucceeded U commitId beerId s =
     (if sg_status s \<noteq> SagaRunning \<or> \<not> rowInState beerId rowPending s then Inr (False, s)
      else case MustParse U (sg_salesOrderId s) of
        Inl p \<Rightarrow> Inl p
      | Inr orderId \<Rightarrow>
          let s1 = RaiseEvent Saga_Route (NewAllocationStepSucceeded U orderId commitId beerId) s in
          Inr (True,
            if allRowsIn rowAllocated s1
            then RaiseEvent Saga_Route (NewOrderAllocationCompleted U orderId commitId) s1 else s1))"

definition RecordQuantityNotFound ::
  "uuid_pkg \<Rightarrow> uuid \<Rightarrow> string \<Rightarrow> string \<Rightarrow> OrderAllocationSaga \<Rightarrow> (bool \<times> OrderAllocationSaga) result" where
  "RecordQuantityNotFound U commitId beerId reason s =
     (if sg_status s \<noteq> SagaRunning \<or> \<not> rowInState beerId rowPending s then Inr (False, s)
      else case MustParse U (sg_salesOrderId s) of
        Inl p \<Rightarrow> Inl p
      | Inr orderId \<Rightarrow>
          let s1 = RaiseEvent Saga_Route (NewAllocationStepFailed U orderId commitId beerId reason) s in
          Inr (True,
            if length (RowsToCompensate s1) = 0
            then RaiseEvent Saga_Route (NewOrderAllocationRejected U orderId commitId reason) s1 else s1))"

definition RecordCompensated ::
  "uuid_pkg \<Rightarrow> uuid \<Rightarrow> string \<Rightarrow> OrderAllocationSaga \<Rightarrow> (bool \<times> OrderAllocationSaga) result" where
  "RecordCompensated U commitId beerId s =
     (if sg_status s \<noteq> SagaCompensating \<or> \<not> rowInState beerId rowAllocated s then Inr (False, s)
      else case MustParse U (sg_salesOrderId s) of
        Inl p \<Rightarrow> Inl p
      | Inr orderId \<Rightarrow>
          let s1 = RaiseEvent Saga_Route (NewAllocationStepCompensated U orderId commitId beerId) s in
          Inr (True,
            if length (RowsToCompensate s1) = 0
            then RaiseEvent Saga_Route (NewOrderAllocationRejected U orderId commitId (sg_reason s1)) s1 else s1))"

lemmas record_defs = RecordAllocationSucceeded_def RecordQuantityNotFound_def RecordCompensated_def

section \<open>The router keeps its contract\<close>

interpretation saga: event_sourced Saga_Route
proof
  show "ar_version (Saga_Route e s) = ar_version s" for e s
    by (cases e) (simp_all add: setRowState_def SetID_def)
  show "Saga_Route e (s\<lparr>ar_uncommitted := u\<rparr>) = (Saga_Route e s)\<lparr>ar_uncommitted := u\<rparr>" for e s u
    by (cases e) (simp_all add: setRowState_def SetID_def)
qed

lemma NewOrderAllocationSaga_fields [simp]:
  "ar_uncommitted NewOrderAllocationSaga = []" "ar_version NewOrderAllocationSaga = 0"
  by (simp_all add: NewOrderAllocationSaga_def)

lemma sg_apply_fields [simp]:
  "sg_rows (ApplyEvent Saga_Route e s) = sg_rows (Saga_Route e s)"
  "sg_status (ApplyEvent Saga_Route e s) = sg_status (Saga_Route e s)"
  "sg_salesOrderId (ApplyEvent Saga_Route e s) = sg_salesOrderId (Saga_Route e s)"
  "sg_reason (ApplyEvent Saga_Route e s) = sg_reason (Saga_Route e s)"
  "ar_id (ApplyEvent Saga_Route e s) = ar_id (Saga_Route e s)"
  by (simp_all add: ApplyEvent_def Let_def)

lemma sg_raise_fields [simp]:
  "sg_rows (RaiseEvent Saga_Route e s) = sg_rows (Saga_Route e s)"
  "sg_status (RaiseEvent Saga_Route e s) = sg_status (Saga_Route e s)"
  "sg_salesOrderId (RaiseEvent Saga_Route e s) = sg_salesOrderId (Saga_Route e s)"
  "sg_reason (RaiseEvent Saga_Route e s) = sg_reason (Saga_Route e s)"
  "ar_id (RaiseEvent Saga_Route e s) = ar_id (Saga_Route e s)"
  by (simp_all add: RaiseEvent_def Let_def)

lemma setRowState_fields [simp]:
  "sg_status (setRowState b st s) = sg_status s" "sg_reason (setRowState b st s) = sg_reason s"
  "sg_salesOrderId (setRowState b st s) = sg_salesOrderId s" "ar_id (setRowState b st s) = ar_id s"
  by (simp_all add: setRowState_def)

lemma clear_fields [simp]:
  "sg_rows (ClearUncommittedEvents s) = sg_rows s" "sg_status (ClearUncommittedEvents s) = sg_status s"
  "sg_salesOrderId (ClearUncommittedEvents s) = sg_salesOrderId s"
  "sg_reason (ClearUncommittedEvents s) = sg_reason s" "ar_id (ClearUncommittedEvents s) = ar_id s"
  "ar_uncommitted (ClearUncommittedEvents s) = []"
  by (simp_all add: ClearUncommittedEvents_def)

section \<open>Sagas that can occur\<close>

text \<open>
  A saga starts from an order, records outcomes, and is saved (which clears its
  uncommitted events) and loaded again.
\<close>

inductive saga_reach :: "uuid_pkg \<Rightarrow> OrderAllocationSaga \<Rightarrow> bool" for U where
  started: "saga_reach U (StartOrderAllocation U orderId commitId rows)"
| succeeded: "saga_reach U s \<Longrightarrow> RecordAllocationSucceeded U c b s = Inr (ch, s') \<Longrightarrow> saga_reach U s'"
| not_found: "saga_reach U s \<Longrightarrow> RecordQuantityNotFound U c b rs s = Inr (ch, s') \<Longrightarrow> saga_reach U s'"
| compensated: "saga_reach U s \<Longrightarrow> RecordCompensated U c b s = Inr (ch, s') \<Longrightarrow> saga_reach U s'"
| saved: "saga_reach U s \<Longrightarrow> saga_reach U (ClearUncommittedEvents s)"

abbreviation some_row :: "sagaRowState \<Rightarrow> OrderAllocationSaga \<Rightarrow> bool" where
  "some_row st s \<equiv> \<exists>r \<in> set (sg_rows s). row_state r = st"

definition beers_uniform :: "OrderAllocationSaga \<Rightarrow> bool" where
  "beers_uniform s \<longleftrightarrow> (\<forall>r \<in> set (sg_rows s). \<forall>r' \<in> set (sg_rows s).
     row_BeerId (row_data r) = row_BeerId (row_data r') \<longrightarrow> row_state r = row_state r')"

definition saga_inv :: "uuid_pkg \<Rightarrow> OrderAllocationSaga \<Rightarrow> bool" where
  "saga_inv U s \<longleftrightarrow> sg_salesOrderId s = UString U (ar_id s) \<and> beers_uniform s \<and>
     (case sg_status s of
        SagaUnset \<Rightarrow> False
      | SagaRunning \<Rightarrow> some_row rowPending s \<and> (\<forall>r \<in> set (sg_rows s). row_state r \<in> {rowPending, rowAllocated})
      | SagaCompensating \<Rightarrow> some_row rowFailed s \<and> some_row rowAllocated s
      | SagaCompleted \<Rightarrow> (\<forall>r \<in> set (sg_rows s). row_state r = rowAllocated)
      | SagaRejected \<Rightarrow> some_row rowFailed s \<and> \<not> some_row rowAllocated s)"

lemma upd_row_fields [simp]:
  "row_data (upd_row b st r) = row_data r"
  "row_state (upd_row b st r) = (if row_BeerId (row_data r) = b then st else row_state r)"
  by (simp_all add: upd_row_def)

lemma set_setRowState: "set (sg_rows (setRowState b st s)) = upd_row b st ` set (sg_rows s)"
  by (simp add: setRowState_def)

lemma beers_uniformD:
  "beers_uniform s \<Longrightarrow> r \<in> set (sg_rows s) \<Longrightarrow> r' \<in> set (sg_rows s) \<Longrightarrow>
     row_BeerId (row_data r) = row_BeerId (row_data r') \<Longrightarrow> row_state r = row_state r'"
  unfolding beers_uniform_def by blast

lemma beers_uniform_setRowState:
  assumes "beers_uniform s"
  shows "beers_uniform (setRowState b st s)"
proof -
  have "row_state (upd_row b st r) = row_state (upd_row b st r')"
    if "r \<in> set (sg_rows s)" "r' \<in> set (sg_rows s)" "row_BeerId (row_data r) = row_BeerId (row_data r')" for r r'
    using beers_uniformD [OF assms that] that(3) by simp
  then show ?thesis
    by (simp only: beers_uniform_def set_setRowState ball_simps upd_row_fields(1)) blast
qed

lemma beers_uniform_upd [simp]:
  "beers_uniform (s\<lparr>sg_status := x\<rparr>) = beers_uniform s"
  "beers_uniform (s\<lparr>sg_status := x, sg_reason := y\<rparr>) = beers_uniform s"
  "beers_uniform (RaiseEvent Saga_Route e s) = beers_uniform (Saga_Route e s)"
  by (simp_all add: beers_uniform_def)

lemma RowsToCompensate_Nil:
  "RowsToCompensate s = [] \<longleftrightarrow> sg_status s \<noteq> SagaCompensating \<or> \<not> some_row rowAllocated s"
  by (auto simp: RowsToCompensate_def filter_empty_conv)

lemma saga_inv_started: "saga_inv U (StartOrderAllocation U orderId commitId rows)"
  by (auto simp: saga_inv_def StartOrderAllocation_def msg_defs SetID_def beers_uniform_def Let_def
      NewOrderAllocationSaga_def neq_Nil_conv)

text \<open>
  The three kinds of recording, on a saga that satisfies the invariant: a recording that
  does not apply changes nothing; one that applies moves the rows of the beer and settles
  the saga when nothing is left to wait for.
\<close>

lemma record_ignored:
  "\<not> (sg_status s = SagaRunning \<and> rowInState b rowPending s) \<Longrightarrow>
     RecordAllocationSucceeded U c b s = Inr (False, s) \<and> RecordQuantityNotFound U c b rs s = Inr (False, s)"
  "\<not> (sg_status s = SagaCompensating \<and> rowInState b rowAllocated s) \<Longrightarrow> RecordCompensated U c b s = Inr (False, s)"
  by (auto simp: record_defs)

definition moved :: "OrderAllocationSaga \<Rightarrow> OrderAllocationSaga \<Rightarrow> string \<Rightarrow> sagaRowState \<Rightarrow> bool" where
  "moved s s' b st \<longleftrightarrow> sg_rows s' = sg_rows (setRowState b st s) \<and> ar_id s' = ar_id s \<and>
     sg_salesOrderId s' = sg_salesOrderId s"

lemma succeeded_moves:
  assumes "MustParse U (sg_salesOrderId s) = Inr i" and "sg_status s = SagaRunning" and "rowInState b rowPending s"
  shows "\<exists>s'. RecordAllocationSucceeded U c b s = Inr (True, s') \<and> moved s s' b rowAllocated \<and>
    sg_reason s' = sg_reason s \<and>
    sg_status s' = (if \<forall>r \<in> set (sg_rows s'). row_state r = rowAllocated then SagaCompleted else SagaRunning)"
  using assms by (simp add: RecordAllocationSucceeded_def moved_def msg_defs allRowsIn_def list_all_iff Let_def)

lemma not_found_moves:
  assumes "MustParse U (sg_salesOrderId s) = Inr i" and "sg_status s = SagaRunning" and "rowInState b rowPending s"
  shows "\<exists>s'. RecordQuantityNotFound U c b rs s = Inr (True, s') \<and> moved s s' b rowFailed \<and> sg_reason s' = rs \<and>
    sg_status s' = (if some_row rowAllocated s' then SagaCompensating else SagaRejected)"
  using assms by (simp add: RecordQuantityNotFound_def moved_def msg_defs RowsToCompensate_Nil Let_def)

lemma compensated_moves:
  assumes "MustParse U (sg_salesOrderId s) = Inr i" and "sg_status s = SagaCompensating" and "rowInState b rowAllocated s"
  shows "\<exists>s'. RecordCompensated U c b s = Inr (True, s') \<and> moved s s' b rowCompensated \<and> sg_reason s' = sg_reason s \<and>
    sg_status s' = (if some_row rowAllocated s' then SagaCompensating else SagaRejected)"
  using assms by (simp add: RecordCompensated_def moved_def msg_defs RowsToCompensate_Nil Let_def)

lemma moved_uniform: "moved s s' b st \<Longrightarrow> beers_uniform s \<Longrightarrow> beers_uniform s'"
  using beers_uniform_setRowState [of s b st] unfolding moved_def beers_uniform_def by metis

lemma moved_rows: "moved s s' b st \<Longrightarrow> set (sg_rows s') = upd_row b st ` set (sg_rows s)"
  by (simp add: moved_def set_setRowState)

lemma saga_inv_MustParse: "uuid_ok U \<Longrightarrow> saga_inv U s \<Longrightarrow> MustParse U (sg_salesOrderId s) = Inr (ar_id s)"
  by (simp add: saga_inv_def)

lemma saga_inv_succeeded:
  assumes "uuid_ok U" and "saga_inv U s" and rec: "RecordAllocationSucceeded U c b s = Inr (ch, s')"
  shows "saga_inv U s'"
proof (cases "sg_status s = SagaRunning \<and> rowInState b rowPending s")
  case False
  from record_ignored(1) [OF False, of U c] rec assms(2) show ?thesis by simp
next
  case True
  with succeeded_moves [OF saga_inv_MustParse [OF assms(1,2)], of b c] rec
  have m: "moved s s' b rowAllocated"
    and st: "sg_status s' = (if \<forall>r \<in> set (sg_rows s'). row_state r = rowAllocated then SagaCompleted else SagaRunning)"
    by auto
  have "\<forall>r \<in> set (sg_rows s'). row_state r \<in> {rowPending, rowAllocated}"
    using assms(2) True by (simp add: saga_inv_def moved_rows [OF m])
  then show ?thesis
    using assms(2) m st moved_uniform [OF m] by (auto simp: saga_inv_def moved_def)
qed

lemma saga_inv_not_found:
  assumes "uuid_ok U" and "saga_inv U s" and rec: "RecordQuantityNotFound U c b rs s = Inr (ch, s')"
  shows "saga_inv U s'"
proof (cases "sg_status s = SagaRunning \<and> rowInState b rowPending s")
  case False
  from record_ignored(1) [OF False, of U c rs] rec assms(2) show ?thesis by simp
next
  case True
  with not_found_moves [OF saga_inv_MustParse [OF assms(1,2)], of b c rs] rec
  have m: "moved s s' b rowFailed"
    and st: "sg_status s' = (if some_row rowAllocated s' then SagaCompensating else SagaRejected)"
    by auto
  have "some_row rowFailed s'"
    using True by (auto simp: rowInState_def list_ex_iff moved_rows [OF m])
  then show ?thesis
    using assms(2) m st moved_uniform [OF m] by (auto simp: saga_inv_def moved_def)
qed

lemma saga_inv_compensated:
  assumes "uuid_ok U" and "saga_inv U s" and rec: "RecordCompensated U c b s = Inr (ch, s')"
  shows "saga_inv U s'"
proof (cases "sg_status s = SagaCompensating \<and> rowInState b rowAllocated s")
  case False
  from record_ignored(2) [OF False, of U c] rec assms(2) show ?thesis by simp
next
  case True
  with compensated_moves [OF saga_inv_MustParse [OF assms(1,2)], of b c] rec
  have m: "moved s s' b rowCompensated"
    and st: "sg_status s' = (if some_row rowAllocated s' then SagaCompensating else SagaRejected)"
    by auto
  obtain r where r: "r \<in> set (sg_rows s)" "row_state r = rowFailed"
    using assms(2) True by (auto simp: saga_inv_def)
  obtain r' where r': "r' \<in> set (sg_rows s)" "row_BeerId (row_data r') = b" "row_state r' = rowAllocated"
    using True by (auto simp: rowInState_def list_ex_iff)
  have "beers_uniform s" using assms(2) by (simp add: saga_inv_def)
  from beers_uniformD [OF this r(1) r'(1)] r r' have "row_BeerId (row_data r) \<noteq> b" by auto
  with r have "some_row rowFailed s'" by (auto simp: moved_rows [OF m])
  then show ?thesis
    using assms(2) m st moved_uniform [OF m] by (auto simp: saga_inv_def moved_def)
qed

lemma saga_inv_cleared [simp]: "saga_inv U (ClearUncommittedEvents s) = saga_inv U s"
  unfolding saga_inv_def beers_uniform_def clear_fields ..

lemma saga_reach_inv: "saga_reach U s \<Longrightarrow> uuid_ok U \<Longrightarrow> saga_inv U s"
  by (induction rule: saga_reach.induct)
    (auto intro: saga_inv_started saga_inv_succeeded saga_inv_not_found saga_inv_compensated)

lemma saga_inv_next_row:
  assumes "saga_inv U s" and "sg_status s = SagaRunning"
  shows "\<exists>r \<in> set (sg_rows s). row_state r = rowPending \<and> NextPendingRow s = (row_data r, True)"
proof -
  obtain r where r: "find (\<lambda>r. row_state r = rowPending) (sg_rows s) = Some r"
    using assms by (cases "find (\<lambda>r. row_state r = rowPending) (sg_rows s)") (auto simp: saga_inv_def find_None_iff)
  then have "r \<in> set (sg_rows s)" "row_state r = rowPending" by (auto simp: find_Some_iff)
  with r assms(2) show ?thesis by (auto simp: NextPendingRow_def)
qed

section \<open>Progress\<close>

text \<open>
  What is left to do: a pending row may still be allocated and then compensated, an
  allocated one may be compensated. Every recorded change lowers the sum.
\<close>

fun row_work :: "sagaRowState \<Rightarrow> nat" where
  "row_work rowPending = 2"
| "row_work rowAllocated = 1"
| "row_work _ = 0"

definition saga_work :: "OrderAllocationSaga \<Rightarrow> nat" where
  "saga_work s = (\<Sum>r \<leftarrow> sg_rows s. row_work (row_state r))"

lemma sum_list_strict_mono_ex:
  fixes f g :: "'a \<Rightarrow> nat"
  assumes "\<forall>x \<in> set xs. f x \<le> g x" and "\<exists>x \<in> set xs. f x < g x"
  shows "(\<Sum>x \<leftarrow> xs. f x) < (\<Sum>x \<leftarrow> xs. g x)"
  using assms
proof (induction xs)
  case (Cons x xs)
  have le: "(\<Sum>x \<leftarrow> xs. f x) \<le> (\<Sum>x \<leftarrow> xs. g x)"
    using Cons.prems(1) by (intro sum_list_mono) auto
  show ?case
  proof (cases "\<exists>y \<in> set xs. f y < g y")
    case True
    with Cons have "(\<Sum>x \<leftarrow> xs. f x) < (\<Sum>x \<leftarrow> xs. g x)" by simp
    with Cons.prems(1) show ?thesis by (simp add: add_le_less_mono)
  next
    case False
    with Cons.prems(2) have "f x < g x" by auto
    with le show ?thesis by (simp add: add_less_le_mono)
  qed
qed simp

lemma saga_work_moved:
  assumes "moved s s' b st'" and "beers_uniform s" and "rowInState b st s" and "row_work st' < row_work st"
  shows "saga_work s' < saga_work s"
proof -
  let ?f = "\<lambda>r. row_work (row_state (upd_row b st' r))"
  obtain r0 where r0: "r0 \<in> set (sg_rows s)" "row_BeerId (row_data r0) = b" "row_state r0 = st"
    using assms(3) by (auto simp: rowInState_def list_ex_iff)
  have st: "row_state r = st" if "r \<in> set (sg_rows s)" "row_BeerId (row_data r) = b" for r
    using beers_uniformD [OF assms(2) that(1) r0(1)] that r0 by simp
  have "saga_work s' = (\<Sum>r \<leftarrow> sg_rows s. ?f r)"
    using assms(1) by (simp add: saga_work_def moved_def setRowState_def comp_def)
  also have "\<dots> < saga_work s"
    unfolding saga_work_def
    by (rule sum_list_strict_mono_ex) (use st r0 assms(4) in \<open>auto intro!: bexI [of _ r0]\<close>)
  finally show ?thesis .
qed

text \<open>Every recording that reports a change has less left to do.\<close>

lemma record_changed:
  "RecordAllocationSucceeded U c b s = Inr (True, s') \<Longrightarrow> sg_status s = SagaRunning \<and> rowInState b rowPending s"
  "RecordQuantityNotFound U c b rs s = Inr (True, s') \<Longrightarrow> sg_status s = SagaRunning \<and> rowInState b rowPending s"
  "RecordCompensated U c b s = Inr (True, s') \<Longrightarrow> sg_status s = SagaCompensating \<and> rowInState b rowAllocated s"
  by (simp_all add: record_defs split: if_splits)

lemma record_work:
  assumes "uuid_ok U" and "saga_inv U s"
  shows "RecordAllocationSucceeded U c b s = Inr (True, s') \<Longrightarrow> saga_work s' < saga_work s" (is "?A \<Longrightarrow> _")
    and "RecordQuantityNotFound U c b rs s = Inr (True, s') \<Longrightarrow> saga_work s' < saga_work s" (is "?B \<Longrightarrow> _")
    and "RecordCompensated U c b s = Inr (True, s') \<Longrightarrow> saga_work s' < saga_work s" (is "?C \<Longrightarrow> _")
proof -
  note p = saga_inv_MustParse [OF assms]
  have u: "beers_uniform s" using assms(2) by (simp add: saga_inv_def)
  show "saga_work s' < saga_work s" if a: ?A
    using succeeded_moves [OF p record_changed(1) [OF a, THEN conjunct1] record_changed(1) [OF a, THEN conjunct2], of c]
      saga_work_moved [OF _ u record_changed(1) [OF a, THEN conjunct2], of s' rowAllocated] a by auto
  show "saga_work s' < saga_work s" if a: ?B
    using not_found_moves [OF p record_changed(2) [OF a, THEN conjunct1] record_changed(2) [OF a, THEN conjunct2], of c rs]
      saga_work_moved [OF _ u record_changed(2) [OF a, THEN conjunct2], of s' rowFailed] a by auto
  show "saga_work s' < saga_work s" if a: ?C
    using compensated_moves [OF p record_changed(3) [OF a, THEN conjunct1] record_changed(3) [OF a, THEN conjunct2], of c]
      saga_work_moved [OF _ u record_changed(3) [OF a, THEN conjunct2], of s' rowCompensated] a by auto
qed

section \<open>Observations in any order\<close>

text \<open>
  What the runner records: a step that succeeded, a step that failed, a compensation. The
  broker delivers them at least once and in any order; \<open>observe_all\<close> counts the ones that
  changed the saga.
\<close>

datatype observation =
    Succeeded uuid string
  | NotFound uuid string string
  | Compensated uuid string

fun observe :: "uuid_pkg \<Rightarrow> observation \<Rightarrow> OrderAllocationSaga \<Rightarrow> (bool \<times> OrderAllocationSaga) result" where
  "observe U (Succeeded c b) s = RecordAllocationSucceeded U c b s"
| "observe U (NotFound c b reason) s = RecordQuantityNotFound U c b reason s"
| "observe U (Compensated c b) s = RecordCompensated U c b s"

fun observe_all :: "uuid_pkg \<Rightarrow> observation list \<Rightarrow> OrderAllocationSaga \<Rightarrow> (nat \<times> OrderAllocationSaga) result" where
  "observe_all U [] s = Inr (0, s)"
| "observe_all U (x # xs) s =
     (case observe U x s of
        Inl e \<Rightarrow> Inl e
      | Inr (ch, s') \<Rightarrow>
          (case observe_all U xs s' of
             Inl e \<Rightarrow> Inl e
           | Inr (n, s'') \<Rightarrow> Inr ((if ch then 1 else 0) + n, s'')))"

fun awaits :: "observation \<Rightarrow> OrderAllocationSaga \<Rightarrow> bool" where
  "awaits (Succeeded _ b) s \<longleftrightarrow> sg_status s = SagaRunning \<and> rowInState b rowPending s"
| "awaits (NotFound _ b _) s \<longleftrightarrow> sg_status s = SagaRunning \<and> rowInState b rowPending s"
| "awaits (Compensated _ b) s \<longleftrightarrow> sg_status s = SagaCompensating \<and> rowInState b rowAllocated s"

lemma observe_ignored: "\<not> awaits x s \<Longrightarrow> observe U x s = Inr (False, s)"
  by (cases x) (auto simp: record_defs)

lemma moved_leaves: "moved s s' b st \<Longrightarrow> st \<noteq> st' \<Longrightarrow> \<not> rowInState b st' s'"
  by (auto simp: rowInState_def list_ex_iff moved_rows)

lemma observe_awaited:
  assumes "uuid_ok U" and "saga_inv U s" and "awaits x s"
  shows "\<exists>s'. observe U x s = Inr (True, s') \<and> \<not> awaits x s'"
proof (cases x)
  case (Succeeded c b)
  with assms succeeded_moves [OF saga_inv_MustParse [OF assms(1,2)], of b c] show ?thesis
    by (auto dest: moved_leaves [of _ _ _ rowAllocated rowPending])
next
  case (NotFound c b reason)
  with assms not_found_moves [OF saga_inv_MustParse [OF assms(1,2)], of b c reason] show ?thesis
    by (auto dest: moved_leaves [of _ _ _ rowFailed rowPending])
next
  case (Compensated c b)
  with assms compensated_moves [OF saga_inv_MustParse [OF assms(1,2)], of b c] show ?thesis
    by (auto dest: moved_leaves [of _ _ _ rowCompensated rowAllocated])
qed

lemma observe_inv:
  "uuid_ok U \<Longrightarrow> saga_inv U s \<Longrightarrow> observe U x s = Inr (ch, s') \<Longrightarrow> saga_inv U s'"
  by (cases x) (auto intro: saga_inv_succeeded saga_inv_not_found saga_inv_compensated)

text \<open>
  What stays true of a saga once it is true: \<open>saga_steps_keep\<close> is closure under every
  recording that changes something. No row goes back to a state it has left, so an
  observation that was recorded is never awaited again; and a settled saga stays settled.
\<close>

definition saga_steps_keep :: "uuid_pkg \<Rightarrow> (OrderAllocationSaga \<Rightarrow> bool) \<Rightarrow> bool" where
  "saga_steps_keep U P \<longleftrightarrow>
     (\<forall>y g g'. saga_inv U g \<longrightarrow> P g \<longrightarrow> observe U y g = Inr (True, g') \<longrightarrow> P (ClearUncommittedEvents g'))"

fun done_with :: "observation \<Rightarrow> OrderAllocationSaga \<Rightarrow> bool" where
  "done_with (Succeeded _ b) s \<longleftrightarrow> \<not> rowInState b rowPending s"
| "done_with (NotFound _ b _) s \<longleftrightarrow> \<not> rowInState b rowPending s"
| "done_with (Compensated _ b) s \<longleftrightarrow> \<not> rowInState b rowPending s \<and> \<not> rowInState b rowAllocated s"

definition settled :: "OrderAllocationSaga \<Rightarrow> bool" where
  "settled s \<longleftrightarrow> sg_status s = SagaCompleted \<or> sg_status s = SagaRejected"

lemma done_with_ignored: "done_with x s \<Longrightarrow> \<not> awaits x s"
  by (cases x) simp_all

lemma settled_ignored: "settled s \<Longrightarrow> \<not> awaits x s"
  by (cases x) (auto simp: settled_def)

lemma rowInState_cleared [simp]: "rowInState b st (ClearUncommittedEvents s) = rowInState b st s"
  by (simp add: rowInState_def)

lemma done_with_cleared [simp]: "done_with x (ClearUncommittedEvents s) = done_with x s"
  by (cases x) simp_all

lemma observe_moves:
  assumes "uuid_ok U" and "saga_inv U s" and "observe U x s = Inr (True, s')"
  shows "case x of
      Succeeded _ b \<Rightarrow> rowInState b rowPending s \<and> moved s s' b rowAllocated
    | NotFound _ b _ \<Rightarrow> rowInState b rowPending s \<and> moved s s' b rowFailed
    | Compensated _ b \<Rightarrow> rowInState b rowAllocated s \<and> moved s s' b rowCompensated"
proof -
  have aw: "awaits x s" using observe_ignored [of x s U] assms(3) by (cases "awaits x s") auto
  note p = saga_inv_MustParse [OF assms(1,2)]
  show ?thesis
  proof (cases x)
    case (Succeeded c b)
    with aw assms(3) succeeded_moves [OF p, of b c] show ?thesis by auto
  next
    case (NotFound c b rs)
    with aw assms(3) not_found_moves [OF p, of b c rs] show ?thesis by auto
  next
    case (Compensated c b)
    with aw assms(3) compensated_moves [OF p, of b c] show ?thesis by auto
  qed
qed

lemma observe_done:
  assumes "uuid_ok U" and "saga_inv U s" and "observe U x s = Inr (True, s')"
  shows "done_with x s'"
  using observe_moves [OF assms]
proof (cases x)
  case (Compensated c b)
  with observe_moves [OF assms] have "moved s s' b rowCompensated" by simp
  then show ?thesis using Compensated moved_leaves [of s s' b rowCompensated] by simp
next
  case (Succeeded c b)
  with observe_moves [OF assms] have "moved s s' b rowAllocated" by simp
  then show ?thesis using Succeeded moved_leaves [of s s' b rowAllocated] by simp
next
  case (NotFound c b rs)
  with observe_moves [OF assms] have "moved s s' b rowFailed" by simp
  then show ?thesis using NotFound moved_leaves [of s s' b rowFailed] by simp
qed

lemma moved_other:
  assumes "moved s s' b st" and "c \<noteq> b"
  shows "rowInState c st' s' = rowInState c st' s"
proof -
  have "list_ex (\<lambda>r. row_BeerId (row_data r) = c \<and> row_state r = st') (map (upd_row b st) rows) =
      list_ex (\<lambda>r. row_BeerId (row_data r) = c \<and> row_state r = st') rows" for rows
    using assms(2) by (induction rows) (auto simp: upd_row_def)
  with assms(1) show ?thesis by (simp add: rowInState_def moved_def setRowState_def)
qed

lemma moved_keeps_done:
  assumes "moved s s' b st" and "done_with x s" and "st = rowAllocated \<Longrightarrow> rowInState b rowPending s" and "st \<noteq> rowPending"
  shows "done_with x s'"
proof -
  have keep: "\<not> rowInState c st' s'" if "\<not> rowInState c st' s" "c = b \<longrightarrow> st \<noteq> st'" for c st'
    using that moved_other [OF assms(1), of c st'] moved_leaves [OF assms(1), of st'] by (cases "c = b") auto
  show ?thesis using assms(2-4) keep by (cases x) auto
qed

lemma done_with_kept:
  assumes U: "uuid_ok U"
  shows "saga_steps_keep U (done_with x)"
  unfolding saga_steps_keep_def
proof (intro allI impI)
  fix y g g'
  assume inv: "saga_inv U g" and d: "done_with x g" and obs: "observe U y g = Inr (True, g')"
  obtain b st where "moved g g' b st" "st = rowAllocated \<longrightarrow> rowInState b rowPending g" "st \<noteq> rowPending"
    using observe_moves [OF U inv obs] by (cases y) auto
  with moved_keeps_done [OF _ d] show "done_with x (ClearUncommittedEvents g')" by simp
qed

lemma settled_kept: "saga_steps_keep U settled"
  unfolding saga_steps_keep_def
proof (intro allI impI)
  fix y g g'
  assume "settled g" and "observe U y g = Inr (True, g')"
  with observe_ignored [OF settled_ignored [of g y], of U] show "settled (ClearUncommittedEvents g')" by simp
qed

lemma observe_work:
  "uuid_ok U \<Longrightarrow> saga_inv U s \<Longrightarrow> observe U x s = Inr (True, s') \<Longrightarrow> saga_work s' < saga_work s"
  by (cases x) (auto dest: record_work)

lemma observe_total:
  assumes "uuid_ok U" and "saga_inv U s"
  obtains ch s' where "observe U x s = Inr (ch, s')" "saga_inv U s'"
    "(if ch then 1 else 0) + saga_work s' \<le> saga_work s"
proof (cases "awaits x s")
  case True
  with observe_awaited [OF assms] obtain s' where "observe U x s = Inr (True, s')" by blast
  with observe_inv [OF assms] observe_work [OF assms] show thesis by (fastforce intro: that)
next
  case False
  from observe_ignored [OF False, of U] assms(2) show thesis by (intro that [of False s]) auto
qed

lemma observe_all_total:
  assumes "uuid_ok U" and "saga_inv U s"
  shows "\<exists>n s'. observe_all U xs s = Inr (n, s') \<and> saga_inv U s' \<and> n + saga_work s' \<le> saga_work s"
  using assms(2)
proof (induction xs arbitrary: s)
  case (Cons x xs)
  obtain ch s1 where s1: "observe U x s = Inr (ch, s1)" "saga_inv U s1"
    "(if ch then 1 else 0) + saga_work s1 \<le> saga_work s"
    using observe_total [OF assms(1) Cons.prems] .
  from Cons.IH [OF s1(2)] obtain n s' where "observe_all U xs s1 = Inr (n, s')" "saga_inv U s'"
    "n + saga_work s' \<le> saga_work s1" by blast
  with s1 show ?case by auto
qed simp

lemma saga_work_le: "saga_work s \<le> 2 * length (sg_rows s)"
proof -
  have "row_work st \<le> 2" for st by (cases st) auto
  then have "saga_work s \<le> (\<Sum>r \<leftarrow> sg_rows s. 2)"
    unfolding saga_work_def by (intro sum_list_mono) simp
  then show ?thesis by (simp add: sum_list_triv)
qed

lemma StartOrderAllocation_rows [simp]: "length (sg_rows (StartOrderAllocation U i c rows)) = length rows"
  by (simp add: StartOrderAllocation_def msg_defs Let_def)

text \<open>The beers of the rows in a state, which the successes and the compensations use up.\<close>

definition beers_in :: "sagaRowState \<Rightarrow> OrderAllocationSaga \<Rightarrow> string set" where
  "beers_in st s = (\<lambda>r. row_BeerId (row_data r)) ` {r \<in> set (sg_rows s). row_state r = st}"

lemma rowInState_beers_in: "rowInState b st s \<longleftrightarrow> b \<in> beers_in st s"
  by (auto simp: rowInState_def beers_in_def list_ex_iff)

lemma beers_in_moved: "moved s s' b st' \<Longrightarrow> st \<noteq> st' \<Longrightarrow> beers_in st s' = beers_in st s - {b}"
  by (force simp: beers_in_def moved_rows image_iff)

lemma beers_in_empty: "beers_in st s = {} \<longleftrightarrow> \<not> some_row st s"
  by (auto simp: beers_in_def)

lemma observe_succeeded:
  assumes "uuid_ok U" and "saga_inv U s" and "sg_status s \<in> {SagaRunning, SagaCompleted}"
  shows "\<exists>ch s'. RecordAllocationSucceeded U c b s = Inr (ch, s') \<and> saga_inv U s' \<and>
    sg_status s' \<in> {SagaRunning, SagaCompleted} \<and> beers_in rowPending s' = beers_in rowPending s - {b}"
proof (cases "sg_status s = SagaRunning \<and> rowInState b rowPending s")
  case True
  with succeeded_moves [OF saga_inv_MustParse [OF assms(1,2)], of b c] saga_inv_succeeded [OF assms(1,2), of c b]
  show ?thesis by (auto simp: beers_in_moved)
next
  case False
  then have "b \<notin> beers_in rowPending s"
    using assms(2,3) by (auto simp: rowInState_beers_in saga_inv_def beers_in_def)
  with record_ignored(1) [OF False, of U c] assms show ?thesis by auto
qed

lemma observe_compensated:
  assumes "uuid_ok U" and "saga_inv U s" and "sg_status s \<in> {SagaCompensating, SagaRejected}"
  shows "\<exists>ch s'. RecordCompensated U c b s = Inr (ch, s') \<and> saga_inv U s' \<and> sg_reason s' = sg_reason s \<and>
    sg_status s' \<in> {SagaCompensating, SagaRejected} \<and> beers_in rowAllocated s' = beers_in rowAllocated s - {b}"
proof (cases "sg_status s = SagaCompensating \<and> rowInState b rowAllocated s")
  case True
  with compensated_moves [OF saga_inv_MustParse [OF assms(1,2)], of b c] saga_inv_compensated [OF assms(1,2), of c b]
  show ?thesis by (auto simp: beers_in_moved)
next
  case False
  then have "b \<notin> beers_in rowAllocated s"
    using assms(2,3) by (auto simp: rowInState_beers_in saga_inv_def beers_in_def)
  with record_ignored(2) [OF False, of U c] assms show ?thesis by auto
qed

lemma observe_all_succeeded:
  assumes "uuid_ok U" and "saga_inv U s" and "sg_status s \<in> {SagaRunning, SagaCompleted}"
  shows "\<exists>n s'. observe_all U (map (\<lambda>(c, b). Succeeded c b) xs) s = Inr (n, s') \<and> saga_inv U s' \<and>
    sg_status s' \<in> {SagaRunning, SagaCompleted} \<and> beers_in rowPending s' = beers_in rowPending s - snd ` set xs"
  using assms(2,3)
proof (induction xs arbitrary: s)
  case (Cons x xs)
  obtain c b where x: "x = (c, b)" by (cases x)
  obtain ch s1 where s1: "RecordAllocationSucceeded U c b s = Inr (ch, s1)" "saga_inv U s1"
    "sg_status s1 \<in> {SagaRunning, SagaCompleted}" "beers_in rowPending s1 = beers_in rowPending s - {b}"
    using observe_succeeded [OF assms(1) Cons.prems] by blast
  from Cons.IH [OF s1(2,3)] s1(1,4) show ?case by (fastforce simp: x)
qed simp

lemma observe_all_compensated:
  assumes "uuid_ok U" and "saga_inv U s" and "sg_status s \<in> {SagaCompensating, SagaRejected}"
  shows "\<exists>n s'. observe_all U (map (\<lambda>(c, b). Compensated c b) xs) s = Inr (n, s') \<and> saga_inv U s' \<and>
    sg_reason s' = sg_reason s \<and> sg_status s' \<in> {SagaCompensating, SagaRejected} \<and>
    beers_in rowAllocated s' = beers_in rowAllocated s - snd ` set xs"
  using assms(2,3)
proof (induction xs arbitrary: s)
  case (Cons x xs)
  obtain c b where x: "x = (c, b)" by (cases x)
  obtain ch s1 where s1: "RecordCompensated U c b s = Inr (ch, s1)" "saga_inv U s1" "sg_reason s1 = sg_reason s"
    "sg_status s1 \<in> {SagaCompensating, SagaRejected}" "beers_in rowAllocated s1 = beers_in rowAllocated s - {b}"
    using observe_compensated [OF assms(1) Cons.prems] by blast
  from Cons.IH [OF s1(2,4)] s1(1,3,5) show ?case by (fastforce simp: x)
qed simp

lemma saga_inv_completed: "saga_inv U s \<Longrightarrow> sg_status s \<in> {SagaRunning, SagaCompleted} \<Longrightarrow>
    beers_in rowPending s = {} \<Longrightarrow> sg_status s = SagaCompleted"
  by (auto simp: saga_inv_def beers_in_empty)

lemma saga_inv_rejected: "saga_inv U s \<Longrightarrow> sg_status s \<in> {SagaCompensating, SagaRejected} \<Longrightarrow>
    beers_in rowAllocated s = {} \<Longrightarrow> sg_status s = SagaRejected"
  by (auto simp: saga_inv_def beers_in_empty)

section \<open>Properties of the saga\<close>

text \<open>
  C6. The comment on \<open>NextPendingRow\<close>: a running saga always has a next step, because
  completion is raised in the same transition that allocates the last row. In every saga
  that can occur, running means that \<open>NextPendingRow\<close> returns a row that is still pending.
\<close>

theorem running_saga_has_next_step:
  assumes "uuid_ok U" and "saga_reach U s" and "sg_status s = SagaRunning"
  shows "\<exists>r \<in> set (sg_rows s). row_state r = rowPending \<and> NextPendingRow s = (row_data r, True)"
  by (rule saga_inv_next_row [OF saga_reach_inv [OF assms(2,1)] assms(3)])

theorem running_saga_has_next_step_witness:
  "\<exists>r \<in> set (sg_rows (StartOrderAllocation hex_uuid 1 2 [zero_SagaRowData])).
     row_state r = rowPending \<and>
     NextPendingRow (StartOrderAllocation hex_uuid 1 2 [zero_SagaRowData]) = (row_data r, True)"
  by (rule running_saga_has_next_step [OF hex_uuid_ok saga_reach.started])
    (simp add: StartOrderAllocation_def msg_defs Let_def)

text \<open>
  C7. What the final states mean, in every saga that can occur: an order is completed only
  with all its rows allocated, and rejected only after a step failed and with no row left
  allocated; while the saga compensates it still has a row to compensate.
\<close>

theorem saga_outcome_sound:
  assumes "uuid_ok U" and "saga_reach U s"
  shows "(sg_status s = SagaCompleted \<longrightarrow> allRowsIn rowAllocated s) \<and>
    (sg_status s = SagaRejected \<longrightarrow> (\<forall>b. \<not> rowInState b rowAllocated s) \<and> (\<exists>b. rowInState b rowFailed s)) \<and>
    (sg_status s = SagaCompensating \<longrightarrow> RowsToCompensate s \<noteq> [])"
  using saga_reach_inv [OF assms(2,1)]
  by (auto simp: saga_inv_def allRowsIn_def list_all_iff rowInState_def list_ex_iff RowsToCompensate_Nil) blast

theorem saga_outcome_sound_witness:
  "\<exists>s. RecordAllocationSucceeded hex_uuid 3 [] (StartOrderAllocation hex_uuid 1 2 [zero_SagaRowData]) = Inr (True, s) \<and>
     sg_status s = SagaCompleted \<and> length (sg_rows s) = 1 \<and> allRowsIn rowAllocated s"
proof -
  let ?s0 = "StartOrderAllocation hex_uuid 1 2 [zero_SagaRowData]"
  obtain s where s: "RecordAllocationSucceeded hex_uuid 3 [] ?s0 = Inr (True, s)"
    and st: "sg_status s = SagaCompleted" "length (sg_rows s) = 1"
    by (simp add: StartOrderAllocation_def RecordAllocationSucceeded_def msg_defs Let_def rowInState_def allRowsIn_def
        zero_SagaRowData_def setRowState_def uuid_ok_MustParse [OF hex_uuid_ok])
  have "saga_reach hex_uuid s" by (rule saga_reach.succeeded [OF saga_reach.started s])
  from saga_outcome_sound [OF hex_uuid_ok this] s st show ?thesis by blast
qed

text \<open>
  C8. The recordings never panic on a saga that can occur and are idempotent, as the type's
  comment promises: a recording that reports no change leaves the saga as it was, and the
  same observation delivered again changes nothing.
\<close>

theorem record_idempotent:
  assumes "uuid_ok U" and "saga_reach U s"
  shows "\<exists>ch s'. observe U x s = Inr (ch, s') \<and> (\<not> ch \<longrightarrow> s' = s) \<and> observe U x s' = Inr (False, s')"
proof (cases "awaits x s")
  case True
  with observe_awaited [OF assms(1) saga_reach_inv [OF assms(2,1)]] observe_ignored show ?thesis by fastforce
next
  case False
  then show ?thesis using observe_ignored by blast
qed

theorem record_idempotent_witness:
  "\<exists>ch s'. observe hex_uuid (Succeeded 3 []) (StartOrderAllocation hex_uuid 1 2 [zero_SagaRowData]) = Inr (ch, s') \<and>
     (\<not> ch \<longrightarrow> s' = StartOrderAllocation hex_uuid 1 2 [zero_SagaRowData]) \<and>
     observe hex_uuid (Succeeded 3 []) s' = Inr (False, s')"
  by (rule record_idempotent [OF hex_uuid_ok saga_reach.started])

text \<open>
  A settled saga is final: no observation changes a completed or a rejected saga.
\<close>

theorem settled_saga_final:
  "sg_status s \<in> {SagaCompleted, SagaRejected} \<Longrightarrow> observe_all U xs s = Inr (0, s)"
proof (induction xs)
  case (Cons x xs)
  then have "\<not> awaits x s" by (cases x) auto
  from observe_ignored [OF this] Cons show ?case by simp
qed simp

theorem settled_saga_final_witness:
  "observe_all hex_uuid [NotFound 5 ''b'' ''late''] (StartOrderAllocation hex_uuid 1 2 []) =
     Inr (0, StartOrderAllocation hex_uuid 1 2 [])"
  by (rule settled_saga_final) (simp add: StartOrderAllocation_def msg_defs Let_def)

text \<open>
  C9. A saga cannot be driven forever: whatever observations arrive, in whatever order and
  however often, all are recorded without a panic and at most two of them per row of the
  order change anything.
\<close>

theorem saga_transitions_bounded:
  assumes "uuid_ok U"
  shows "\<exists>n s'. observe_all U xs (StartOrderAllocation U orderId commitId rows) = Inr (n, s') \<and> n \<le> 2 * length rows"
proof -
  let ?s = "StartOrderAllocation U orderId commitId rows"
  obtain n s' where n: "observe_all U xs ?s = Inr (n, s')" "n + saga_work s' \<le> saga_work ?s"
    using observe_all_total [OF assms saga_inv_started] by blast
  moreover have "saga_work ?s \<le> 2 * length rows" using saga_work_le [of ?s] by simp
  ultimately have "n \<le> 2 * length rows" by linarith
  with n(1) show ?thesis by blast
qed

theorem saga_transitions_bounded_witness:
  "\<exists>n s'. observe_all hex_uuid [Succeeded 3 [], Succeeded 3 [], NotFound 4 [] ''x'']
     (StartOrderAllocation hex_uuid 1 2 [zero_SagaRowData]) = Inr (n, s') \<and> n \<le> 2 * length [zero_SagaRowData]"
  by (rule saga_transitions_bounded [OF hex_uuid_ok])

text \<open>
  C10. Successes complete the saga in any order: once a success has been observed for the
  beer of every row, in any order, with any repetitions and with any strangers among them,
  the saga is completed.
\<close>

theorem all_allocated_completes:
  assumes "uuid_ok U" and "row_BeerId ` set rows \<subseteq> snd ` set xs"
  shows "\<exists>n s'. observe_all U (map (\<lambda>(c, b). Succeeded c b) xs) (StartOrderAllocation U orderId commitId rows) =
    Inr (n, s') \<and> sg_status s' = SagaCompleted \<and> allRowsIn rowAllocated s'"
proof -
  let ?s = "StartOrderAllocation U orderId commitId rows"
  have s: "saga_inv U ?s" "sg_status ?s \<in> {SagaRunning, SagaCompleted}" "beers_in rowPending ?s \<subseteq> row_BeerId ` set rows"
    using saga_inv_started by (auto simp: StartOrderAllocation_def msg_defs Let_def beers_in_def)
  obtain n s' where s': "observe_all U (map (\<lambda>(c, b). Succeeded c b) xs) ?s = Inr (n, s')" "saga_inv U s'"
    "sg_status s' \<in> {SagaRunning, SagaCompleted}" "beers_in rowPending s' = beers_in rowPending ?s - snd ` set xs"
    using observe_all_succeeded [OF assms(1) s(1,2)] by blast
  have "sg_status s' = SagaCompleted"
    using saga_inv_completed [OF s'(2,3)] s'(4) s(3) assms(2) by auto
  with s'(1,2) show ?thesis by (auto simp: saga_inv_def allRowsIn_def list_all_iff)
qed

theorem all_allocated_completes_witness:
  "\<exists>n s'. observe_all hex_uuid (map (\<lambda>(c, b). Succeeded c b) [(7, ''stranger''), (3, []), (3, [])])
     (StartOrderAllocation hex_uuid 1 2 [zero_SagaRowData]) =
     Inr (n, s') \<and> sg_status s' = SagaCompleted \<and> allRowsIn rowAllocated s'"
  by (rule all_allocated_completes [OF hex_uuid_ok]) (simp add: zero_SagaRowData_def)

text \<open>
  Compensation always ends in rejection: once a compensation has been observed for the
  beer of every row that \<open>RowsToCompensate\<close> lists, in any order and with any repetitions,
  the saga is rejected, with the reason of the step that failed.
\<close>

theorem all_compensated_rejects:
  assumes "uuid_ok U" and "saga_reach U s" and "sg_status s = SagaCompensating"
    and "row_BeerId ` set (RowsToCompensate s) \<subseteq> snd ` set xs"
  shows "\<exists>n s'. observe_all U (map (\<lambda>(c, b). Compensated c b) xs) s = Inr (n, s') \<and>
    sg_status s' = SagaRejected \<and> sg_reason s' = sg_reason s"
proof -
  obtain n s' where s': "observe_all U (map (\<lambda>(c, b). Compensated c b) xs) s = Inr (n, s')" "saga_inv U s'"
    "sg_reason s' = sg_reason s" "sg_status s' \<in> {SagaCompensating, SagaRejected}"
    "beers_in rowAllocated s' = beers_in rowAllocated s - snd ` set xs"
    using observe_all_compensated [OF assms(1) saga_reach_inv [OF assms(2,1)]] assms(3) by blast
  have "beers_in rowAllocated s = row_BeerId ` set (RowsToCompensate s)"
    using assms(3) by (auto simp: beers_in_def RowsToCompensate_def)
  then have "sg_status s' = SagaRejected"
    using saga_inv_rejected [OF s'(2,4)] s'(5) assms(4) by auto
  with s'(1,3) show ?thesis by blast
qed

definition two_rows :: "SagaRowData list" where
  "two_rows = [zero_SagaRowData\<lparr>row_BeerId := ''a''\<rparr>, zero_SagaRowData\<lparr>row_BeerId := ''b''\<rparr>]"

definition half_allocated :: OrderAllocationSaga where
  "half_allocated = (case observe_all hex_uuid [Succeeded 3 ''a'', NotFound 4 ''b'' ''none left'']
     (StartOrderAllocation hex_uuid 1 2 two_rows) of Inr (_, s) \<Rightarrow> s | Inl _ \<Rightarrow> NewOrderAllocationSaga)"

lemma observe_all_reach: "saga_reach U s \<Longrightarrow> observe_all U xs s = Inr (n, s') \<Longrightarrow> saga_reach U s'"
proof (induction xs arbitrary: s n)
  case (Cons x xs)
  then obtain ch s1 m where s1: "observe U x s = Inr (ch, s1)" "observe_all U xs s1 = Inr (m, s')"
    by (auto split: sum.splits)
  have "saga_reach U s1" using Cons.prems(1) s1(1) by (cases x) (auto intro: saga_reach.intros)
  then show ?case using Cons.IH s1(2) by blast
qed simp

theorem all_compensated_rejects_witness:
  "\<exists>n s'. observe_all hex_uuid (map (\<lambda>(c, b). Compensated c b) [(5, ''a''), (5, ''a'')]) half_allocated = Inr (n, s') \<and>
     sg_status s' = SagaRejected \<and> sg_reason s' = sg_reason half_allocated"
proof (rule all_compensated_rejects [OF hex_uuid_ok])
  obtain n s' where n: "observe_all hex_uuid [Succeeded 3 ''a'', NotFound 4 ''b'' ''none left'']
     (StartOrderAllocation hex_uuid 1 2 two_rows) = Inr (n, s')"
    using observe_all_total [OF hex_uuid_ok saga_inv_started] by blast
  from observe_all_reach [OF saga_reach.started n] n show "saga_reach hex_uuid half_allocated"
    by (simp add: half_allocated_def)
qed code_simp+

text \<open>
  C11. An order with two rows of the same beer completes after one of them is allocated:
  \<open>setRowState\<close> marks every row of the beer, so the second row's quantity is never
  requested. Stated for any two rows of one beer, whatever their quantities.
\<close>

theorem duplicate_beer_completes_early:
  assumes "uuid_ok U" and "row_BeerId r1 = row_BeerId r2"
  shows "\<exists>s'. RecordAllocationSucceeded U c (row_BeerId r1) (StartOrderAllocation U orderId commitId [r1, r2]) =
    Inr (True, s') \<and> sg_status s' = SagaCompleted"
  using assms
  by (simp add: RecordAllocationSucceeded_def StartOrderAllocation_def msg_defs rowInState_def allRowsIn_def
      setRowState_def upd_row_def Let_def)

theorem duplicate_beer_completes_early_witness:
  "\<exists>s'. RecordAllocationSucceeded hex_uuid 3 (row_BeerId zero_SagaRowData)
     (StartOrderAllocation hex_uuid 1 2 [zero_SagaRowData, zero_SagaRowData]) =
     Inr (True, s') \<and> sg_status s' = SagaCompleted"
  by (rule duplicate_beer_completes_early [OF hex_uuid_ok]) simp

end
