(* ===== verification/Saga_Runner.thy ===== *)
theory Saga_Runner
  imports Allocation_Saga
begin

text \<open>
  \<^verbatim>\<open>src/internal/warehouses/sagas/order_allocation_saga_handler.go\<close>: the runner of the
  order-allocation saga. It reacts to the integration event of a created order and to the
  step events of the warehouse, records them in the event-sourced saga and drives the next
  step; \<open>ResumeInFlight\<close> and \<open>TimeoutInFlight\<close> supervise unfinished sagas. The state is the
  pair of the event store and what has been put on the wire; the repository is the one
  that \<^verbatim>\<open>src/internal/warehouses/module.go\<close> wires. \<open>now\<close> and \<open>newid\<close> stand for the clock and
  for \<open>uuid.New()\<close>, as sequences where an operation reads them once per saga.
\<close>

section \<open>The runner's operations\<close>

type_synonym 's saga_repository = "('s, warehouse_event, wire list, unit OrderAllocationSaga_ext) EventStoreRepository"

definition saga_repo ::
  "('s, warehouse_event) EventStore \<Rightarrow> (warehouse_event \<Rightarrow> wire list \<Rightarrow> (wire list, unit) outcome) option
     \<Rightarrow> 's saga_repository" where
  "saga_repo es pub =
     \<lparr>repo_store = es, repo_factory = NewOrderAllocationSaga, repo_streamName = SagaStreamName,
      repo_publisher = pub, repo_route = Saga_Route\<rparr>"

definition SalesOrderCreatedTopic :: string where
  "SalesOrderCreatedTopic = ''sales.sales_order_created''"

text \<open>An effect on the wire only.\<close>

definition on_bus :: "('b \<Rightarrow> ('b, 'a) outcome) \<Rightarrow> 's \<times> 'b \<Rightarrow> ('s \<times> 'b, 'a) outcome" where
  "on_bus f w = (case w of (s, b) \<Rightarrow> (case f b of (r, b') \<Rightarrow> (r, (s, b'))))"

definition load :: "uuid_pkg \<Rightarrow> 's saga_repository \<Rightarrow> string \<Rightarrow> 's \<Rightarrow> OrderAllocationSaga option result" where
  "load U R salesOrderId s =
     (if salesOrderId = [] then Inr None
      else case Parse U salesOrderId of
        None \<Rightarrow> Inr None
      | Some orderId \<Rightarrow>
          (case GetByID U R orderId s of
             Inl err \<Rightarrow> if err = ErrAggregateNotFound then Inr None else Inl err
           | Inr saga \<Rightarrow> Inr (Some saga)))"

definition invalid_beer :: "OrderAllocationSaga \<Rightarrow> SagaRowData \<Rightarrow> go_error" where
  "invalid_beer saga row = ErrOther (''saga '' @ sg_salesOrderId saga @ '': invalid beer id '' @ row_BeerId row)"

definition sendNextAllocation ::
  "uuid_pkg \<Rightarrow> network \<Rightarrow> OrderAllocationSaga \<Rightarrow> uuid \<Rightarrow> wire list \<Rightarrow> (wire list, unit) outcome" where
  "sendNextAllocation U net saga commitId sent =
     (let (row, _) = NextPendingRow saga in
      case Parse U (row_BeerId row) of
        None \<Rightarrow> (Inl (invalid_beer saga row), sent)
      | Some beerId \<Rightarrow>
          Send U net (WCommand (NewUpdateAvailabilityDueToSalesOrder beerId commitId (row_BeerName row)
            (NewQuantity (row_Quantity row) (row_UnitOfMeasure row)) (sg_salesOrderId saga))) sent)"

definition sendCompensations ::
  "uuid_pkg \<Rightarrow> network \<Rightarrow> OrderAllocationSaga \<Rightarrow> uuid \<Rightarrow> wire list \<Rightarrow> (wire list, unit) outcome" where
  "sendCompensations U net saga commitId sent =
     for_each (\<lambda>row sent.
       case Parse U (row_BeerId row) of
         None \<Rightarrow> (Inl (invalid_beer saga row), sent)
       | Some beerId \<Rightarrow>
           Send U net (WCommand (NewCompensateAvailabilityDueToFailedAllocation beerId commitId
             (NewQuantity (row_Quantity row) (row_UnitOfMeasure row)) (sg_salesOrderId saga))) sent)
       (RowsToCompensate saga) sent"

definition publishOutcome ::
  "uuid_pkg \<Rightarrow> network \<Rightarrow> OrderAllocationSaga \<Rightarrow> uuid \<Rightarrow> wire list \<Rightarrow> (wire list, unit) outcome" where
  "publishOutcome U net saga commitId sent =
     (if sg_status saga = SagaCompleted
      then PublishIntegrationEvent U net (WIntegration (NewIntOrderAllocationCompleted (sg_salesOrderId saga) commitId)) sent
      else PublishIntegrationEvent U net
             (WIntegration (NewIntOrderAllocationRejected (sg_salesOrderId saga) commitId (sg_reason saga))) sent)"

definition OnSalesOrderCreated ::
  "uuid_pkg \<Rightarrow> network \<Rightarrow> 's saga_repository \<Rightarrow> instant \<Rightarrow> uuid \<Rightarrow> payload
     \<Rightarrow> 's \<times> wire list \<Rightarrow> ('s \<times> wire list, unit) outcome" where
  "OnSalesOrderCreated U net R now newid payload w =
     (case unmarshal_salesOrderCreated U payload of
        Inl err \<Rightarrow> (Inl err, w)
      | Inr message \<Rightarrow>
          (case Parse U (som_SalesOrderId message) of
             None \<Rightarrow> (Inr (), w)
           | Some salesOrderId \<Rightarrow>
               (case GetByID U R salesOrderId (fst w) of
                  Inr _ \<Rightarrow> (Inr (), w)
                | Inl err \<Rightarrow>
                    if err \<noteq> ErrAggregateNotFound then (Inl err, w)
                    else
                      let saga = StartOrderAllocation U salesOrderId (som_CommitId message) (som_Rows message) in
                      case Save U R now saga newid w of
                        (Inl err, w') \<Rightarrow> (Inl err, w')
                      | (Inr saga', w') \<Rightarrow>
                          if sg_status saga' = SagaCompleted
                          then on_bus (publishOutcome U net saga' (som_CommitId message)) w'
                          else on_bus (sendNextAllocation U net saga' (som_CommitId message)) w')))"

text \<open>
  The three step reactions share their shape: load, record, save when something changed,
  then act on the saga that was saved.
\<close>

definition on_step ::
  "uuid_pkg \<Rightarrow> 's saga_repository \<Rightarrow> instant \<Rightarrow> uuid \<Rightarrow> string
     \<Rightarrow> (OrderAllocationSaga \<Rightarrow> (bool \<times> OrderAllocationSaga) result)
     \<Rightarrow> (OrderAllocationSaga \<Rightarrow> wire list \<Rightarrow> (wire list, unit) outcome)
     \<Rightarrow> 's \<times> wire list \<Rightarrow> ('s \<times> wire list, unit) outcome" where
  "on_step U R now newid salesOrderId rec act w =
     (case load U R salesOrderId (fst w) of
        Inl err \<Rightarrow> (Inl err, w)
      | Inr None \<Rightarrow> (Inr (), w)
      | Inr (Some saga) \<Rightarrow>
          (case rec saga of
             Inl err \<Rightarrow> (Inl err, w)
           | Inr (changed, saga1) \<Rightarrow>
               if \<not> changed then (Inr (), w)
               else case Save U R now saga1 newid w of
                      (Inl err, w') \<Rightarrow> (Inl err, w')
                    | (Inr saga2, w') \<Rightarrow> on_bus (act saga2) w'))"

definition OnBeerAvailabilityUpdated ::
  "uuid_pkg \<Rightarrow> network \<Rightarrow> 's saga_repository \<Rightarrow> instant \<Rightarrow> uuid \<Rightarrow> DomainEventBase \<Rightarrow> BeerId \<Rightarrow> string
     \<Rightarrow> 's \<times> wire list \<Rightarrow> ('s \<times> wire list, unit) outcome" where
  "OnBeerAvailabilityUpdated U net R now newid base beerId salesOrderId w =
     on_step U R now newid salesOrderId (RecordAllocationSucceeded U (ev_CommitId base) (UString U beerId))
       (\<lambda>saga. if sg_status saga = SagaCompleted then publishOutcome U net saga (ev_CommitId base)
               else sendNextAllocation U net saga (ev_CommitId base)) w"

definition not_found_reason :: "uuid_pkg \<Rightarrow> BeerId \<Rightarrow> Quantity \<Rightarrow> Quantity \<Rightarrow> string" where
  "not_found_reason U beerId requested available =
     ''beer '' @ UString U beerId @ '': requested '' @ Quantity_String requested @ '', available '' @ Quantity_String available"

definition OnQuantityNotFound ::
  "uuid_pkg \<Rightarrow> network \<Rightarrow> 's saga_repository \<Rightarrow> instant \<Rightarrow> uuid \<Rightarrow> DomainEventBase \<Rightarrow> BeerId \<Rightarrow> string
     \<Rightarrow> Quantity \<Rightarrow> Quantity \<Rightarrow> 's \<times> wire list \<Rightarrow> ('s \<times> wire list, unit) outcome" where
  "OnQuantityNotFound U net R now newid base beerId salesOrderId requested available w =
     on_step U R now newid salesOrderId
       (RecordQuantityNotFound U (ev_CommitId base) (UString U beerId) (not_found_reason U beerId requested available))
       (\<lambda>saga. if sg_status saga = SagaRejected then publishOutcome U net saga (ev_CommitId base)
               else sendCompensations U net saga (ev_CommitId base)) w"

definition OnAvailabilityCompensated ::
  "uuid_pkg \<Rightarrow> network \<Rightarrow> 's saga_repository \<Rightarrow> instant \<Rightarrow> uuid \<Rightarrow> DomainEventBase \<Rightarrow> BeerId \<Rightarrow> string
     \<Rightarrow> 's \<times> wire list \<Rightarrow> ('s \<times> wire list, unit) outcome" where
  "OnAvailabilityCompensated U net R now newid base beerId salesOrderId w =
     on_step U R now newid salesOrderId (RecordCompensated U (ev_CommitId base) (UString U beerId))
       (\<lambda>saga sent. if sg_status saga = SagaRejected then publishOutcome U net saga (ev_CommitId base) sent
                    else (Inr (), sent)) w"

text \<open>The subscriptions of the runner: which handler a step event reaches.\<close>

fun saga_on_event ::
  "uuid_pkg \<Rightarrow> network \<Rightarrow> 's saga_repository \<Rightarrow> instant \<Rightarrow> uuid \<Rightarrow> warehouse_event
     \<Rightarrow> 's \<times> wire list \<Rightarrow> ('s \<times> wire list, unit) outcome" where
  "saga_on_event U net R now newid (BeerAvailabilityUpdated base beerId _ _ salesOrderId) w =
     OnBeerAvailabilityUpdated U net R now newid base beerId salesOrderId w"
| "saga_on_event U net R now newid (QuantityNotFound base beerId salesOrderId requested available) w =
     OnQuantityNotFound U net R now newid base beerId salesOrderId requested available w"
| "saga_on_event U net R now newid (AvailabilityCompensated base beerId _ _ salesOrderId) w =
     OnAvailabilityCompensated U net R now newid base beerId salesOrderId w"
| "saga_on_event U net R now newid _ w = (Inr (), w)"

section \<open>Supervision\<close>

definition drive ::
  "uuid_pkg \<Rightarrow> network \<Rightarrow> OrderAllocationSaga \<Rightarrow> uuid \<Rightarrow> wire list \<Rightarrow> (wire list, unit) outcome" where
  "drive U net saga commitId sent =
     (if sg_status saga = SagaCompensating then sendCompensations U net saga commitId sent
      else sendNextAllocation U net saga commitId sent)"

definition TrimPrefix :: "string \<Rightarrow> string \<Rightarrow> string" where
  "TrimPrefix s p = (if take (length p) s = p then drop (length p) s else s)"

fun inFlight_loop ::
  "uuid_pkg \<Rightarrow> 's saga_repository \<Rightarrow> 's \<Rightarrow> string list \<Rightarrow> OrderAllocationSaga list result" where
  "inFlight_loop U R s [] = Inr []"
| "inFlight_loop U R s (streamID # ids) =
     (case Parse U (TrimPrefix streamID (SagaStreamName @ ''-'')) of
        None \<Rightarrow> inFlight_loop U R s ids
      | Some orderId \<Rightarrow>
          (case GetByID U R orderId s of
             Inl err \<Rightarrow> Inl err
           | Inr saga \<Rightarrow>
               (case inFlight_loop U R s ids of
                  Inl err \<Rightarrow> Inl err
                | Inr sagas \<Rightarrow>
                    Inr (if sg_status saga = SagaRunning \<or> sg_status saga = SagaCompensating then saga # sagas else sagas))))"

definition inFlight :: "uuid_pkg \<Rightarrow> 's saga_repository \<Rightarrow> ('s, warehouse_event) EventStore \<Rightarrow> 's
    \<Rightarrow> OrderAllocationSaga list result" where
  "inFlight U R es s =
     (case es_ListStreams es of
        None \<Rightarrow> Inr []
      | Some ls \<Rightarrow> (case ls SagaStreamName s of Inl err \<Rightarrow> Inl err | Inr ids \<Rightarrow> inFlight_loop U R s ids))"

definition lastActivityOf ::
  "uuid_pkg \<Rightarrow> ('s, warehouse_event) EventStore \<Rightarrow> OrderAllocationSaga \<Rightarrow> 's \<Rightarrow> instant result" where
  "lastActivityOf U es saga s =
     (case MustParse U (sg_salesOrderId saga) of
        Inl p \<Rightarrow> Inl p
      | Inr orderId \<Rightarrow>
          (case es_ReadStream es (SagaStreamName @ ''-'' @ UString U orderId) s of
             Inl err \<Rightarrow> Inl err
           | Inr stored \<Rightarrow>
               if stored = [] then Inl (GoPanic ''index out of range'')
               else Inr (OccurredAt (stored ! (length stored - 1)))))"

definition ResumeInFlight ::
  "uuid_pkg \<Rightarrow> network \<Rightarrow> 's saga_repository \<Rightarrow> ('s, warehouse_event) EventStore \<Rightarrow> (nat \<Rightarrow> uuid)
     \<Rightarrow> 's \<times> wire list \<Rightarrow> ('s \<times> wire list, unit) outcome" where
  "ResumeInFlight U net R es newid w =
     (case inFlight U R es (fst w) of
        Inl err \<Rightarrow> (Inl err, w)
      | Inr sagas \<Rightarrow> for_each (\<lambda>(k, saga). on_bus (drive U net saga (newid k))) (enumerate 0 sagas) w)"

definition timeout_one ::
  "uuid_pkg \<Rightarrow> network \<Rightarrow> 's saga_repository \<Rightarrow> ('s, warehouse_event) EventStore \<Rightarrow> instant \<Rightarrow> instant \<Rightarrow> uuid \<Rightarrow> uuid
     \<Rightarrow> OrderAllocationSaga \<Rightarrow> 's \<times> wire list \<Rightarrow> ('s \<times> wire list, unit) outcome" where
  "timeout_one U net R es cutoff now commitId saveId saga w =
     (case lastActivityOf U es saga (fst w) of
        Inl err \<Rightarrow> (Inl err, w)
      | Inr lastActivity \<Rightarrow>
          if \<not> lastActivity < cutoff then (Inr (), w)
          else if sg_status saga = SagaCompensating then on_bus (sendCompensations U net saga commitId) w
          else
            let (row, _) = NextPendingRow saga in
            case RecordQuantityNotFound U commitId (row_BeerId row) ''allocation step timed out'' saga of
              Inl err \<Rightarrow> (Inl err, w)
            | Inr (_, saga1) \<Rightarrow>
                (case Save U R now saga1 saveId w of
                   (Inl err, w') \<Rightarrow> (Inl err, w')
                 | (Inr saga2, w') \<Rightarrow>
                     if sg_status saga2 = SagaRejected then on_bus (publishOutcome U net saga2 commitId) w'
                     else on_bus (sendCompensations U net saga2 commitId) w'))"

definition TimeoutInFlight ::
  "uuid_pkg \<Rightarrow> network \<Rightarrow> 's saga_repository \<Rightarrow> ('s, warehouse_event) EventStore \<Rightarrow> instant
     \<Rightarrow> (nat \<Rightarrow> instant) \<Rightarrow> (nat \<Rightarrow> uuid) \<Rightarrow> (nat \<Rightarrow> uuid) \<Rightarrow> 's \<times> wire list \<Rightarrow> ('s \<times> wire list, unit) outcome" where
  "TimeoutInFlight U net R es cutoff now newid saveid w =
     (case inFlight U R es (fst w) of
        Inl err \<Rightarrow> (Inl err, w)
      | Inr sagas \<Rightarrow>
          for_each (\<lambda>(k, saga). timeout_one U net R es cutoff (now k) (newid k) (saveid k) saga) (enumerate 0 sagas) w)"

section \<open>Recording as raising events\<close>

definition saga_stream :: "uuid_pkg \<Rightarrow> uuid \<Rightarrow> string" where
  "saga_stream U i = SagaStreamName @ ''-'' @ UString U i"

definition saga_of :: "warehouse_event list \<Rightarrow> OrderAllocationSaga" where
  "saga_of hist = replay Saga_Route NewOrderAllocationSaga hist"

text \<open>
  Every stream under the saga's prefix is the stream of an order, and replaying it gives a
  saga of that order that satisfies the invariant.
\<close>

definition saga_streams_ok :: "uuid_pkg \<Rightarrow> (string \<Rightarrow> warehouse_event list) \<Rightarrow> bool" where
  "saga_streams_ok U h \<longleftrightarrow>
     (\<forall>i. h (saga_stream U i) \<noteq> [] \<longrightarrow>
        saga_inv U (saga_of (h (saga_stream U i))) \<and> ar_id (saga_of (h (saga_stream U i))) = i) \<and>
     (\<forall>sid. h sid \<noteq> [] \<longrightarrow> prefix (SagaStreamName @ ''-'') sid \<longrightarrow> sid \<in> range (saga_stream U))"

lemma saga_streams_okD:
  "saga_streams_ok U h \<Longrightarrow> h (saga_stream U i) \<noteq> [] \<Longrightarrow>
     saga_inv U (saga_of (h (saga_stream U i))) \<and> ar_id (saga_of (h (saga_stream U i))) = i"
  by (simp add: saga_streams_ok_def)

lemma saga_streams_ok_range:
  "saga_streams_ok U h \<Longrightarrow> h sid \<noteq> [] \<Longrightarrow> prefix (SagaStreamName @ ''-'') sid \<Longrightarrow> sid \<in> range (saga_stream U)"
  by (simp add: saga_streams_ok_def)

definition sagas_keep :: "uuid_pkg \<Rightarrow> (string \<Rightarrow> warehouse_event list) \<Rightarrow> (string \<Rightarrow> warehouse_event list) \<Rightarrow> bool" where
  "sagas_keep U h h' \<longleftrightarrow>
     (\<forall>P i. saga_steps_keep U P \<longrightarrow> h (saga_stream U i) \<noteq> [] \<longrightarrow> P (saga_of (h (saga_stream U i))) \<longrightarrow>
        h' (saga_stream U i) \<noteq> [] \<and> P (saga_of (h' (saga_stream U i))))"

lemma sagas_keep_refl: "sagas_keep U h h"
  by (simp add: sagas_keep_def)

lemma sagas_keep_trans: "sagas_keep U h h' \<Longrightarrow> sagas_keep U h' h'' \<Longrightarrow> sagas_keep U h h''"
  unfolding sagas_keep_def by blast

lemma sagas_keepD:
  "sagas_keep U h h' \<Longrightarrow> saga_steps_keep U P \<Longrightarrow> h (saga_stream U i) \<noteq> [] \<Longrightarrow> P (saga_of (h (saga_stream U i))) \<Longrightarrow>
     h' (saga_stream U i) \<noteq> [] \<and> P (saga_of (h' (saga_stream U i)))"
  unfolding sagas_keep_def by blast

lemma saga_stream_inj: "uuid_ok U \<Longrightarrow> saga_stream U i = saga_stream U j \<longleftrightarrow> i = j"
  by (simp add: saga_stream_def uuid_ok_inj)

lemma saga_streams_ok_upd:
  assumes "uuid_ok U" and "saga_streams_ok U h" and "saga_inv U (saga_of hist)" and "ar_id (saga_of hist) = i"
  shows "saga_streams_ok U (h(saga_stream U i := hist))"
  unfolding saga_streams_ok_def
proof (intro conjI allI impI)
  show "sid \<in> range (saga_stream U)"
    if "(h(saga_stream U i := hist)) sid \<noteq> []" "prefix (SagaStreamName @ ''-'') sid" for sid
    using that saga_streams_ok_range [OF assms(2), of sid] by (auto split: if_splits)
next
  fix j
  assume "(h(saga_stream U i := hist)) (saga_stream U j) \<noteq> []"
  then show "saga_inv U (saga_of ((h(saga_stream U i := hist)) (saga_stream U j)))"
    and "ar_id (saga_of ((h(saga_stream U i := hist)) (saga_stream U j))) = j"
    using assms saga_streams_okD [OF assms(2), of j] by (cases "j = i"; simp add: saga_stream_inj)+
qed

lemma saga_repo_fields [simp]:
  "repo_store (saga_repo es pub) = es"
  "repo_factory (saga_repo es pub) = NewOrderAllocationSaga"
  "repo_route (saga_repo es pub) = Saga_Route"
  "repo_publisher (saga_repo es pub) = pub"
  "repo_stream U (saga_repo es pub) i = saga_stream U i"
  by (simp_all add: saga_repo_def repo_stream_def saga_stream_def)

lemma saga_of_uncommitted [simp]: "ar_uncommitted (saga_of hist) = []"
  by (simp add: saga_of_def saga.replay_fields)

lemma saga_loaded: "loaded_as Saga_Route NewOrderAllocationSaga hist (saga_of hist)"
  by (simp add: saga_of_def saga.loaded_as_fresh)

lemma loaded_saga_of:
  "loaded_as Saga_Route NewOrderAllocationSaga hist a \<Longrightarrow> saga_of (hist @ ar_uncommitted a) = ClearUncommittedEvents a"
  using saga.loaded_as_cleared [of NewOrderAllocationSaga] by (simp add: saga_of_def)

lemma observe_loaded:
  assumes "observe U x s = Inr (ch, s')" and "loaded_as Saga_Route f hist s"
  shows "loaded_as Saga_Route f hist s'" and "ch \<Longrightarrow> ar_uncommitted s' \<noteq> []"
  using assms
  by (cases x; auto simp: record_defs Let_def saga.loaded_as_raise saga.raise_fields split: if_splits sum.splits)+

lemma observe_id: "observe U x s = Inr (ch, s') \<Longrightarrow> ar_id s' = ar_id s"
  by (cases x) (auto simp: record_defs msg_defs Let_def split: if_splits sum.splits)

lemma start_loaded:
  "loaded_as Saga_Route NewOrderAllocationSaga [] (StartOrderAllocation U i c rows)"
  "ar_uncommitted (StartOrderAllocation U i c rows) \<noteq> []"
  "ar_id (StartOrderAllocation U i c rows) = i"
proof -
  have "loaded_as Saga_Route NewOrderAllocationSaga [] NewOrderAllocationSaga"
    by (simp add: loaded_as_def)
  then show "loaded_as Saga_Route NewOrderAllocationSaga [] (StartOrderAllocation U i c rows)"
    by (simp add: StartOrderAllocation_def Let_def saga.loaded_as_raise)
  show "ar_uncommitted (StartOrderAllocation U i c rows) \<noteq> []"
    by (simp add: StartOrderAllocation_def Let_def saga.raise_fields)
  show "ar_id (StartOrderAllocation U i c rows) = i"
    by (simp add: StartOrderAllocation_def Let_def msg_defs SetID_def)
qed

lemma on_bus_store [simp]: "fst (snd (on_bus f w)) = fst w"
  by (auto simp: on_bus_def split: prod.splits)

text \<open>The handlers are \<open>on_step\<close> of the observation that their event carries.\<close>

fun step_observation :: "uuid_pkg \<Rightarrow> warehouse_event \<Rightarrow> observation option" where
  "step_observation U (BeerAvailabilityUpdated base beerId _ _ _) = Some (Succeeded (ev_CommitId base) (UString U beerId))"
| "step_observation U (QuantityNotFound base beerId _ requested available) =
     Some (NotFound (ev_CommitId base) (UString U beerId) (not_found_reason U beerId requested available))"
| "step_observation U (AvailabilityCompensated base beerId _ _ _) = Some (Compensated (ev_CommitId base) (UString U beerId))"
| "step_observation U _ = None"

fun step_order :: "warehouse_event \<Rightarrow> string" where
  "step_order (BeerAvailabilityUpdated _ _ _ _ salesOrderId) = salesOrderId"
| "step_order (QuantityNotFound _ _ salesOrderId _ _) = salesOrderId"
| "step_order (AvailabilityCompensated _ _ _ _ salesOrderId) = salesOrderId"
| "step_order _ = []"

lemma saga_on_event_none: "step_observation U e = None \<Longrightarrow> saga_on_event U net R now newid e w = (Inr (), w)"
  by (cases e) simp_all

lemma observe_fun:
  "observe U (Succeeded c b) = RecordAllocationSucceeded U c b"
  "observe U (NotFound c b rs) = RecordQuantityNotFound U c b rs"
  "observe U (Compensated c b) = RecordCompensated U c b"
  by (simp_all add: fun_eq_iff)

lemma saga_on_event_step:
  assumes "step_observation U e = Some x"
  obtains act where "\<And>(R :: 's saga_repository) now newid w. saga_on_event U net R now newid e w =
    on_step U R now newid (step_order e) (observe U x) act w"
  using assms
  by (cases e) (auto simp: OnBeerAvailabilityUpdated_def OnQuantityNotFound_def OnAvailabilityCompensated_def observe_fun)

section \<open>What the runner does to the event store\<close>

lemma trigger_saves:
  assumes "fst (snd (OnSalesOrderCreated U net R now newid p (s, b))) \<noteq> s"
  obtains m :: salesOrderCreatedMessage and i where "GetByID U R i s = Inl ErrAggregateNotFound"
    and "fst (snd (Save U R now (StartOrderAllocation U i (som_CommitId m) (som_Rows m)) newid (s, b))) =
      fst (snd (OnSalesOrderCreated U net R now newid p (s, b)))"
proof -
  from assms obtain m where m: "unmarshal_salesOrderCreated U p = Inr m"
    by (auto simp: OnSalesOrderCreated_def split: sum.splits)
  from assms m obtain i where i: "Parse U (som_SalesOrderId m) = Some i"
    by (auto simp: OnSalesOrderCreated_def split: option.splits)
  from assms m i have g: "GetByID U R i s = Inl ErrAggregateNotFound"
    by (auto simp: OnSalesOrderCreated_def split: sum.splits if_splits)
  show thesis
    by (rule that [of i m]) (auto simp: OnSalesOrderCreated_def m i g Let_def split: sum.splits prod.splits)
qed

locale saga_runner =
  repository "saga_repo es pub" history inv
  for es :: "('s, warehouse_event) EventStore"
    and pub :: "(warehouse_event \<Rightarrow> wire list \<Rightarrow> (wire list, unit) outcome) option"
    and history :: "'s \<Rightarrow> string \<Rightarrow> warehouse_event list" and inv :: "'s \<Rightarrow> bool"
begin

text \<open>
  A save of a saga over its own history, whatever the store and the publisher do: nothing
  is stored or exactly the new events are, and only in the saga's stream.
\<close>

lemma save_saga:
  assumes "inv s" and "loaded_as Saga_Route NewOrderAllocationSaga (history s (saga_stream U (ar_id a))) a"
    and new: "ar_uncommitted a \<noteq> []"
    and run: "Save U (saga_repo es pub) now a cid (s, b) = (r, (s', b'))"
  shows "inv s'"
    and "history s' = history s \<or> history s' =
      (history s)(saga_stream U (ar_id a) := history s (saga_stream U (ar_id a)) @ ar_uncommitted a)"
    and "r = Inr a' \<Longrightarrow> a' = ClearUncommittedEvents a \<and> history s' =
      (history s)(saga_stream U (ar_id a) := history s (saga_stream U (ar_id a)) @ ar_uncommitted a)"
proof -
  let ?sid = "saga_stream U (ar_id a)"
  obtain q t where app: "es_Append es now ?sid (int (length (history s ?sid))) cid (ar_uncommitted a) s = (q, t)"
    by fastforce
  have ev: "ar_version a - int (length (ar_uncommitted a)) = int (length (history s ?sid))"
    using save_expected_version [of "history s ?sid" a] assms(2) by simp
  have "s' = t"
    using Save_store [OF new, of U "saga_repo es pub" now cid s b] app ev run by simp
  then show "inv s'" using append_inv [OF assms(1) new, of now ?sid "int (length (history s ?sid))" cid] app by simp
  show "history s' = history s \<or> history s' = (history s)(?sid := history s ?sid @ ar_uncommitted a)"
    using append_ok [OF assms(1) new] append_failed [OF assms(1) new] app \<open>s' = t\<close> by (cases q) auto
  show "r = Inr a' \<Longrightarrow> a' = ClearUncommittedEvents a \<and> history s' = (history s)(?sid := history s ?sid @ ar_uncommitted a)"
    using save_stored [of s "history s ?sid" a U now cid b a' s' b'] assms by simp
qed

text \<open>
  The saga's streams stay well formed, no other stream is touched, and each saga goes only
  through recordings: it keeps whatever they keep.
\<close>

definition saga_frame :: "uuid_pkg \<Rightarrow> 's \<Rightarrow> 's \<Rightarrow> bool" where
  "saga_frame U s s' \<longleftrightarrow> inv s' \<and> saga_streams_ok U (history s') \<and>
     (\<forall>sid. sid \<notin> range (saga_stream U) \<longrightarrow> history s' sid = history s sid) \<and> sagas_keep U (history s) (history s')"

lemma saga_frame_refl: "inv s \<Longrightarrow> saga_streams_ok U (history s) \<Longrightarrow> saga_frame U s s"
  by (simp add: saga_frame_def sagas_keep_refl)

lemma saga_frame_trans: "saga_frame U s s' \<Longrightarrow> saga_frame U s' s'' \<Longrightarrow> saga_frame U s s''"
  unfolding saga_frame_def using sagas_keep_trans by metis

lemma save_frame:
  assumes "uuid_ok U" and "inv s" and "saga_streams_ok U (history s)"
    and l: "loaded_as Saga_Route NewOrderAllocationSaga (history s (saga_stream U (ar_id a))) a"
    and "saga_inv U a" and new: "ar_uncommitted a \<noteq> []"
    and rec: "history s (saga_stream U (ar_id a)) \<noteq> [] \<Longrightarrow>
      \<exists>y. observe U y (saga_of (history s (saga_stream U (ar_id a)))) = Inr (True, a)"
    and run: "Save U (saga_repo es pub) now a cid (s, b) = (r, (s', b'))"
  shows "saga_frame U s s'"
proof -
  note sv = save_saga [OF assms(2) l new run]
  have "saga_of (history s (saga_stream U (ar_id a)) @ ar_uncommitted a) = ClearUncommittedEvents a"
    by (rule loaded_saga_of [OF l])
  then have "saga_inv U (saga_of (history s (saga_stream U (ar_id a)) @ ar_uncommitted a))"
    and "ar_id (saga_of (history s (saga_stream U (ar_id a)) @ ar_uncommitted a)) = ar_id a"
    using assms(5) by simp_all
  then have ok: "saga_streams_ok U ((history s)(saga_stream U (ar_id a) :=
      history s (saga_stream U (ar_id a)) @ ar_uncommitted a))"
    by (rule saga_streams_ok_upd [OF assms(1,3)])
  from sv(2) show ?thesis
  proof
    assume "history s' = history s"
    with sv(1) assms(3) show ?thesis by (simp add: saga_frame_def sagas_keep_refl)
  next
    assume h: "history s' = (history s)(saga_stream U (ar_id a) := history s (saga_stream U (ar_id a)) @ ar_uncommitted a)"
    have "history s' (saga_stream U i) \<noteq> [] \<and> P (saga_of (history s' (saga_stream U i)))"
      if P: "saga_steps_keep U P" and i: "history s (saga_stream U i) \<noteq> []" "P (saga_of (history s (saga_stream U i)))" for P i
    proof (cases "i = ar_id a")
      case True
      obtain y where y: "observe U y (saga_of (history s (saga_stream U (ar_id a)))) = Inr (True, a)"
        using rec i(1) True by blast
      have "saga_inv U (saga_of (history s (saga_stream U (ar_id a))))"
        using saga_streams_okD [OF assms(3)] i(1) True by blast
      with P y i(2) True have "P (ClearUncommittedEvents a)" unfolding saga_steps_keep_def by blast
      with loaded_saga_of [OF l] new True show ?thesis by (simp add: h)
    next
      case False
      then have "history s' (saga_stream U i) = history s (saga_stream U i)"
        by (simp add: h saga_stream_inj [OF assms(1)])
      with i show ?thesis by simp
    qed
    then have "sagas_keep U (history s) (history s')" unfolding sagas_keep_def by blast
    moreover have "saga_streams_ok U (history s')" using ok unfolding h .
    moreover have "history s' sid = history s sid" if "sid \<notin> range (saga_stream U)" for sid using that h by auto
    ultimately show ?thesis using sv(1) unfolding saga_frame_def by blast
  qed
qed

lemma load_saga:
  assumes "inv s" and "load U (saga_repo es pub) oid s = Inr (Some saga)"
  obtains i where "Parse U oid = Some i" and "history s (saga_stream U i) \<noteq> []"
    and "saga = saga_of (history s (saga_stream U i))"
proof -
  obtain i where i: "Parse U oid = Some i" and g: "GetByID U (saga_repo es pub) i s = Inr saga"
    using assms(2) by (auto simp: load_def split: if_splits option.splits sum.splits)
  show thesis
    by (rule that [OF i]) (use get_replay [OF assms(1) g] in \<open>simp_all add: saga_of_def\<close>)
qed

lemma on_step_frame:
  assumes "uuid_ok U" and "inv s" and "saga_streams_ok U (history s)"
    and run: "on_step U (saga_repo es pub) now newid oid (observe U x) act (s, b) = (r, (s', b'))"
  shows "saga_frame U s s'"
proof (cases "s' = s")
  case False
  from run obtain saga saga1 where ld: "load U (saga_repo es pub) oid s = Inr (Some saga)"
    and rec: "observe U x saga = Inr (True, saga1)"
    and sv: "fst (snd (Save U (saga_repo es pub) now saga1 newid (s, b))) = s'"
    using False by (auto simp: on_step_def on_bus_def split: sum.splits option.splits prod.splits if_splits)
  obtain i where i: "history s (saga_stream U i) \<noteq> []" "saga = saga_of (history s (saga_stream U i))"
    using load_saga [OF assms(2) ld] .
  note ok = saga_streams_okD [OF assms(3) i(1)]
  have "ar_id saga1 = i" using observe_id [OF rec] ok i(2) by simp
  moreover have "saga_inv U saga1" using observe_inv [OF assms(1) _ rec] ok i(2) by simp
  moreover note observe_loaded [OF rec, of NewOrderAllocationSaga "history s (saga_stream U i)"]
  ultimately show ?thesis
    using save_frame [OF assms(1-3), of saga1 now newid b "fst (Save U (saga_repo es pub) now saga1 newid (s, b))"]
      sv i(2) saga_loaded rec by (metis prod.collapse)
qed (simp add: saga_frame_refl assms)

lemma event_frame:
  assumes "uuid_ok U" and "inv s" and "saga_streams_ok U (history s)"
  shows "saga_frame U s (fst (snd (saga_on_event U net (saga_repo es pub) now newid e (s, b))))"
proof (cases "step_observation U e")
  case None
  then show ?thesis by (simp add: saga_on_event_none saga_frame_refl assms)
next
  case (Some x)
  obtain act where "saga_on_event U net (saga_repo es pub) now newid e (s, b) =
      on_step U (saga_repo es pub) now newid (step_order e) (observe U x) act (s, b)"
    using saga_on_event_step [OF Some] by metis
  then show ?thesis using on_step_frame [OF assms] by (metis prod.collapse)
qed

lemma trigger_frame:
  assumes "uuid_ok U" and "inv s" and "saga_streams_ok U (history s)"
  shows "saga_frame U s (fst (snd (OnSalesOrderCreated U net (saga_repo es pub) now newid p (s, b))))"
    (is "saga_frame U s ?s'")
proof (cases "?s' = s")
  case False
  obtain m :: salesOrderCreatedMessage and i where get: "GetByID U (saga_repo es pub) i s = Inl ErrAggregateNotFound"
    and sv: "fst (snd (Save U (saga_repo es pub) now (StartOrderAllocation U i (som_CommitId m) (som_Rows m)) newid (s, b))) = ?s'"
    using trigger_saves [OF False] .
  have "history s (saga_stream U i) = []" using get_not_found [OF assms(2) get] by simp
  with save_frame [OF assms, of "StartOrderAllocation U i (som_CommitId m) (som_Rows m)" now newid b]
    sv start_loaded saga_inv_started show ?thesis by (metis prod.collapse)
qed (simp add: saga_frame_refl assms)

lemma resume_store: "fst (snd (ResumeInFlight U net (saga_repo es pub) es newid (s, b))) = s"
proof -
  have "fst (snd (for_each (\<lambda>(k, saga). on_bus (drive U net saga (newid k))) xs (s, b))) = s" for xs
    by (rule for_each_invariant [where P = "\<lambda>w. fst w = s"]) (auto split: prod.splits)
  then show ?thesis by (auto simp: ResumeInFlight_def split: sum.splits)
qed

end

definition in_flight :: "OrderAllocationSaga \<Rightarrow> bool" where
  "in_flight saga \<longleftrightarrow> sg_status saga = SagaRunning \<or> sg_status saga = SagaCompensating"

abbreviation saga_at :: "uuid_pkg \<Rightarrow> (string \<Rightarrow> warehouse_event list) \<Rightarrow> uuid \<Rightarrow> OrderAllocationSaga" where
  "saga_at U h i \<equiv> saga_of (h (saga_stream U i))"

lemma TrimPrefix_saga: "TrimPrefix (saga_stream U i) (SagaStreamName @ ''-'') = UString U i"
  by (simp add: TrimPrefix_def saga_stream_def)

context saga_runner
begin

lemma inFlight_loop_sagas:
  assumes "uuid_ok U" and "inv s"
    and "inFlight_loop U (saga_repo es pub) s (map (saga_stream U) is) = Inr sagas"
  shows "sagas = filter in_flight (map (saga_at U (history s)) is)"
  using assms(3)
proof (induction "is" arbitrary: sagas)
  case (Cons i "is")
  then obtain saga rest where g: "GetByID U (saga_repo es pub) i s = Inr saga"
    and l: "inFlight_loop U (saga_repo es pub) s (map (saga_stream U) is) = Inr rest"
    and r: "sagas = (if in_flight saga then saga # rest else rest)"
    using assms(1) by (auto simp: TrimPrefix_saga in_flight_def split: sum.splits if_splits)
  have "saga = saga_at U (history s) i" using get_replay(2) [OF assms(2) g] by (simp add: saga_of_def)
  with Cons.IH [OF l] r show ?case by simp
qed simp

lemma inFlight_sagas:
  assumes "uuid_ok U" and "inv s" and "saga_streams_ok U (history s)"
    and "inFlight U (saga_repo es pub) es s = Inr sagas"
  obtains "is" where "distinct is" and "sagas = filter in_flight (map (saga_at U (history s)) is)"
    and "es_ListStreams es \<noteq> None \<Longrightarrow> set is = {i. history s (saga_stream U i) \<noteq> []}"
    and "\<forall>i \<in> set is. history s (saga_stream U i) \<noteq> []"
proof (cases "es_ListStreams es")
  case None
  with assms(4) show thesis by (intro that [of "[]"]) (simp_all add: inFlight_def)
next
  case (Some ls)
  from assms(4) Some obtain ids where ids: "ls SagaStreamName s = Inr ids"
    and loop: "inFlight_loop U (saga_repo es pub) s ids = Inr sagas"
    by (auto simp: inFlight_def split: sum.splits)
  have d: "distinct ids" and st: "set ids = {sid. history s sid \<noteq> [] \<and> prefix (SagaStreamName @ ''-'') sid}"
    using list_streams [OF assms(2), of ls SagaStreamName ids] Some ids by simp_all
  have "set ids \<subseteq> range (saga_stream U)" using saga_streams_ok_range [OF assms(3)] st by auto
  then obtain "is" where i: "ids = map (saga_stream U) is" by (metis ex_map_conv image_eqI rangeE subsetD)
  have s2: "set is = {i. history s (saga_stream U i) \<noteq> []}"
  proof -
    have "i \<in> set is \<longleftrightarrow> saga_stream U i \<in> set ids" for i
      using i by (auto simp: saga_stream_inj [OF assms(1)])
    then show ?thesis by (auto simp: st saga_stream_def)
  qed
  show thesis
  proof (rule that [of "is"])
    show "distinct is" using d i by (simp add: distinct_map)
    show "sagas = filter in_flight (map (saga_at U (history s)) is)"
      using inFlight_loop_sagas [OF assms(1,2)] loop i by simp
  qed (simp_all add: s2)
qed

text \<open>One saga of a sweep: it touches the saga's own stream at most.\<close>

lemma timeout_one_effect:
  assumes "uuid_ok U" and "inv s" and "saga_streams_ok U (history s)"
    and "history s (saga_stream U i) \<noteq> []" and sg: "saga = saga_at U (history s) i" and "in_flight saga"
    and run: "timeout_one U net (saga_repo es pub) es cutoff now cid vid saga (s, b) = (r, (s', b'))"
  shows "saga_frame U s s'"
    and "j \<noteq> i \<Longrightarrow> history s' (saga_stream U j) = history s (saga_stream U j)"
    and "r = Inr () \<Longrightarrow> lastActivityOf U es saga s = Inr t \<Longrightarrow> t < cutoff \<Longrightarrow>
      sg_status (saga_at U (history s') i) \<noteq> SagaRunning"
    and "s' = s \<or> (\<exists>e. s' = snd (es_Append es now (saga_stream U i) (int (length (history s (saga_stream U i)))) vid e s)
        \<and> e \<noteq> [])"
proof -
  have ok: "saga_inv U saga" "ar_id saga = i" using saga_streams_okD [OF assms(3,4)] sg by simp_all
  have "saga_frame U s s' \<and> (j \<noteq> i \<longrightarrow> history s' (saga_stream U j) = history s (saga_stream U j)) \<and>
    (r = Inr () \<longrightarrow> lastActivityOf U es saga s = Inr t \<longrightarrow> t < cutoff \<longrightarrow>
      sg_status (saga_at U (history s') i) \<noteq> SagaRunning) \<and>
    (s' = s \<or> (\<exists>e. s' = snd (es_Append es now (saga_stream U i) (int (length (history s (saga_stream U i)))) vid e s)
        \<and> e \<noteq> []))" (is ?concl)
  proof (cases "\<exists>t. lastActivityOf U es saga s = Inr t \<and> t < cutoff \<and> sg_status saga = SagaRunning")
    case False
    then have "s' = s"
      using run assms(6) unfolding timeout_one_def in_flight_def
      by (auto simp: on_bus_def split: sum.splits prod.splits if_splits)
    with False sg saga_frame_refl [OF assms(2,3)] show ?concl by auto
  next
    case True
    then obtain t0 where t0: "lastActivityOf U es saga s = Inr t0" "t0 < cutoff" and st: "sg_status saga = SagaRunning"
      by blast
    let ?b = "row_BeerId (fst (NextPendingRow saga))" and ?rs = "''allocation step timed out''"
    have "rowInState ?b rowPending saga"
      using saga_inv_next_row [OF ok(1) st] by (auto simp: rowInState_def list_ex_iff)
    then obtain a where a: "RecordQuantityNotFound U cid ?b ?rs saga = Inr (True, a)"
      and ast: "sg_status a \<noteq> SagaRunning"
      using not_found_moves [OF saga_inv_MustParse [OF assms(1) ok(1)] st, of ?b cid ?rs] by (auto split: if_splits)
    have rec: "observe U (NotFound cid ?b ?rs) saga = Inr (True, a)" using a by simp
    have ida: "ar_id a = i" using observe_id [OF rec] ok(2) by simp
    have l: "loaded_as Saga_Route NewOrderAllocationSaga (history s (saga_stream U (ar_id a))) a"
      using observe_loaded(1) [OF rec] saga_loaded sg ida by simp
    have new: "ar_uncommitted a \<noteq> []" using observe_loaded(2) [OF rec saga_loaded [of "history s (saga_stream U i)", folded sg]] by simp
    obtain q t b1 where sv: "Save U (saga_repo es pub) now a vid (s, b) = (q, (t, b1))" by (metis prod.collapse)
    have s': "s' = t" and r: "r = Inr () \<Longrightarrow> \<exists>a'. q = Inr a'"
      using run t0 st a sv unfolding timeout_one_def
      by (auto simp: on_bus_def split: sum.splits prod.splits if_splits)
    have "saga_frame U s s'"
      using save_frame [OF assms(1-3) l observe_inv [OF assms(1) ok(1) rec] new _ sv] s' rec sg ida by blast
    moreover have "j \<noteq> i \<longrightarrow> history s' (saga_stream U j) = history s (saga_stream U j)"
      using save_saga(2) [OF assms(2) l new sv] s' ida by (auto simp: saga_stream_inj [OF assms(1)])
    moreover have "sg_status (saga_at U (history s') i) \<noteq> SagaRunning" if ok_r: "r = Inr ()"
    proof -
      obtain a' where "q = Inr a'" using r [OF ok_r] by blast
      from save_saga(3) [OF assms(2) l new sv this] s' ida
      have "history s' (saga_stream U i) = history s (saga_stream U (ar_id a)) @ ar_uncommitted a" by simp
      then show ?thesis unfolding loaded_saga_of [OF l, folded ida] using loaded_saga_of [OF l] ast by simp
    qed
    moreover have "s' = snd (es_Append es now (saga_stream U i) (int (length (history s (saga_stream U i)))) vid (ar_uncommitted a) s)"
      using Save_store [OF new, of U "saga_repo es pub" now vid s b] sv s' ida
        save_expected_version [of "history s (saga_stream U i)" a] l by simp
    ultimately show ?concl using new by blast
  qed
  then show "saga_frame U s s'" "j \<noteq> i \<Longrightarrow> history s' (saga_stream U j) = history s (saga_stream U j)"
    "r = Inr () \<Longrightarrow> lastActivityOf U es saga s = Inr t \<Longrightarrow> t < cutoff \<Longrightarrow> sg_status (saga_at U (history s') i) \<noteq> SagaRunning"
    "s' = s \<or> (\<exists>e. s' = snd (es_Append es now (saga_stream U i) (int (length (history s (saga_stream U i)))) vid e s)
        \<and> e \<noteq> [])" by blast+
qed

end

text \<open>
  A whole sweep, by induction over the sagas that are left: each is still as it was loaded,
  because the others only touched their own streams.
\<close>

context saga_runner
begin

definition current :: "uuid_pkg \<Rightarrow> 's \<Rightarrow> OrderAllocationSaga \<Rightarrow> bool" where
  "current U s saga \<longleftrightarrow> in_flight saga \<and> history s (saga_stream U (ar_id saga)) \<noteq> [] \<and>
     saga = saga_at U (history s) (ar_id saga)"

lemma timeout_loop_frame:
  assumes "uuid_ok U" and "inv s" and "saga_streams_ok U (history s)"
    and "distinct (map (ar_id \<circ> snd) xs)"
    and "\<forall>x \<in> set xs. current U s (snd x)"
  shows "saga_frame U s (fst (snd (for_each (\<lambda>(k, saga).
    timeout_one U net (saga_repo es pub) es cutoff (now k) (cid k) (vid k) saga) xs (s, b))))"
  using assms(2-5)
proof (induction xs arbitrary: s b)
  case (Cons x xs)
  obtain k saga where x: "x = (k, saga)" by (cases x)
  obtain r s1 b1 where run: "timeout_one U net (saga_repo es pub) es cutoff (now k) (cid k) (vid k) saga (s, b) = (r, (s1, b1))"
    by (metis prod.collapse)
  have sg: "in_flight saga" "history s (saga_stream U (ar_id saga)) \<noteq> []" "saga = saga_at U (history s) (ar_id saga)"
    using Cons.prems(4) x unfolding current_def by auto
  note eff = timeout_one_effect [OF assms(1) Cons.prems(1,2) sg(2,3,1) run]
  have ok1: "inv s1" "saga_streams_ok U (history s1)" using eff(1) by (simp_all add: saga_frame_def)
  have "current U s1 (snd y)" if "y \<in> set xs" for y
  proof -
    have "ar_id (snd y) \<noteq> ar_id saga" using Cons.prems(3) that x by (force simp: image_iff)
    then have h: "history s1 (saga_stream U (ar_id (snd y))) = history s (saga_stream U (ar_id (snd y)))" by (rule eff(2))
    have "current U s (snd y)" using Cons.prems(4) that by simp
    then show ?thesis unfolding current_def h .
  qed
  then have "saga_frame U s1 (fst (snd (for_each (\<lambda>(k, saga).
      timeout_one U net (saga_repo es pub) es cutoff (now k) (cid k) (vid k) saga) xs (s1, b1))))"
    using Cons.IH [OF ok1] Cons.prems(3) x by auto
  with eff(1) run x saga_frame_trans show ?case by (cases r) auto
qed (simp add: saga_frame_refl)

lemma inFlight_current:
  assumes "uuid_ok U" and "inv s" and "saga_streams_ok U (history s)"
    and "inFlight U (saga_repo es pub) es s = Inr sagas"
  shows "distinct (map (ar_id \<circ> snd) (enumerate 0 sagas))"
    and "\<forall>x \<in> set (enumerate 0 sagas). current U s (snd x)"
proof -
  obtain "is" where i: "distinct is" "sagas = filter in_flight (map (saga_at U (history s)) is)"
    "\<forall>i \<in> set is. history s (saga_stream U i) \<noteq> []"
    using inFlight_sagas [OF assms] by metis
  have id: "ar_id (saga_at U (history s) j) = j" if "j \<in> set is" for j
    using saga_streams_okD [OF assms(3)] i(3) that by simp
  have s: "sagas = map (saga_at U (history s)) (filter (in_flight \<circ> saga_at U (history s)) is)"
    using i(2) by (simp add: filter_map)
  have "map ar_id sagas = filter (in_flight \<circ> saga_at U (history s)) is"
    unfolding s map_map by (rule map_idI) (use id in simp)
  then show "distinct (map (ar_id \<circ> snd) (enumerate 0 sagas))" using i(1) by (simp flip: map_map)
  have "current U s g" if "g \<in> set sagas" for g
    using that id i(3) unfolding s current_def by auto
  moreover have "snd x \<in> set sagas" if "x \<in> set (enumerate 0 sagas)" for x
    using that by (metis image_eqI map_snd_enumerate set_map)
  ultimately show "\<forall>x \<in> set (enumerate 0 sagas). current U s (snd x)" by blast
qed

lemma timeout_frame:
  assumes "uuid_ok U" and "inv s" and "saga_streams_ok U (history s)"
  shows "saga_frame U s (fst (snd (TimeoutInFlight U net (saga_repo es pub) es cutoff now cid vid (s, b))))"
proof (cases "inFlight U (saga_repo es pub) es s")
  case (Inl e)
  then show ?thesis by (simp add: TimeoutInFlight_def saga_frame_refl assms)
next
  case (Inr sagas)
  from timeout_loop_frame [OF assms inFlight_current [OF assms Inr]] Inr
  show ?thesis by (simp add: TimeoutInFlight_def)
qed

end

section \<open>The runner on a store without faults\<close>

locale reliable_saga_runner =
  saga_runner es pub history inv + reliable_repository "saga_repo es pub" history inv
  for es :: "('s, warehouse_event) EventStore"
    and pub :: "(warehouse_event \<Rightarrow> wire list \<Rightarrow> (wire list, unit) outcome) option"
    and history :: "'s \<Rightarrow> string \<Rightarrow> warehouse_event list" and inv :: "'s \<Rightarrow> bool"
begin

lemma get_saga:
  "inv s \<Longrightarrow> GetByID U (saga_repo es pub) i s =
     (if history s (saga_stream U i) = [] then Inl ErrAggregateNotFound else Inr (saga_at U (history s) i))"
  using get_total [of s U i] by (simp add: saga_of_def)

lemma load_total:
  "inv s \<Longrightarrow> load U (saga_repo es pub) oid s =
     (if oid = [] then Inr None
      else case Parse U oid of None \<Rightarrow> Inr None
        | Some i \<Rightarrow> Inr (if history s (saga_stream U i) = [] then None else Some (saga_at U (history s) i)))"
  by (auto simp: load_def get_saga split: option.splits)

text \<open>
  A save of a recorded saga always reaches the store; the error it may return comes from
  the publisher.
\<close>

lemma save_recorded:
  assumes "inv s" and l: "loaded_as Saga_Route NewOrderAllocationSaga (history s (saga_stream U (ar_id a))) a"
    and new: "ar_uncommitted a \<noteq> []"
    and run: "Save U (saga_repo es pub) now a cid (s, b) = (r, (s', b'))"
  shows "history s' = (history s)(saga_stream U (ar_id a) := history s (saga_stream U (ar_id a)) @ ar_uncommitted a)"
    and "saga_at U (history s') (ar_id a) = ClearUncommittedEvents a" and "inv s'"
proof -
  obtain t where "es_Append es now (saga_stream U (ar_id a)) (ar_version a - int (length (ar_uncommitted a))) cid (ar_uncommitted a) s = (Inr (), t)"
    and h: "history t = (history s)(saga_stream U (ar_id a) := history s (saga_stream U (ar_id a)) @ ar_uncommitted a)"
    and "inv t"
    using save_current_append [OF assms(1), of U a now cid] l new by auto
  then have "s' = t" "inv t" using Save_store [OF new, of U "saga_repo es pub" now cid s b] run by simp_all
  with h show h': "history s' = (history s)(saga_stream U (ar_id a) := history s (saga_stream U (ar_id a)) @ ar_uncommitted a)"
    and "inv s'" by simp_all
  show "saga_at U (history s') (ar_id a) = ClearUncommittedEvents a"
    unfolding h' using loaded_saga_of [OF l] by simp
qed

lemma on_step_redelivered:
  assumes "uuid_ok U" and "inv s" and "saga_streams_ok U (history s)"
    and run: "on_step U (saga_repo es pub) now newid oid (observe U x) act (s, b) = (r, (s', b'))"
    and "s' \<noteq> s \<or> r = Inr ()"
  shows "on_step U (saga_repo es pub) now2 newid2 oid (observe U x) act2 (s', b2) = (Inr (), (s', b2))"
proof (cases "\<exists>saga. load U (saga_repo es pub) oid s = Inr (Some saga) \<and> awaits x saga")
  case False
  have "on_step U (saga_repo es pub) n i oid (observe U x) ac (s, bb) = (Inr (), (s, bb))" for n i ac bb
    using False observe_ignored [of x _ U]
    by (auto simp: on_step_def load_total [OF assms(2)] split: option.splits if_splits)
  with run show ?thesis by simp
next
  case True
  then obtain saga where ld: "load U (saga_repo es pub) oid s = Inr (Some saga)" and aw: "awaits x saga" by blast
  obtain i where i: "Parse U oid = Some i" "history s (saga_stream U i) \<noteq> []" "saga = saga_at U (history s) i"
    using load_saga [OF assms(2) ld] .
  have ok: "saga_inv U saga" "ar_id saga = i" using saga_streams_okD [OF assms(3) i(2)] i(3) by simp_all
  obtain a where a: "observe U x saga = Inr (True, a)" and na: "\<not> awaits x a"
    using observe_awaited [OF assms(1) ok(1) aw] by blast
  have ida: "ar_id a = i" using observe_id [OF a] ok(2) by simp
  have l: "loaded_as Saga_Route NewOrderAllocationSaga (history s (saga_stream U (ar_id a))) a"
    and new: "ar_uncommitted a \<noteq> []"
    using observe_loaded [OF a saga_loaded [of "history s (saga_stream U i)", folded i(3)]] ida by simp_all
  obtain q t b1 where sv: "Save U (saga_repo es pub) now a newid (s, b) = (q, (t, b1))" by (metis prod.collapse)
  note sr = save_recorded [OF assms(2) l new sv]
  have "s' = t" using run ld a sv by (auto simp: on_step_def on_bus_def split: sum.splits prod.splits)
  moreover have "\<not> awaits x (ClearUncommittedEvents a)" using na by (cases x) (simp_all add: rowInState_def)
  moreover have "oid \<noteq> []" using ld by (auto simp: load_def)
  ultimately show ?thesis
    using i(1) ida sr observe_ignored [of x "ClearUncommittedEvents a" U] new
    by (simp add: on_step_def load_total)
qed

lemma event_redelivered:
  assumes "uuid_ok U" and "inv s" and "saga_streams_ok U (history s)"
    and run: "saga_on_event U net (saga_repo es pub) now newid e (s, b) = (r, (s', b'))"
    and "s' \<noteq> s \<or> r = Inr ()"
  shows "saga_on_event U net2 (saga_repo es pub) now2 newid2 e (s', b2) = (Inr (), (s', b2))"
proof (cases "step_observation U e")
  case None
  then show ?thesis by (simp add: saga_on_event_none)
next
  case (Some x)
  obtain act where act: "saga_on_event U net (saga_repo es pub) now newid e (s, b) =
      on_step U (saga_repo es pub) now newid (step_order e) (observe U x) act (s, b)"
    using saga_on_event_step [OF Some] by metis
  obtain act2 where act2: "saga_on_event U net2 (saga_repo es pub) now2 newid2 e (s', b2) =
      on_step U (saga_repo es pub) now2 newid2 (step_order e) (observe U x) act2 (s', b2)"
    using saga_on_event_step [OF Some] by metis
  show ?thesis
    unfolding act2 by (rule on_step_redelivered [OF assms(1-3)]) (use run act assms(5) in auto)
qed

text \<open>An event that made it into the store is one the saga is done with; the saga ignores what it does not await.\<close>

lemma event_recorded:
  assumes "uuid_ok U" and "inv s" and "saga_streams_ok U (history s)"
    and run: "saga_on_event U net (saga_repo es pub) now newid e (s, b) = (r, (s', b'))" and "s' \<noteq> s"
  obtains x i where "step_observation U e = Some x" and "Parse U (step_order e) = Some i"
    and "history s' (saga_stream U i) \<noteq> []" and "done_with x (saga_at U (history s') i)"
proof (cases "step_observation U e")
  case None
  with run assms(5) show thesis by (simp add: saga_on_event_none)
next
  case (Some x)
  obtain act where "saga_on_event U net (saga_repo es pub) now newid e (s, b) =
      on_step U (saga_repo es pub) now newid (step_order e) (observe U x) act (s, b)"
    using saga_on_event_step [OF Some] by metis
  with run assms(5) obtain saga a where ld: "load U (saga_repo es pub) (step_order e) s = Inr (Some saga)"
    and a: "observe U x saga = Inr (True, a)"
    and sv: "fst (snd (Save U (saga_repo es pub) now a newid (s, b))) = s'"
    by (auto simp: on_step_def on_bus_def split: sum.splits option.splits prod.splits if_splits)
  obtain i where i: "Parse U (step_order e) = Some i" "history s (saga_stream U i) \<noteq> []" "saga = saga_at U (history s) i"
    using load_saga [OF assms(2) ld] .
  have ok: "saga_inv U saga" "ar_id saga = i" using saga_streams_okD [OF assms(3) i(2)] i(3) by simp_all
  have ida: "ar_id a = i" using observe_id [OF a] ok(2) by simp
  have l: "loaded_as Saga_Route NewOrderAllocationSaga (history s (saga_stream U (ar_id a))) a"
    and new: "ar_uncommitted a \<noteq> []"
    using observe_loaded [OF a saga_loaded [of "history s (saga_stream U i)", folded i(3)]] ida by simp_all
  obtain q b1 where "Save U (saga_repo es pub) now a newid (s, b) = (q, (s', b1))" using sv by (metis prod.collapse)
  note sr = save_recorded [OF assms(2) l new this]
  show thesis
    by (rule that [OF Some i(1)]) (use sr(1,2) ida new observe_done [OF assms(1) ok(1) a] in simp_all)
qed

lemma event_ignored:
  assumes "inv s" and "step_observation U e = Some x" and "Parse U (step_order e) = Some i"
    and "history s (saga_stream U i) \<noteq> []" and "\<not> awaits x (saga_at U (history s) i)"
  shows "saga_on_event U net (saga_repo es pub) now newid e (s, b) = (Inr (), (s, b))"
proof -
  obtain act where "saga_on_event U net (saga_repo es pub) now newid e (s, b) =
      on_step U (saga_repo es pub) now newid (step_order e) (observe U x) act (s, b)"
    using saga_on_event_step [OF assms(2)] by metis
  with assms(3-5) observe_ignored [OF assms(5), of U] show ?thesis
    by (simp add: on_step_def load_total [OF assms(1)])
qed

end

context reliable_saga_runner
begin

lemma trigger_redelivered:
  assumes "inv s"
    and run: "OnSalesOrderCreated U net (saga_repo es pub) now newid p (s, b) = (r, (s', b'))"
    and "s' \<noteq> s \<or> r = Inr ()"
  shows "OnSalesOrderCreated U net2 (saga_repo es pub) now2 newid2 p (s', b2) = (Inr (), (s', b2))"
proof (cases "unmarshal_salesOrderCreated U p")
  case (Inl e)
  then show ?thesis using run assms(3) by (auto simp: OnSalesOrderCreated_def)
next
  case m: (Inr m)
  show ?thesis
  proof (cases "Parse U (som_SalesOrderId m)")
    case None
    then show ?thesis by (simp add: OnSalesOrderCreated_def m)
  next
    case (Some i)
    show ?thesis
    proof (cases "history s (saga_stream U i) = []")
      case False
      then show ?thesis using run assms(1) by (auto simp: OnSalesOrderCreated_def m Some get_saga)
    next
      case True
      let ?a = "StartOrderAllocation U i (som_CommitId m) (som_Rows m)"
      obtain q t b1 where sv: "Save U (saga_repo es pub) now ?a newid (s, b) = (q, (t, b1))" by (metis prod.collapse)
      have l: "loaded_as Saga_Route NewOrderAllocationSaga (history s (saga_stream U (ar_id ?a))) ?a"
        using True by (simp add: start_loaded)
      note sr = save_recorded [OF assms(1) l start_loaded(2) sv]
      have "s' = t" using run m Some True assms(1) sv
        by (auto simp: OnSalesOrderCreated_def get_saga Let_def on_bus_def split: sum.splits prod.splits if_splits)
      with sr show ?thesis by (simp add: OnSalesOrderCreated_def m Some get_saga start_loaded)
    qed
  qed
qed

text \<open>The activity of the other sagas does not change while one of them times out.\<close>

lemma lastActivity_frame:
  assumes "uuid_ok U" and "inv s" and "saga_inv U g" and "ar_id g \<noteq> i"
    and "s' = s \<or> (\<exists>e. s' = snd (es_Append es now (saga_stream U i) n vid e s) \<and> e \<noteq> [])"
  shows "lastActivityOf U es g s' = lastActivityOf U es g s"
proof -
  have "es_ReadStream es (saga_stream U (ar_id g)) s' = es_ReadStream es (saga_stream U (ar_id g)) s"
    using assms read_frame [OF assms(2), of _ "saga_stream U (ar_id g)" "saga_stream U i"]
    by (auto simp: saga_stream_inj)
  then show ?thesis
    using saga_inv_MustParse [OF assms(1,3)] by (simp add: lastActivityOf_def saga_stream_def)
qed

lemma timeout_loop_sweeps:
  assumes "uuid_ok U" and "inv s" and "saga_streams_ok U (history s)"
    and "distinct (map (ar_id \<circ> snd) xs)" and "\<forall>x \<in> set xs. current U s (snd x)"
    and "for_each (\<lambda>(k, saga). timeout_one U net (saga_repo es pub) es cutoff (now k) (cid k) (vid k) saga) xs (s, b)
      = (Inr (), (s', b'))"
  shows "(\<forall>x \<in> set xs. \<forall>t. lastActivityOf U es (snd x) s = Inr t \<longrightarrow> t < cutoff \<longrightarrow>
      sg_status (saga_at U (history s') (ar_id (snd x))) \<noteq> SagaRunning) \<and>
    (\<forall>i. i \<notin> (ar_id \<circ> snd) ` set xs \<longrightarrow> history s' (saga_stream U i) = history s (saga_stream U i))"
  using assms(2-6)
proof (induction xs arbitrary: s b)
  case (Cons y ys)
  obtain k saga where y: "y = (k, saga)" by (cases y)
  obtain r s1 b1 where run: "timeout_one U net (saga_repo es pub) es cutoff (now k) (cid k) (vid k) saga (s, b) = (r, (s1, b1))"
    by (metis prod.collapse)
  have sg: "in_flight saga" "history s (saga_stream U (ar_id saga)) \<noteq> []" "saga = saga_at U (history s) (ar_id saga)"
    using Cons.prems(4) y unfolding current_def by auto
  note eff = timeout_one_effect [OF assms(1) Cons.prems(1,2) sg(2,3,1) run]
  have r: "r = Inr ()" and rest: "for_each (\<lambda>(k, saga). timeout_one U net (saga_repo es pub) es cutoff (now k) (cid k) (vid k) saga) ys (s1, b1)
      = (Inr (), (s', b'))"
    using Cons.prems(5) run y by (auto split: sum.splits)
  have ok1: "inv s1" "saga_streams_ok U (history s1)" using eff(1) by (simp_all add: saga_frame_def)
  have ne: "ar_id (snd z) \<noteq> ar_id saga" if "z \<in> set ys" for z
    using Cons.prems(3) that y by (force simp: image_iff)
  have cur: "current U s1 (snd z)" if "z \<in> set ys" for z
  proof -
    have h: "history s1 (saga_stream U (ar_id (snd z))) = history s (saga_stream U (ar_id (snd z)))"
      by (rule eff(2) [OF ne [OF that]])
    have "current U s (snd z)" using Cons.prems(4) that by simp
    then show ?thesis unfolding current_def h .
  qed
  have dist: "distinct (map (ar_id \<circ> snd) ys)" and out: "ar_id saga \<notin> (ar_id \<circ> snd) ` set ys"
    using Cons.prems(3) y by (auto simp: comp_def)
  have IH1: "sg_status (saga_at U (history s') (ar_id (snd z))) \<noteq> SagaRunning"
    if "z \<in> set ys" "lastActivityOf U es (snd z) s1 = Inr t" "t < cutoff" for z t
    using Cons.IH [OF ok1 dist _ rest] cur that by blast
  have IH2: "history s' (saga_stream U i) = history s1 (saga_stream U i)" if "i \<notin> (ar_id \<circ> snd) ` set ys" for i
    using Cons.IH [OF ok1 dist _ rest] cur that by blast
  have y_swept: "sg_status (saga_at U (history s') (ar_id saga)) \<noteq> SagaRunning"
    if "lastActivityOf U es saga s = Inr t" "t < cutoff" for t
    using eff(3) [OF r that] IH2 [OF out] by simp
  have z_swept: "sg_status (saga_at U (history s') (ar_id (snd z))) \<noteq> SagaRunning"
    if "z \<in> set ys" "lastActivityOf U es (snd z) s = Inr t" "t < cutoff" for z t
  proof -
    have "current U s (snd z)" using Cons.prems(4) that(1) by simp
    then have "saga_inv U (snd z)" using saga_streams_okD [OF Cons.prems(2)] unfolding current_def by metis
    from lastActivity_frame [OF assms(1) Cons.prems(1) this ne [OF that(1)] eff(4)] that(2)
    have "lastActivityOf U es (snd z) s1 = Inr t" by simp
    then show ?thesis by (rule IH1 [OF that(1) _ that(3)])
  qed
  have other: "history s' (saga_stream U i) = history s (saga_stream U i)" if "i \<notin> (ar_id \<circ> snd) ` set (y # ys)" for i
    using IH2 [of i] eff(2) [of i] that y by simp
  show ?case using y y_swept z_swept other by auto
qed simp

lemma timeout_sweeps:
  assumes "uuid_ok U" and "inv s" and "saga_streams_ok U (history s)" and "es_ListStreams es \<noteq> None"
    and run: "TimeoutInFlight U net (saga_repo es pub) es cutoff now cid vid (s, b) = (Inr (), (s', b'))"
    and "history s (saga_stream U i) \<noteq> []"
    and "lastActivityOf U es (saga_at U (history s) i) s = Inr t" and "t < cutoff"
  shows "sg_status (saga_at U (history s') i) \<noteq> SagaRunning"
proof -
  obtain sagas where fl: "inFlight U (saga_repo es pub) es s = Inr sagas"
    and loop: "for_each (\<lambda>(k, saga). timeout_one U net (saga_repo es pub) es cutoff (now k) (cid k) (vid k) saga)
      (enumerate 0 sagas) (s, b) = (Inr (), (s', b'))"
    using run by (auto simp: TimeoutInFlight_def split: sum.splits)
  note cur = inFlight_current [OF assms(1-3) fl]
  note sw = timeout_loop_sweeps [OF assms(1-3) cur loop]
  obtain "is" where i: "sagas = filter in_flight (map (saga_at U (history s)) is)"
    "set is = {i. history s (saga_stream U i) \<noteq> []}"
    using inFlight_sagas [OF assms(1-3) fl] assms(4) by metis
  have id: "ar_id (saga_at U (history s) j) = j" if "history s (saga_stream U j) \<noteq> []" for j
    using saga_streams_okD [OF assms(3) that] by simp
  show ?thesis
  proof (cases "in_flight (saga_at U (history s) i)")
    case True
    then have "saga_at U (history s) i \<in> set sagas" using i assms(6) by auto
    then obtain x where "x \<in> set (enumerate 0 sagas)" "snd x = saga_at U (history s) i"
      by (metis imageE map_snd_enumerate set_map)
    with sw assms(7,8) id [OF assms(6)] show ?thesis by metis
  next
    case False
    have "i \<notin> (ar_id \<circ> snd) ` set (enumerate 0 sagas)"
    proof
      assume "i \<in> (ar_id \<circ> snd) ` set (enumerate 0 sagas)"
      then obtain x where x: "x \<in> set (enumerate 0 sagas)" "i = ar_id (snd x)" by auto
      with cur(2) have "in_flight (snd x)" "snd x = saga_at U (history s) i" unfolding current_def by auto
      with False show False by simp
    qed
    with sw have "history s' (saga_stream U i) = history s (saga_stream U i)" by blast
    with False show ?thesis by (auto simp: in_flight_def)
  qed
qed

end

text \<open>
  What driving a saga puts on an open wire: the command of its next row, or one
  compensation per row that still holds stock.
\<close>

definition allocation_wire :: "uuid_pkg \<Rightarrow> OrderAllocationSaga \<Rightarrow> uuid \<Rightarrow> SagaRowData \<Rightarrow> wire" where
  "allocation_wire U saga commitId row =
     command_wire (WCommand (NewUpdateAvailabilityDueToSalesOrder (the (Parse U (row_BeerId row))) commitId (row_BeerName row)
       (NewQuantity (row_Quantity row) (row_UnitOfMeasure row)) (sg_salesOrderId saga)))"

definition compensation_wire :: "uuid_pkg \<Rightarrow> OrderAllocationSaga \<Rightarrow> uuid \<Rightarrow> SagaRowData \<Rightarrow> wire" where
  "compensation_wire U saga commitId row =
     command_wire (WCommand (NewCompensateAvailabilityDueToFailedAllocation (the (Parse U (row_BeerId row))) commitId
       (NewQuantity (row_Quantity row) (row_UnitOfMeasure row)) (sg_salesOrderId saga)))"

definition drive_wires :: "uuid_pkg \<Rightarrow> OrderAllocationSaga \<Rightarrow> uuid \<Rightarrow> wire list" where
  "drive_wires U saga commitId =
     (if sg_status saga = SagaCompensating then map (compensation_wire U saga commitId) (RowsToCompensate saga)
      else [allocation_wire U saga commitId (fst (NextPendingRow saga))])"

definition beers_parse :: "uuid_pkg \<Rightarrow> OrderAllocationSaga \<Rightarrow> bool" where
  "beers_parse U saga \<longleftrightarrow> (\<forall>r \<in> set (sg_rows saga). Parse U (row_BeerId (row_data r)) \<noteq> None)"

lemma for_each_emit:
  assumes "\<And>x b. x \<in> set xs \<Longrightarrow> f x b = (Inr (), b @ g x)"
  shows "for_each f xs b = (Inr (), b @ concat (map g xs))"
  using assms by (induction xs arbitrary: b) simp_all

lemma enumerate_map: "enumerate n (map g xs) = map (\<lambda>(k, x). (k, g x)) (enumerate n xs)"
  by (simp add: enumerate_eq_zip zip_map2)

lemma sendCompensations_open:
  assumes "beers_parse U saga"
  shows "sendCompensations U open_net saga commitId sent =
    (Inr (), sent @ map (compensation_wire U saga commitId) (RowsToCompensate saga))"
proof -
  have "\<forall>row \<in> set (RowsToCompensate saga). Parse U (row_BeerId row) \<noteq> None"
    using assms by (auto simp: beers_parse_def RowsToCompensate_def)
  then have "sendCompensations U open_net saga commitId sent =
      (Inr (), sent @ concat (map (\<lambda>row. [compensation_wire U saga commitId row]) (RowsToCompensate saga)))"
    unfolding sendCompensations_def by (intro for_each_emit) (auto simp: compensation_wire_def)
  then show ?thesis by (simp add: concat_map_singleton)
qed

lemma drive_open:
  assumes "saga_inv U saga" and "in_flight saga" and "beers_parse U saga"
  shows "drive U open_net saga commitId sent = (Inr (), sent @ drive_wires U saga commitId)"
proof (cases "sg_status saga = SagaCompensating")
  case True
  with assms(3) show ?thesis by (simp add: drive_def drive_wires_def sendCompensations_open)
next
  case False
  with assms(2) have "sg_status saga = SagaRunning" by (simp add: in_flight_def)
  from saga_inv_next_row [OF assms(1) this] obtain r where "r \<in> set (sg_rows saga)" "NextPendingRow saga = (row_data r, True)"
    by blast
  with assms(3) False show ?thesis
    by (auto simp: drive_def drive_wires_def sendNextAllocation_def allocation_wire_def beers_parse_def)
qed

context reliable_saga_runner
begin

lemma inFlight_loop_total:
  assumes "uuid_ok U" and "inv s" and "\<forall>i \<in> set is. history s (saga_stream U i) \<noteq> []"
  shows "inFlight_loop U (saga_repo es pub) s (map (saga_stream U) is) =
    Inr (filter in_flight (map (saga_at U (history s)) is))"
  using assms(3)
  by (induction "is") (simp_all add: TrimPrefix_saga assms(1) get_saga [OF assms(2)] in_flight_def)

text \<open>Resuming puts exactly the pending work of every unfinished saga on the wire.\<close>

lemma resume_open:
  assumes "uuid_ok U" and "inv s" and "saga_streams_ok U (history s)"
    and "es_ListStreams es = Some ls" and ids: "ls SagaStreamName s = Inr ids"
    and parse: "\<forall>i. history s (saga_stream U i) \<noteq> [] \<longrightarrow> in_flight (saga_at U (history s) i) \<longrightarrow>
      beers_parse U (saga_at U (history s) i)"
  shows "\<exists>is. distinct is \<and> set is = {i. history s (saga_stream U i) \<noteq> [] \<and> in_flight (saga_at U (history s) i)} \<and>
    ResumeInFlight U open_net (saga_repo es pub) es newid (s, b) =
      (Inr (), (s, b @ concat (map (\<lambda>(k, i). drive_wires U (saga_at U (history s) i) (newid k)) (enumerate 0 is))))"
proof -
  have d: "distinct ids" and st: "set ids = {sid. history s sid \<noteq> [] \<and> prefix (SagaStreamName @ ''-'') sid}"
    using list_streams [OF assms(2), of ls SagaStreamName ids] assms(4,5) by simp_all
  have "set ids \<subseteq> range (saga_stream U)" using saga_streams_ok_range [OF assms(3)] st by auto
  then obtain js where i: "ids = map (saga_stream U) js" by (metis ex_map_conv image_eqI rangeE subsetD)
  have sj: "set js = {i. history s (saga_stream U i) \<noteq> []}"
  proof -
    have "j \<in> set js \<longleftrightarrow> saga_stream U j \<in> set ids" for j using i by (auto simp: saga_stream_inj [OF assms(1)])
    then show ?thesis by (auto simp: st saga_stream_def)
  qed
  let ?g = "saga_at U (history s)"
  define "is" where "is = filter (in_flight \<circ> ?g) js"
  have fl: "inFlight U (saga_repo es pub) es s = Inr (map ?g is)"
    using inFlight_loop_total [OF assms(1,2), of js] sj i assms(4) ids by (simp add: inFlight_def is_def filter_map)
  have drv: "on_bus (drive U open_net (?g j) c) (s, bb) = (Inr (), (s, bb @ drive_wires U (?g j) c))" if "j \<in> set is" for j c bb
  proof -
    have "history s (saga_stream U j) \<noteq> []" "in_flight (?g j)" using that sj by (auto simp: is_def)
    with drive_open [of U "?g j" c bb] parse saga_streams_okD [OF assms(3)] show ?thesis by (simp add: on_bus_def)
  qed
  have "for_each (\<lambda>(k, saga). on_bus (drive U open_net saga (newid k))) (map (\<lambda>(k, j). (k, ?g j)) xs) (s, bb) =
      (Inr (), (s, bb @ concat (map (\<lambda>(k, j). drive_wires U (?g j) (newid k)) xs)))"
    if "snd ` set xs \<subseteq> set is" for xs bb
    using that by (induction xs arbitrary: bb) (auto simp: drv)
  from this [of "enumerate 0 is" b, folded enumerate_map] have "for_each (\<lambda>(k, saga). on_bus (drive U open_net saga (newid k))) (enumerate 0 (map ?g is)) (s, b) =
      (Inr (), (s, b @ concat (map (\<lambda>(k, j). drive_wires U (?g j) (newid k)) (enumerate 0 is))))"
    by (metis map_snd_enumerate order_refl set_map)
  with fl d i sj show ?thesis
    by (intro exI [of _ "is"]) (auto simp: ResumeInFlight_def is_def distinct_map)
qed

end

lemma saga_repository: "event_store es h i \<Longrightarrow> repository (saga_repo es pub) h i"
  by (intro repository.intro repository_axioms.intro) (simp_all add: saga.event_sourced_axioms)

lemma saga_runner_reliable:
  assumes "reliable_event_store es h i"
  shows "reliable_saga_runner es pub h i"
proof -
  have "event_store es h i" using assms by (simp add: reliable_event_store_def)
  with assms show ?thesis
    by (simp add: reliable_saga_runner_def saga_runner_def reliable_repository_def saga_repository)
qed

interpretation mem_saga: reliable_saga_runner in_memory_store pub mem_history store_wf for pub
  by (rule saga_runner_reliable) (rule mem.reliable_event_store_axioms)

end
