(* ===== verification/Availability.thy ===== *)
theory Availability
  imports Service_Bus
begin

text \<open>
  \<^verbatim>\<open>src/internal/warehouses/domain/availability.go\<close>: the event-sourced aggregate that tracks
  how much of one beer the warehouse can sell. The set \<open>held\<close> of the Go map
  \<^verbatim>\<open>map[string]struct{}\<close> remembers the sales orders that currently hold stock.
\<close>

section \<open>State and operations\<close>

definition Availability_StreamName :: string where
  "Availability_StreamName = ''Availability''"

definition ErrInvalidQuantity :: go_error where
  "ErrInvalidQuantity = ErrInvalid ''quantity must be positive''"

record Availability = "warehouse_event AggregateRoot" +
  av_beerId :: BeerId
  av_beerName :: BeerName
  av_quantity :: Quantity
  av_held :: "string set"

definition NewAvailability :: Availability where
  "NewAvailability =
     \<lparr>ar_id = 0, ar_version = 0, ar_uncommitted = [], av_beerId = 0, av_beerName = [],
      av_quantity = zero_Quantity, av_held = {}\<rparr>"

definition applyAvailabilityUpdated :: "BeerId \<Rightarrow> BeerName \<Rightarrow> Quantity \<Rightarrow> Availability \<Rightarrow> Availability" where
  "applyAvailabilityUpdated beerId beerName quantity a =
     (SetID beerId a)\<lparr>av_beerId := beerId, av_beerName := beerName, av_quantity := quantity\<rparr>"

fun Availability_Route :: "warehouse_event \<Rightarrow> Availability \<Rightarrow> Availability" where
  "Availability_Route (AvailabilityUpdatedDueToProductionOrder _ beerId beerName quantity) a =
     applyAvailabilityUpdated beerId beerName quantity a"
| "Availability_Route (BeerAvailabilityUpdated _ beerId beerName quantity salesOrderId) a =
     (let a' = applyAvailabilityUpdated beerId beerName quantity a in
      if salesOrderId \<noteq> [] then a'\<lparr>av_held := insert salesOrderId (av_held a')\<rparr> else a')"
| "Availability_Route (AvailabilityCompensated _ beerId beerName quantity salesOrderId) a =
     (let a' = applyAvailabilityUpdated beerId beerName quantity a in
      a'\<lparr>av_held := av_held a' - {salesOrderId}\<rparr>)"
| "Availability_Route (QuantityNotFound _ beerId _ _ _) a = (SetID beerId a)\<lparr>av_beerId := beerId\<rparr>"
| "Availability_Route _ a = a"

definition CreateAvailability :: "BeerId \<Rightarrow> uuid \<Rightarrow> BeerName \<Rightarrow> Quantity \<Rightarrow> Availability result" where
  "CreateAvailability beerId commitId beerName quantity =
     (if amount quantity \<le> 0 then Inl ErrInvalidQuantity
      else Inr (RaiseEvent Availability_Route
        (NewAvailabilityUpdatedDueToProductionOrder beerId commitId beerName quantity) NewAvailability))"

definition UpdateDueToProductionOrder :: "uuid \<Rightarrow> BeerName \<Rightarrow> Quantity \<Rightarrow> Availability \<Rightarrow> Availability result" where
  "UpdateDueToProductionOrder commitId beerName quantity a =
     (if amount quantity \<le> 0 then Inl ErrInvalidQuantity
      else
        let newTotal = NewQuantity (qValue (av_quantity a) + qValue quantity) (UnitOfMeasure quantity) in
        Inr (RaiseEvent Availability_Route
          (NewAvailabilityUpdatedDueToProductionOrder (av_beerId a) commitId beerName newTotal) a))"

definition UpdateDueToSalesOrder :: "uuid \<Rightarrow> Quantity \<Rightarrow> string \<Rightarrow> Availability \<Rightarrow> Availability result" where
  "UpdateDueToSalesOrder commitId quantity salesOrderId a =
     (if amount quantity \<le> 0 then Inl ErrInvalidQuantity
      else if salesOrderId \<in> av_held a then
        Inr (RaiseEvent Availability_Route
          (NewBeerAvailabilityUpdated (av_beerId a) commitId (av_beerName a) (av_quantity a) salesOrderId) a)
      else if amount quantity > amount (av_quantity a) then
        Inr (RaiseEvent Availability_Route
          (NewQuantityNotFound (av_beerId a) commitId salesOrderId quantity (av_quantity a)) a)
      else
        let remaining = NewQuantity (qValue (av_quantity a) - qValue quantity) (UnitOfMeasure (av_quantity a)) in
        Inr (RaiseEvent Availability_Route
          (NewBeerAvailabilityUpdated (av_beerId a) commitId (av_beerName a) remaining salesOrderId) a))"

definition RefuseUnknownBeer :: "BeerId \<Rightarrow> uuid \<Rightarrow> Quantity \<Rightarrow> string \<Rightarrow> Availability" where
  "RefuseUnknownBeer beerId commitId requested salesOrderId =
     RaiseEvent Availability_Route
       (NewQuantityNotFound beerId commitId salesOrderId requested (NewQuantity 0 (UnitOfMeasure requested)))
       NewAvailability"

definition CompensateDueToFailedAllocation :: "uuid \<Rightarrow> Quantity \<Rightarrow> string \<Rightarrow> Availability \<Rightarrow> Availability result" where
  "CompensateDueToFailedAllocation commitId quantity salesOrderId a =
     (if amount quantity \<le> 0 then Inl ErrInvalidQuantity
      else if salesOrderId \<notin> av_held a then
        Inr (RaiseEvent Availability_Route
          (NewAvailabilityCompensated (av_beerId a) commitId (av_beerName a) (av_quantity a) salesOrderId) a)
      else
        let newTotal = NewQuantity (qValue (av_quantity a) + qValue quantity) (UnitOfMeasure (av_quantity a)) in
        Inr (RaiseEvent Availability_Route
          (NewAvailabilityCompensated (av_beerId a) commitId (av_beerName a) newTotal salesOrderId) a))"

section \<open>The router keeps its contract\<close>

lemma applyAvailabilityUpdated_fields [simp]:
  "ar_version (applyAvailabilityUpdated b n q a) = ar_version a"
  "ar_uncommitted (applyAvailabilityUpdated b n q a) = ar_uncommitted a"
  "ar_id (applyAvailabilityUpdated b n q a) = b"
  "av_beerId (applyAvailabilityUpdated b n q a) = b"
  "av_beerName (applyAvailabilityUpdated b n q a) = n"
  "av_quantity (applyAvailabilityUpdated b n q a) = q"
  "av_held (applyAvailabilityUpdated b n q a) = av_held a"
  by (simp_all add: applyAvailabilityUpdated_def SetID_def)

interpretation avail: event_sourced Availability_Route
proof
  show "ar_version (Availability_Route e a) = ar_version a" for e a
    by (cases e) (simp_all add: Let_def SetID_def)
  show "Availability_Route e (a\<lparr>ar_uncommitted := u\<rparr>) = (Availability_Route e a)\<lparr>ar_uncommitted := u\<rparr>" for e a u
    by (cases e) (simp_all add: Let_def SetID_def applyAvailabilityUpdated_def)
qed

lemma NewAvailability_fields [simp]:
  "ar_uncommitted NewAvailability = []" "ar_version NewAvailability = 0" "av_held NewAvailability = {}"
  "av_quantity NewAvailability = zero_Quantity"
  by (simp_all add: NewAvailability_def)

text \<open>The business state after an event is the router's, whatever the bookkeeping.\<close>

lemma av_apply_fields [simp]:
  "av_quantity (ApplyEvent Availability_Route e a) = av_quantity (Availability_Route e a)"
  "av_held (ApplyEvent Availability_Route e a) = av_held (Availability_Route e a)"
  "av_beerId (ApplyEvent Availability_Route e a) = av_beerId (Availability_Route e a)"
  "av_beerName (ApplyEvent Availability_Route e a) = av_beerName (Availability_Route e a)"
  "ar_id (ApplyEvent Availability_Route e a) = ar_id (Availability_Route e a)"
  by (simp_all add: ApplyEvent_def Let_def)

lemma av_raise_fields [simp]:
  "av_quantity (RaiseEvent Availability_Route e a) = av_quantity (Availability_Route e a)"
  "av_held (RaiseEvent Availability_Route e a) = av_held (Availability_Route e a)"
  "av_beerId (RaiseEvent Availability_Route e a) = av_beerId (Availability_Route e a)"
  "av_beerName (RaiseEvent Availability_Route e a) = av_beerName (Availability_Route e a)"
  "ar_id (RaiseEvent Availability_Route e a) = ar_id (Availability_Route e a)"
  by (simp_all add: RaiseEvent_def Let_def)

lemmas availability_ops =
  CreateAvailability_def UpdateDueToProductionOrder_def UpdateDueToSalesOrder_def
  CompensateDueToFailedAllocation_def RefuseUnknownBeer_def

section \<open>The stock ledger: what the aggregate promises\<close>

text \<open>
  The specification: a ledger of everything produced and of the quantity each sales order
  holds. What can be sold is the difference. Producing adds; allocating to an order that
  already holds stock, or more than is available, changes nothing; releasing gives the
  order's quantity back.
\<close>

record ledger =
  produced :: int
  alloc :: "string \<rightharpoonup> int"

definition available :: "ledger \<Rightarrow> int" where
  "available l = produced l - (\<Sum>k \<in> dom (alloc l). the (alloc l k))"

definition ledger_produce :: "int \<Rightarrow> ledger \<Rightarrow> ledger" where
  "ledger_produce q l = l\<lparr>produced := produced l + q\<rparr>"

definition ledger_allocate :: "string \<Rightarrow> int \<Rightarrow> ledger \<Rightarrow> ledger" where
  "ledger_allocate order q l =
     (if order \<in> dom (alloc l) \<or> q > available l then l else l\<lparr>alloc := (alloc l)(order \<mapsto> q)\<rparr>)"

definition ledger_release :: "string \<Rightarrow> ledger \<Rightarrow> ledger" where
  "ledger_release order l = l\<lparr>alloc := (alloc l)(order := None)\<rparr>"

definition refines :: "Availability \<Rightarrow> ledger \<Rightarrow> bool" where
  "refines a l \<longleftrightarrow> finite (dom (alloc l)) \<and> av_held a = dom (alloc l) \<and>
     amount (av_quantity a) = available l \<and> 0 \<le> available l \<and>
     (\<forall>q \<in> ran (alloc l). 0 < q) \<and> produced l \<le> max_int"

lemma available_simps:
  "available (ledger_produce q l) = available l + q"
  "finite (dom (alloc l)) \<Longrightarrow> order \<notin> dom (alloc l) \<Longrightarrow>
     available (l\<lparr>alloc := (alloc l)(order \<mapsto> q)\<rparr>) = available l - q"
  "finite (dom (alloc l)) \<Longrightarrow> alloc l order = Some q \<Longrightarrow> available (ledger_release order l) = available l + q"
proof -
  show "available (ledger_produce q l) = available l + q"
    by (simp add: available_def ledger_produce_def)
  show "available (l\<lparr>alloc := (alloc l)(order \<mapsto> q)\<rparr>) = available l - q"
    if "finite (dom (alloc l))" "order \<notin> dom (alloc l)"
  proof -
    have "(\<Sum>k \<in> dom (alloc l). the (((alloc l)(order \<mapsto> q)) k)) = (\<Sum>k \<in> dom (alloc l). the (alloc l k))"
      by (rule sum.cong) (use that in auto)
    with that show ?thesis by (simp add: available_def)
  qed
  show "available (ledger_release order l) = available l + q"
    if fin: "finite (dom (alloc l))" and held: "alloc l order = Some q"
  proof -
    have "(\<Sum>k \<in> dom (alloc l) - {order}. the (((alloc l)(order := None)) k)) =
        (\<Sum>k \<in> dom (alloc l) - {order}. the (alloc l k))"
      by (rule sum.cong) auto
    moreover have "(\<Sum>k \<in> dom (alloc l). the (alloc l k)) = q + (\<Sum>k \<in> dom (alloc l) - {order}. the (alloc l k))"
      using sum.remove [OF fin, of order "\<lambda>k. the (alloc l k)"] held by (simp add: domIff)
    ultimately show ?thesis by (simp add: available_def ledger_release_def)
  qed
qed

lemma available_le_produced:
  "\<forall>q \<in> ran (alloc l). 0 < q \<Longrightarrow> available l \<le> produced l"
proof -
  assume pos: "\<forall>q \<in> ran (alloc l). 0 < q"
  have "0 \<le> (\<Sum>k \<in> dom (alloc l). the (alloc l k))"
    by (rule sum_nonneg) (use pos in \<open>force simp: ran_def\<close>)
  then show ?thesis by (simp add: available_def)
qed

lemma refines_NewAvailability: "refines NewAvailability \<lparr>produced = 0, alloc = Map.empty\<rparr>"
  by (simp add: refines_def available_def zero_Quantity_def max_int_def)

lemma refines_produce:
  assumes "refines a l" and "0 < amount q" and "produced l + amount q \<le> max_int"
  shows "\<exists>a'. UpdateDueToProductionOrder c n q a = Inr a' \<and> refines a' (ledger_produce (amount q) l)"
proof -
  have avl: "0 \<le> available l" "available l \<le> produced l" "amount (av_quantity a) = available l"
    using assms(1) available_le_produced by (auto simp: refines_def)
  then have "sint (qValue (av_quantity a) + qValue q) = available l + amount q"
    using assms(2,3) by (subst sint_add_exact) auto
  then show ?thesis
    using assms avl unfolding refines_def available_simps
    by (simp add: UpdateDueToProductionOrder_def msg_defs ledger_produce_def)
qed

lemma refines_allocate:
  assumes "refines a l" and "0 < amount q" and "order \<noteq> []"
  shows "\<exists>a'. UpdateDueToSalesOrder c q order a = Inr a' \<and> refines a' (ledger_allocate order (amount q) l)"
proof -
  have r: "finite (dom (alloc l))" "av_held a = dom (alloc l)" "amount (av_quantity a) = available l"
    "0 \<le> available l" "\<forall>q \<in> ran (alloc l). 0 < q" "produced l \<le> max_int"
    using assms(1) by (auto simp: refines_def)
  consider (held) "order \<in> dom (alloc l)" | (short) "order \<notin> dom (alloc l)" "amount q > available l"
    | (take) "order \<notin> dom (alloc l)" "amount q \<le> available l" by force
  then show ?thesis
  proof cases
    case held
    with r assms(2,3) show ?thesis
      by (simp add: UpdateDueToSalesOrder_def ledger_allocate_def refines_def msg_defs insert_absorb)
  next
    case short
    with r assms(2) show ?thesis
      by (simp add: UpdateDueToSalesOrder_def ledger_allocate_def refines_def msg_defs SetID_def)
  next
    case take
    have "sint (qValue (av_quantity a) - qValue q) = available l - amount q"
      using take r assms(2) by (subst sint_sub_in_range) auto
    with take r assms(2,3) show ?thesis
      by (simp add: UpdateDueToSalesOrder_def ledger_allocate_def refines_def msg_defs
          available_simps ran_map_upd domIff)
  qed
qed

lemma refines_release:
  assumes "refines a l" and "0 < amount q" and "\<forall>q'. alloc l order = Some q' \<longrightarrow> q' = amount q"
  shows "\<exists>a'. CompensateDueToFailedAllocation c q order a = Inr a' \<and> refines a' (ledger_release order l)"
proof -
  have r: "finite (dom (alloc l))" "av_held a = dom (alloc l)" "amount (av_quantity a) = available l"
    "0 \<le> available l" "\<forall>q \<in> ran (alloc l). 0 < q" "produced l \<le> max_int"
    using assms(1) by (auto simp: refines_def)
  have ran: "\<forall>q \<in> ran ((alloc l)(order := None)). 0 < q"
    using r(5) by (auto simp: ran_def)
  show ?thesis
  proof (cases "order \<in> dom (alloc l)")
    case True
    then have held: "alloc l order = Some (amount q)" using assms(3) by auto
    have av': "available (ledger_release order l) = available l + amount q"
      by (rule available_simps(3) [OF r(1) held])
    moreover have "available (ledger_release order l) \<le> produced (ledger_release order l)"
      by (rule available_le_produced) (use ran in \<open>simp add: ledger_release_def\<close>)
    ultimately have "sint (qValue (av_quantity a) + qValue q) = available l + amount q"
      using r assms(2) by (subst sint_add_exact) (auto simp: ledger_release_def)
    with True r assms(2) av' ran show ?thesis
      by (simp add: CompensateDueToFailedAllocation_def refines_def msg_defs ledger_release_def)
  next
    case False
    then have "ledger_release order l = l"
      by (simp add: ledger_release_def fun_upd_idem domIff)
    with False r assms(2) show ?thesis
      by (simp add: CompensateDueToFailedAllocation_def refines_def msg_defs)
  qed
qed

end
