(* ===== verification/Warehouse_Handlers.thy ===== *)
theory Warehouse_Handlers
  imports Availability
begin

text \<open>
  \<^verbatim>\<open>src/internal/warehouses/domain/commandhandlers/handlers.go\<close>: the three command handlers of
  the Warehouses module over the availability repository that
  \<^verbatim>\<open>src/internal/warehouses/module.go\<close> wires. A handler takes the clock reading \<open>now\<close> and the
  fresh identifier \<open>newid\<close> that it obtains from \<open>uuid.New()\<close>, and works on the pair of the
  event store and what has been published. \<open>decide\<close> is the specification of the handlers in
  the given/when/expect style of the program's own tests: the events a command adds to a
  history.
\<close>

section \<open>The handlers\<close>

definition availability_repo ::
  "('s, warehouse_event) EventStore \<Rightarrow> (warehouse_event \<Rightarrow> 'b \<Rightarrow> ('b, unit) outcome) option
     \<Rightarrow> ('s, warehouse_event, 'b, unit Availability_ext) EventStoreRepository" where
  "availability_repo es pub =
     \<lparr>repo_store = es, repo_factory = NewAvailability, repo_streamName = Availability_StreamName,
      repo_publisher = pub, repo_route = Availability_Route\<rparr>"

definition discard :: "('w, 'a) outcome \<Rightarrow> ('w, unit) outcome" where
  "discard r = (case r of (Inl e, w) \<Rightarrow> (Inl e, w) | (Inr _, w) \<Rightarrow> (Inr (), w))"

lemma snd_discard [simp]: "snd (discard r) = snd r"
  by (auto simp: discard_def split: prod.splits sum.splits)

type_synonym ('s, 'b) availability_repository = "('s, warehouse_event, 'b, unit Availability_ext) EventStoreRepository"

definition Handle_UpdateAvailabilityDueToProductionOrder ::
  "uuid_pkg \<Rightarrow> ('s, 'b) availability_repository \<Rightarrow> instant \<Rightarrow> uuid
     \<Rightarrow> CommandBase \<Rightarrow> BeerId \<Rightarrow> BeerName \<Rightarrow> Quantity \<Rightarrow> 's \<times> 'b \<Rightarrow> ('s \<times> 'b, unit) outcome" where
  "Handle_UpdateAvailabilityDueToProductionOrder U R now newid base beerId beerName quantity w =
     (case GetByID U R (cmd_AggregateId base) (fst w) of
        Inl err \<Rightarrow>
          if err \<noteq> ErrAggregateNotFound then (Inl err, w)
          else (case CreateAvailability beerId (cmd_CommitId base) beerName quantity of
                  Inl err \<Rightarrow> (Inl err, w)
                | Inr aggregate \<Rightarrow> discard (Save U R now aggregate newid w))
      | Inr aggregate \<Rightarrow>
          (case UpdateDueToProductionOrder (cmd_CommitId base) beerName quantity aggregate of
             Inl err \<Rightarrow> (Inl err, w)
           | Inr aggregate' \<Rightarrow> discard (Save U R now aggregate' newid w)))"

definition Handle_UpdateAvailabilityDueToSalesOrder ::
  "uuid_pkg \<Rightarrow> ('s, 'b) availability_repository \<Rightarrow> instant \<Rightarrow> uuid
     \<Rightarrow> CommandBase \<Rightarrow> BeerId \<Rightarrow> BeerName \<Rightarrow> Quantity \<Rightarrow> string \<Rightarrow> 's \<times> 'b \<Rightarrow> ('s \<times> 'b, unit) outcome" where
  "Handle_UpdateAvailabilityDueToSalesOrder U R now newid base beerId beerName quantity salesOrderId w =
     (case GetByID U R (cmd_AggregateId base) (fst w) of
        Inl err \<Rightarrow>
          if err \<noteq> ErrAggregateNotFound then (Inl err, w)
          else discard (Save U R now (RefuseUnknownBeer beerId (cmd_CommitId base) quantity salesOrderId) newid w)
      | Inr aggregate \<Rightarrow>
          (case UpdateDueToSalesOrder (cmd_CommitId base) quantity salesOrderId aggregate of
             Inl err \<Rightarrow> (Inl err, w)
           | Inr aggregate' \<Rightarrow> discard (Save U R now aggregate' newid w)))"

definition Handle_CompensateAvailabilityDueToFailedAllocation ::
  "uuid_pkg \<Rightarrow> ('s, 'b) availability_repository \<Rightarrow> instant \<Rightarrow> uuid
     \<Rightarrow> CommandBase \<Rightarrow> BeerId \<Rightarrow> Quantity \<Rightarrow> string \<Rightarrow> 's \<times> 'b \<Rightarrow> ('s \<times> 'b, unit) outcome" where
  "Handle_CompensateAvailabilityDueToFailedAllocation U R now newid base beerId quantity salesOrderId w =
     (case GetByID U R (cmd_AggregateId base) (fst w) of
        Inl err \<Rightarrow> (Inl err, w)
      | Inr aggregate \<Rightarrow>
          (case CompensateDueToFailedAllocation (cmd_CommitId base) quantity salesOrderId aggregate of
             Inl err \<Rightarrow> (Inl err, w)
           | Inr aggregate' \<Rightarrow> discard (Save U R now aggregate' newid w)))"

text \<open>Each command type has its single handler (\<open>RegisterCommandHandler\<close> in the module's wiring).\<close>

fun warehouse_handle ::
  "uuid_pkg \<Rightarrow> ('s, 'b) availability_repository \<Rightarrow> instant \<Rightarrow> uuid \<Rightarrow> warehouse_command
     \<Rightarrow> 's \<times> 'b \<Rightarrow> ('s \<times> 'b, unit) outcome" where
  "warehouse_handle U R now newid (UpdateAvailabilityDueToProductionOrder base beerId beerName quantity) w =
     Handle_UpdateAvailabilityDueToProductionOrder U R now newid base beerId beerName quantity w"
| "warehouse_handle U R now newid (UpdateAvailabilityDueToSalesOrder base beerId beerName quantity salesOrderId) w =
     Handle_UpdateAvailabilityDueToSalesOrder U R now newid base beerId beerName quantity salesOrderId w"
| "warehouse_handle U R now newid (CompensateAvailabilityDueToFailedAllocation base beerId quantity salesOrderId) w =
     Handle_CompensateAvailabilityDueToFailedAllocation U R now newid base beerId quantity salesOrderId w"

lemmas handler_defs =
  Handle_UpdateAvailabilityDueToProductionOrder_def Handle_UpdateAvailabilityDueToSalesOrder_def
  Handle_CompensateAvailabilityDueToFailedAllocation_def

section \<open>The handlers' specification: the events a command adds to a history\<close>

definition stock :: "warehouse_event list \<Rightarrow> Availability" where
  "stock hist = replay Availability_Route NewAvailability hist"

fun decide :: "warehouse_command \<Rightarrow> warehouse_event list \<Rightarrow> Availability result" where
  "decide (UpdateAvailabilityDueToProductionOrder base beerId beerName quantity) hist =
     (if hist = [] then CreateAvailability beerId (cmd_CommitId base) beerName quantity
      else UpdateDueToProductionOrder (cmd_CommitId base) beerName quantity (stock hist))"
| "decide (UpdateAvailabilityDueToSalesOrder base beerId beerName quantity salesOrderId) hist =
     (if hist = [] then Inr (RefuseUnknownBeer beerId (cmd_CommitId base) quantity salesOrderId)
      else UpdateDueToSalesOrder (cmd_CommitId base) quantity salesOrderId (stock hist))"
| "decide (CompensateAvailabilityDueToFailedAllocation base beerId quantity salesOrderId) hist =
     (if hist = [] then Inl ErrAggregateNotFound
      else CompensateDueToFailedAllocation (cmd_CommitId base) quantity salesOrderId (stock hist))"

definition availability_stream :: "uuid_pkg \<Rightarrow> BeerId \<Rightarrow> string" where
  "availability_stream U b = Availability_StreamName @ ''-'' @ UString U b"

text \<open>
  Commands come from their constructors, which set the aggregate identifier to the beer's;
  the events of a beer's stream are about that beer, and every stream under the prefix of
  the availabilities is the stream of a beer.
\<close>

definition command_ok :: "warehouse_command \<Rightarrow> bool" where
  "command_ok c \<longleftrightarrow> cmd_AggregateId (wc_base c) = wc_BeerId c"

fun event_beer :: "warehouse_event \<Rightarrow> BeerId option" where
  "event_beer (AvailabilityUpdatedDueToProductionOrder _ b _ _) = Some b"
| "event_beer (BeerAvailabilityUpdated _ b _ _ _) = Some b"
| "event_beer (QuantityNotFound _ b _ _ _) = Some b"
| "event_beer (AvailabilityCompensated _ b _ _ _) = Some b"
| "event_beer _ = None"

definition beer_streams_ok :: "uuid_pkg \<Rightarrow> (string \<Rightarrow> warehouse_event list) \<Rightarrow> bool" where
  "beer_streams_ok U h \<longleftrightarrow>
     (\<forall>b. \<forall>e \<in> set (h (availability_stream U b)). event_beer e = Some b) \<and>
     (\<forall>sid. h sid \<noteq> [] \<longrightarrow> prefix (Availability_StreamName @ ''-'') sid \<longrightarrow> sid \<in> range (availability_stream U))"

lemma beer_streams_okD: "beer_streams_ok U h \<Longrightarrow> e \<in> set (h (availability_stream U b)) \<Longrightarrow> event_beer e = Some b"
  by (simp add: beer_streams_ok_def)

lemma beer_streams_ok_range:
  "beer_streams_ok U h \<Longrightarrow> h sid \<noteq> [] \<Longrightarrow> prefix (Availability_StreamName @ ''-'') sid \<Longrightarrow> sid \<in> range (availability_stream U)"
  by (simp add: beer_streams_ok_def)

lemma beer_streams_ok_upd:
  assumes "uuid_ok U" and "beer_streams_ok U h" and "event_beer e = Some b"
  shows "beer_streams_ok U (h(availability_stream U b := h (availability_stream U b) @ [e]))"
  using assms by (auto simp: beer_streams_ok_def availability_stream_def uuid_ok_inj)

lemma stock_Nil [simp]: "stock [] = NewAvailability"
  by (simp add: stock_def)

lemma stock_uncommitted [simp]: "ar_uncommitted (stock hist) = []"
  by (simp add: stock_def avail.replay_fields)

lemma stock_ids:
  assumes "hist \<noteq> []" and "\<forall>e \<in> set hist. event_beer e = Some b"
  shows "ar_id (stock hist) = b" and "av_beerId (stock hist) = b"
proof -
  obtain xs e where h: "hist = xs @ [e]" using assms(1) by (metis rev_exhaust)
  with assms(2) have "event_beer e = Some b" by simp
  then show "ar_id (stock hist) = b" and "av_beerId (stock hist) = b"
    unfolding h stock_def by (cases e; simp add: Let_def SetID_def)+
qed

lemma repo_fields [simp]:
  "repo_store (availability_repo es pub) = es"
  "repo_factory (availability_repo es pub) = NewAvailability"
  "repo_route (availability_repo es pub) = Availability_Route"
  "repo_publisher (availability_repo es pub) = pub"
  "repo_stream U (availability_repo es pub) i = availability_stream U i"
  by (simp_all add: availability_repo_def repo_stream_def availability_stream_def)

text \<open>What every accepted decision looks like: one new event, about the command's beer.\<close>

lemma decide_loaded:
  assumes "decide c hist = Inr a"
  shows "loaded_as Availability_Route NewAvailability hist a"
    and "stock (hist @ ar_uncommitted a) = ClearUncommittedEvents a"
proof -
  obtain e where a: "a = RaiseEvent Availability_Route e (stock hist)"
    using assms by (cases c) (auto simp: availability_ops Let_def split: if_splits)
  show l: "loaded_as Availability_Route NewAvailability hist a"
    unfolding a stock_def by (intro avail.loaded_as_raise avail.loaded_as_fresh) simp
  then show "stock (hist @ ar_uncommitted a) = ClearUncommittedEvents a"
    using avail.loaded_as_cleared [OF _ l] by (simp add: stock_def)
qed

lemma decide_event:
  assumes "decide c hist = Inr a" and "command_ok c"
    and "\<forall>e \<in> set hist. event_beer e = Some (wc_BeerId c)"
  obtains e where "ar_uncommitted a = [e]" and "event_beer e = Some (wc_BeerId c)"
    and "ar_id a = wc_BeerId c"
proof -
  have "\<exists>e. a = RaiseEvent Availability_Route e (stock hist) \<and> event_beer e = Some (wc_BeerId c)"
    using assms stock_ids [of hist "wc_BeerId c"]
    by (cases c) (auto simp: availability_ops msg_defs Let_def split: if_splits)
  then obtain e where a: "a = RaiseEvent Availability_Route e (stock hist)"
    and e: "event_beer e = Some (wc_BeerId c)" by blast
  have "ar_uncommitted a = [e]" by (simp add: a avail.raise_fields)
  moreover have "ar_id a = wc_BeerId c" using e by (cases e) (simp_all add: a Let_def SetID_def)
  ultimately show thesis using that e by blast
qed

section \<open>Every handler implements its decision\<close>

locale availability_handlers =
  repository "availability_repo es pub" history inv
  for es :: "('s, warehouse_event) EventStore"
    and pub :: "(warehouse_event \<Rightarrow> 'b \<Rightarrow> ('b, unit) outcome) option"
    and history :: "'s \<Rightarrow> string \<Rightarrow> warehouse_event list" and inv :: "'s \<Rightarrow> bool"
begin

text \<open>
  Whatever the store and the publisher do: either the handler leaves every history as it
  was, or it appends exactly the event it decided on.
\<close>

lemma save_effect:
  assumes "inv s" and "beer_streams_ok U (history s)" and "command_ok c"
    and dec: "decide c (history s (availability_stream U (wc_BeerId c))) = Inr a"
    and run: "discard (Save U (availability_repo es pub) now a newid (s, b)) = (r, (s', b'))"
  shows "inv s' \<and> (history s' = history s \<or>
     (\<exists>e. ar_uncommitted a = [e] \<and> event_beer e = Some (wc_BeerId c) \<and>
          history s' = (history s)(availability_stream U (wc_BeerId c) :=
            history s (availability_stream U (wc_BeerId c)) @ [e])))"
proof -
  let ?sid = "availability_stream U (wc_BeerId c)" and ?h = "history s (availability_stream U (wc_BeerId c))"
  obtain e where u: "ar_uncommitted a = [e]" and e: "event_beer e = Some (wc_BeerId c)"
    and i: "ar_id a = wc_BeerId c"
    using decide_event [OF dec assms(3)] beer_streams_okD [OF assms(2)] by blast
  note l = decide_loaded(1) [OF dec]
  obtain q t where app: "es_Append es now ?sid (int (length ?h)) newid [e] s = (q, t)" by fastforce
  have ev: "ar_version a - 1 = int (length ?h)"
    using save_expected_version [of ?h a] l u by simp
  have "fst (snd (discard (Save U (availability_repo es pub) now a newid (s, b)))) = t"
    using Save_store [of a U "availability_repo es pub" now newid s b] app u i ev by simp
  then have s': "s' = t" by (simp add: run)
  have "inv t" using append_inv [OF assms(1), of "[e]" now ?sid "int (length ?h)" newid] app by simp
  moreover have "history t = history s \<or> history t = (history s)(?sid := ?h @ [e])"
    using append_ok [OF assms(1), of "[e]"] append_failed [OF assms(1), of "[e]"] app by (cases q) auto
  ultimately show ?thesis using s' u e by blast
qed

lemma handle_cases:
  assumes "inv s" and "command_ok c"
    and run: "warehouse_handle U (availability_repo es pub) now newid c (s, b) = (r, (s', b'))"
  shows "(s' = s \<and> b' = b) \<or>
    (\<exists>a. decide c (history s (availability_stream U (wc_BeerId c))) = Inr a \<and>
       discard (Save U (availability_repo es pub) now a newid (s, b)) = (r, (s', b')))"
proof -
  let ?R = "availability_repo es pub" and ?i = "wc_BeerId c"
  have i: "cmd_AggregateId (wc_base c) = ?i" using assms(2) by (simp add: command_ok_def)
  show ?thesis
  proof (cases "GetByID U ?R ?i s")
    case (Inr x)
    from get_replay [OF assms(1) this] have "history s (availability_stream U ?i) \<noteq> []"
      and "x = stock (history s (availability_stream U ?i))" by (simp_all add: stock_def)
    with run i Inr show ?thesis
      by (cases c) (auto simp: handler_defs split: sum.splits)
  next
    case (Inl err)
    have "history s (availability_stream U ?i) = []" if "err = ErrAggregateNotFound"
      using get_not_found [OF assms(1)] Inl that by fastforce
    with run i Inl show ?thesis
      by (cases c) (auto simp: handler_defs split: sum.splits if_splits)
  qed
qed

lemma handle_effect:
  assumes "uuid_ok U" and "inv s" and "beer_streams_ok U (history s)" and "command_ok c"
    and run: "warehouse_handle U (availability_repo es pub) now newid c (s, b) = (r, (s', b'))"
  shows "inv s' \<and> beer_streams_ok U (history s')"
  using handle_cases [OF assms(2,4) run]
proof (elim disjE exE conjE)
  assume "s' = s"
  with assms show ?thesis by simp
next
  fix a
  assume "decide c (history s (availability_stream U (wc_BeerId c))) = Inr a"
    and "discard (Save U (availability_repo es pub) now a newid (s, b)) = (r, (s', b'))"
  from save_effect [OF assms(2-4) this] show ?thesis
    using assms(3) beer_streams_ok_upd [OF assms(1,3)] by metis
qed

end

locale reliable_availability_handlers =
  availability_handlers es pub history inv + reliable_repository "availability_repo es pub" history inv
  for es :: "('s, warehouse_event) EventStore"
    and pub :: "(warehouse_event \<Rightarrow> 'b \<Rightarrow> ('b, unit) outcome) option"
    and history :: "'s \<Rightarrow> string \<Rightarrow> warehouse_event list" and inv :: "'s \<Rightarrow> bool"
begin

text \<open>On a store without faults the histories after a command are a function of those before.\<close>

lemma handle_exact:
  assumes "inv s" and "beer_streams_ok U (history s)" and "command_ok c"
  shows "history (fst (snd (warehouse_handle U (availability_repo es pub) now newid c (s, b)))) =
    (case decide c (history s (availability_stream U (wc_BeerId c))) of
       Inl _ \<Rightarrow> history s
     | Inr a \<Rightarrow> (history s)(availability_stream U (wc_BeerId c) :=
                  history s (availability_stream U (wc_BeerId c)) @ ar_uncommitted a))"
proof -
  let ?R = "availability_repo es pub" and ?i = "wc_BeerId c"
  let ?h = "history s (availability_stream U ?i)"
  have i: "cmd_AggregateId (wc_base c) = ?i" using assms(3) by (simp add: command_ok_def)
  have get: "GetByID U ?R ?i s = (if ?h = [] then Inl ErrAggregateNotFound else Inr (stock ?h))"
    using get_total [OF assms(1), of U ?i] by (simp add: stock_def)
  show ?thesis
  proof (cases "decide c ?h")
    case (Inl e)
    with get i show ?thesis by (cases c) (auto simp: handler_defs split: sum.splits if_splits)
  next
    case (Inr a)
    have run: "warehouse_handle U ?R now newid c (s, b) = discard (Save U ?R now a newid (s, b))"
      using Inr get i by (cases c) (auto simp: handler_defs split: sum.splits if_splits)
    obtain e where u: "ar_uncommitted a = [e]" and ida: "ar_id a = ?i"
      using decide_event [OF Inr assms(3)] beer_streams_okD [OF assms(2)] by blast
    note l = decide_loaded(1) [OF Inr]
    obtain s' where
      "es_Append es now (availability_stream U ?i) (ar_version a - int (length (ar_uncommitted a))) newid (ar_uncommitted a) s
         = (Inr (), s')"
      and h': "history s' = (history s)(availability_stream U ?i := ?h @ ar_uncommitted a)"
      using save_current_append [OF assms(1), of U a now newid] ida l u by auto
    then have "fst (snd (Save U ?R now a newid (s, b))) = s'"
      using Save_store [of a U ?R now newid s b] ida u by simp
    with Inr h' show ?thesis by (simp add: run)
  qed
qed

end

lemma availability_repository:
  "event_store es h i \<Longrightarrow> repository (availability_repo es pub) h i"
  by (intro repository.intro repository_axioms.intro) (simp_all add: avail.event_sourced_axioms)

lemma availability_handlers_reliable:
  assumes "reliable_event_store es h i"
  shows "reliable_availability_handlers es pub h i"
proof -
  have "event_store es h i" using assms by (simp add: reliable_event_store_def)
  with assms show ?thesis
    by (simp add: reliable_availability_handlers_def availability_handlers_def reliable_repository_def
        availability_repository)
qed

interpretation mem_avail: reliable_availability_handlers in_memory_store pub mem_history store_wf for pub
  by (rule availability_handlers_reliable) (rule mem.reliable_event_store_axioms)

section \<open>Running commands against the ledger\<close>

text \<open>
  A command may be executed any number of times (the bus redelivers), at any time, with
  any outcome of publishing; the ledger of a beer follows the commands about it.
\<close>

type_synonym execution = "instant \<times> uuid \<times> warehouse_command"

fun run_commands ::
  "uuid_pkg \<Rightarrow> ('s, 'b) availability_repository \<Rightarrow> execution list \<Rightarrow> 's \<times> 'b \<Rightarrow> 's \<times> 'b" where
  "run_commands U R [] w = w"
| "run_commands U R ((now, newid, c) # cs) w = run_commands U R cs (snd (warehouse_handle U R now newid c w))"

fun ledger_step :: "BeerId \<Rightarrow> warehouse_command \<Rightarrow> ledger \<Rightarrow> ledger" where
  "ledger_step b (UpdateAvailabilityDueToProductionOrder _ beerId _ q) l =
     (if beerId = b \<and> 0 < amount q then ledger_produce (amount q) l else l)"
| "ledger_step b (UpdateAvailabilityDueToSalesOrder _ beerId _ q order) l =
     (if beerId = b \<and> 0 < amount q then ledger_allocate order (amount q) l else l)"
| "ledger_step b (CompensateAvailabilityDueToFailedAllocation _ beerId q order) l =
     (if beerId = b \<and> 0 < amount q then ledger_release order l else l)"

definition ledger_run :: "BeerId \<Rightarrow> execution list \<Rightarrow> ledger \<Rightarrow> ledger" where
  "ledger_run b cs l = foldl (\<lambda>l (_, _, c). ledger_step b c l) l cs"

definition empty_ledger :: ledger where
  "empty_ledger = \<lparr>produced = 0, alloc = Map.empty\<rparr>"

text \<open>
  The saga asks for the same quantity each time it drives the same row, and gives back
  what it asked for: an order's demand for a beer is a fixed number.
\<close>

fun demands :: "(BeerId \<Rightarrow> string \<Rightarrow> int) \<Rightarrow> warehouse_command \<Rightarrow> bool" where
  "demands d (UpdateAvailabilityDueToProductionOrder _ _ _ _) = True"
| "demands d (UpdateAvailabilityDueToSalesOrder _ beerId _ q order) = (order \<noteq> [] \<and> amount q = d beerId order)"
| "demands d (CompensateAvailabilityDueToFailedAllocation _ beerId q order) = (amount q = d beerId order)"

definition demand_ok :: "(string \<Rightarrow> int) \<Rightarrow> ledger \<Rightarrow> bool" where
  "demand_ok d l \<longleftrightarrow> (\<forall>order q. alloc l order = Some q \<longrightarrow> q = d order)"

lemma ledger_run_simps [simp]:
  "ledger_run b [] l = l"
  "ledger_run b ((now, newid, c) # cs) l = ledger_run b cs (ledger_step b c l)"
  by (simp_all add: ledger_run_def)

lemma ledger_release_none: "order \<notin> dom (alloc l) \<Longrightarrow> ledger_release order l = l"
  by (cases l) (simp add: ledger_release_def fun_upd_idem domIff)

lemma ledger_step_produced_mono: "produced l \<le> produced (ledger_step b c l)"
  by (cases c) (auto simp: ledger_produce_def ledger_allocate_def ledger_release_def)

lemma ledger_run_produced_mono: "produced l \<le> produced (ledger_run b cs l)"
proof (induction cs arbitrary: l)
  case (Cons x cs)
  obtain now newid c where "x = (now, newid, c)" by (cases x)
  with Cons [of "ledger_step b c l"] ledger_step_produced_mono [of l b c] show ?case by simp
qed simp

lemma demand_ok_step:
  "demands d c \<Longrightarrow> demand_ok (d b) l \<Longrightarrow> demand_ok (d b) (ledger_step b c l)"
  by (cases c) (auto simp: demand_ok_def ledger_produce_def ledger_allocate_def ledger_release_def split: if_splits)

lemma refines_fields:
  "av_held a = av_held a' \<Longrightarrow> av_quantity a = av_quantity a' \<Longrightarrow> refines a l \<longleftrightarrow> refines a' l"
  by (simp add: refines_def)

lemma refines_cleared [simp]: "refines (ClearUncommittedEvents a) l \<longleftrightarrow> refines a l"
  by (rule refines_fields) (simp_all add: ClearUncommittedEvents_def)

text \<open>The first production order of a beer acts as one on an empty stock.\<close>

lemma refines_create:
  assumes "refines NewAvailability l" and "0 < amount q" and "produced l + amount q \<le> max_int"
  shows "\<exists>a. CreateAvailability b c n q = Inr a \<and> refines a (ledger_produce (amount q) l)"
proof -
  obtain a' where "UpdateDueToProductionOrder c n q NewAvailability = Inr a'"
    and a': "refines a' (ledger_produce (amount q) l)"
    using refines_produce [OF assms] by blast
  moreover have "NewQuantity (qValue zero_Quantity + qValue q) (UnitOfMeasure q) = q"
    by (simp add: go_defs)
  ultimately show ?thesis
    using assms(2) refines_fields [of "RaiseEvent Availability_Route (NewAvailabilityUpdatedDueToProductionOrder b c n q) NewAvailability" a']
    by (auto simp: CreateAvailability_def UpdateDueToProductionOrder_def msg_defs)
qed

lemma refines_refuse:
  "refines NewAvailability l \<Longrightarrow> refines (RefuseUnknownBeer b c q order) l"
  by (simp add: RefuseUnknownBeer_def msg_defs SetID_def refines_def)

lemma decide_refines:
  assumes "refines (stock hist) l" and "demands d c" and "demand_ok (d b) l"
    and "wc_BeerId c = b" and "produced (ledger_step b c l) \<le> max_int"
    and "hist = [] \<Longrightarrow> alloc l = Map.empty \<and> available l = 0"
  shows "case decide c hist of Inl _ \<Rightarrow> refines (stock hist) (ledger_step b c l)
     | Inr a \<Rightarrow> refines a (ledger_step b c l)"
proof (cases c)
  case (UpdateAvailabilityDueToProductionOrder base b' n q)
  show ?thesis
  proof (cases "0 < amount q")
    case True
    with assms UpdateAvailabilityDueToProductionOrder
      refines_produce [of "stock hist" l q "cmd_CommitId base" n] refines_create [of l q b "cmd_CommitId base" n]
    show ?thesis by (auto simp: ledger_produce_def)
  next
    case False
    with assms UpdateAvailabilityDueToProductionOrder show ?thesis
      by (cases "hist = []") (simp_all add: CreateAvailability_def UpdateDueToProductionOrder_def)
  qed
next
  case (UpdateAvailabilityDueToSalesOrder base b' n q order)
  show ?thesis
  proof (cases "0 < amount q")
    case True
    with assms UpdateAvailabilityDueToSalesOrder refines_allocate [of "stock hist" l q order "cmd_CommitId base"]
      refines_refuse [of l b "cmd_CommitId base" q order]
    show ?thesis by (cases "hist = []") (auto simp: ledger_allocate_def)
  next
    case False
    with assms UpdateAvailabilityDueToSalesOrder show ?thesis
      by (auto simp: UpdateDueToSalesOrder_def refines_refuse)
  qed
next
  case (CompensateAvailabilityDueToFailedAllocation base b' q order)
  show ?thesis
  proof (cases "0 < amount q")
    case True
    with assms CompensateAvailabilityDueToFailedAllocation
      refines_release [of "stock hist" l q order "cmd_CommitId base"]
    show ?thesis by (cases "hist = []") (auto simp: demand_ok_def ledger_release_none)
  next
    case False
    with assms CompensateAvailabilityDueToFailedAllocation show ?thesis
      by (cases "hist = []") (simp_all add: CompensateDueToFailedAllocation_def)
  qed
qed

text \<open>The invariant that ties a store to the ledgers of its beers.\<close>

definition tracks :: "uuid_pkg \<Rightarrow> (BeerId \<Rightarrow> string \<Rightarrow> int) \<Rightarrow> (string \<Rightarrow> warehouse_event list) \<Rightarrow> BeerId \<Rightarrow> ledger \<Rightarrow> bool" where
  "tracks U d h b l \<longleftrightarrow> refines (stock (h (availability_stream U b))) l \<and> demand_ok (d b) l \<and>
     (h (availability_stream U b) = [] \<longrightarrow> alloc l = Map.empty \<and> available l = 0)"

lemma tracks_step:
  assumes "uuid_ok U" and "store_wf s" and "beer_streams_ok U (mem_history s)" and "command_ok c" and "demands d c"
    and "tracks U d (mem_history s) b l" and "produced (ledger_step b c l) \<le> max_int"
    and "s' = fst (snd (warehouse_handle U (availability_repo in_memory_store pub) now newid c (s, w)))"
  shows "tracks U d (mem_history s') b (ledger_step b c l)"
proof -
  let ?h = "mem_history s (availability_stream U (wc_BeerId c))"
  have h': "mem_history s' = (case decide c ?h of Inl _ \<Rightarrow> mem_history s
     | Inr a \<Rightarrow> (mem_history s)(availability_stream U (wc_BeerId c) := ?h @ ar_uncommitted a))"
    unfolding assms(8) by (rule mem_avail.handle_exact [OF assms(2-4)])
  have t: "refines (stock (mem_history s (availability_stream U b))) l" "demand_ok (d b) l"
    "mem_history s (availability_stream U b) = [] \<Longrightarrow> alloc l = Map.empty \<and> available l = 0"
    using assms(6) by (auto simp: tracks_def)
  show ?thesis
  proof (cases "wc_BeerId c = b")
    case False
    then have "ledger_step b c l = l" by (cases c) auto
    moreover from False assms(1) have "availability_stream U b \<noteq> availability_stream U (wc_BeerId c)"
      by (simp add: availability_stream_def uuid_ok_inj)
    ultimately show ?thesis using t h' by (simp add: tracks_def split: sum.splits)
  next
    case True
    have d: "demand_ok (d b) (ledger_step b c l)" by (rule demand_ok_step [OF assms(5) t(2)])
    have r: "case decide c ?h of Inl _ \<Rightarrow> refines (stock ?h) (ledger_step b c l) | Inr a \<Rightarrow> refines a (ledger_step b c l)"
      by (rule decide_refines [OF _ assms(5) t(2) True assms(7)]) (use t True in auto)
    show ?thesis
    proof (cases "decide c ?h")
      case (Inr a)
      obtain e where "ar_uncommitted a = [e]"
        using decide_event [OF Inr assms(4)] beer_streams_okD [OF assms(3)] by blast
      with decide_loaded(2) [OF Inr] have "stock (?h @ [e]) = ClearUncommittedEvents a" by simp
      with Inr r d h' True \<open>ar_uncommitted a = [e]\<close> show ?thesis by (simp add: tracks_def)
    next
      case (Inl e)
      have "?h = [] \<Longrightarrow> ledger_step b c l = l"
        using Inl t True by (cases c) (auto simp: CreateAvailability_def ledger_release_def split: if_splits)
      with Inl r d h' True t show ?thesis by (auto simp: tracks_def)
    qed
  qed
qed

lemma tracks_run:
  assumes "uuid_ok U" and "\<forall>(_, _, c) \<in> set cs. command_ok c \<and> demands d c"
    and "store_wf s" and "beer_streams_ok U (mem_history s)"
    and "tracks U d (mem_history s) b l" and "produced (ledger_run b cs l) \<le> max_int"
  shows "tracks U d (mem_history (fst (run_commands U (availability_repo in_memory_store pub) cs (s, w)))) b (ledger_run b cs l)"
  using assms(2-6)
proof (induction cs arbitrary: s w l)
  case (Cons x cs)
  obtain now newid c where x: "x = (now, newid, c)" by (cases x)
  let ?R = "availability_repo in_memory_store pub"
  obtain r s' w' where run: "warehouse_handle U ?R now newid c (s, w) = (r, (s', w'))" by (metis surj_pair)
  from Cons.prems x have c: "command_ok c" "demands d c" by auto
  have p: "produced (ledger_step b c l) \<le> max_int"
    using Cons.prems(5) ledger_run_produced_mono [of "ledger_step b c l" b cs] x by simp
  have s': "s' = fst (snd (warehouse_handle U ?R now newid c (s, w)))" by (simp add: run)
  note t = tracks_step [OF assms(1) Cons.prems(2,3) c Cons.prems(4) p s']
  have "store_wf s' \<and> beer_streams_ok U (mem_history s')"
    by (rule mem_avail.handle_effect [OF assms(1) Cons.prems(2,3) c(1) run])
  with Cons.IH [OF _ _ _ t] Cons.prems x run show ?case by simp
qed simp

lemma beer_streams_ok_New: "beer_streams_ok U (mem_history NewInMemoryEventStore)"
  by (simp add: beer_streams_ok_def mem_history_def stream_of_def NewInMemoryEventStore_def)

text \<open>
  C5. Conservation of stock. Whatever commands the warehouse executes on its in-memory
  event store, in any order, with any redeliveries and whatever the publisher does, as
  long as the commands are built by their constructors, every order asks and gives back one
  fixed quantity per beer, and production does not exceed the range of an integer: the aggregate of every beer refines the ledger of
  the commands about it, so the stock it can sell is what was produced less what the
  orders holding stock asked for, and never negative.
\<close>

theorem stock_conservation:
  assumes "uuid_ok U" and "\<forall>(_, _, c) \<in> set cs. command_ok c \<and> demands d c"
    and "produced (ledger_run b cs empty_ledger) \<le> max_int"
    and a: "a = stock (mem_history
      (fst (run_commands U (availability_repo in_memory_store pub) cs (NewInMemoryEventStore, w))) (availability_stream U b))"
  shows "refines a (ledger_run b cs empty_ledger) \<and>
    amount (av_quantity a) = produced (ledger_run b cs empty_ledger) - (\<Sum>order \<in> av_held a. d b order) \<and>
    0 \<le> amount (av_quantity a)"
proof -
  let ?l = "ledger_run b cs empty_ledger"
  have "tracks U d (mem_history NewInMemoryEventStore) b empty_ledger"
    using refines_NewAvailability
    by (simp add: tracks_def empty_ledger_def demand_ok_def available_def mem_history_def stream_of_def
        NewInMemoryEventStore_def)
  then have "tracks U d (mem_history (fst (run_commands U (availability_repo in_memory_store pub) cs
      (NewInMemoryEventStore, w)))) b ?l"
    by (intro tracks_run [OF assms(1,2)] assms(3) store_wf_New beer_streams_ok_New)
  then have r: "refines a ?l" and d: "demand_ok (d b) ?l" by (simp_all add: a tracks_def)
  have "(\<Sum>k \<in> dom (alloc ?l). the (alloc ?l k)) = (\<Sum>k \<in> dom (alloc ?l). d b k)"
    by (rule sum.cong) (use d in \<open>auto simp: demand_ok_def\<close>)
  with r show ?thesis by (simp add: refines_def available_def)
qed

theorem stock_conservation_witness:
  "\<exists>a. a = stock (mem_history (fst (run_commands hex_uuid
       (availability_repo in_memory_store (Some (\<lambda>e. PublishDomainEvent hex_uuid open_net (WEvent e))))
       [(5, 1, NewUpdateAvailabilityDueToProductionOrder 7 2 ''IPA'' (NewQuantity 100 ''Lt'')),
        (6, 3, NewUpdateAvailabilityDueToSalesOrder 7 4 ''IPA'' (NewQuantity 30 ''Lt'') ''order''),
        (7, 5, NewUpdateAvailabilityDueToSalesOrder 7 4 ''IPA'' (NewQuantity 30 ''Lt'') ''order'')]
       (NewInMemoryEventStore, []))) (availability_stream hex_uuid 7)) \<and>
     amount (av_quantity a) = 70"
proof (intro exI conjI)
  let ?cs = "[(5, 1, NewUpdateAvailabilityDueToProductionOrder 7 2 ''IPA'' (NewQuantity 100 ''Lt'')),
        (6, 3, NewUpdateAvailabilityDueToSalesOrder 7 4 ''IPA'' (NewQuantity 30 ''Lt'') ''order''),
        (7, 5, NewUpdateAvailabilityDueToSalesOrder 7 4 ''IPA'' (NewQuantity 30 ''Lt'') ''order'')] :: execution list"
  let ?a = "stock (mem_history (fst (run_commands hex_uuid
       (availability_repo in_memory_store (Some (\<lambda>e. PublishDomainEvent hex_uuid open_net (WEvent e))))
       ?cs (NewInMemoryEventStore, []))) (availability_stream hex_uuid 7))"
  have l: "ledger_run 7 ?cs empty_ledger = \<lparr>produced = 100, alloc = [''order'' \<mapsto> 30]\<rparr>"
    by (simp add: msg_defs ledger_produce_def ledger_allocate_def empty_ledger_def available_def)
  have p: "produced (ledger_run 7 ?cs empty_ledger) \<le> max_int"
    by (simp only: l) (simp add: max_int_def)
  have "refines ?a (ledger_run 7 ?cs empty_ledger)"
    by (rule stock_conservation [where d = "\<lambda>_ _. 30", OF hex_uuid_ok _ p refl, THEN conjunct1])
      (simp add: msg_defs command_ok_def)
  then show "amount (av_quantity ?a) = 70" unfolding l by (simp add: refines_def available_def)
qed simp

end
