(* ===== verification/Warehouse_Module.thy ===== *)
theory Warehouse_Module
  imports Saga_Runner Warehouse_Handlers
begin

text \<open>
  The Warehouses module as \<^verbatim>\<open>src/internal/warehouses/module.go\<close> wires it on the in-memory
  event store: the command handlers and the saga runner share one store. A module state is
  the store and what has been published; a step is the delivery of any message to its
  handler, any number of times and in any order, with any behaviour of the network and of
  the publisher, or a supervision run. The invariant of the module's streams holds in
  every reachable state, and the properties of the runner are stated for those.
\<close>

section \<open>The module as a transition system\<close>

type_synonym warehouse_state = "warehouse_event InMemoryEventStore \<times> wire list"

inductive warehouse_reach :: "uuid_pkg \<Rightarrow> warehouse_state \<Rightarrow> bool" for U where
  boot: "warehouse_reach U (NewInMemoryEventStore, [])"
| handle_command: "warehouse_reach U w \<Longrightarrow> command_ok c \<Longrightarrow>
    warehouse_reach U (snd (warehouse_handle U (availability_repo in_memory_store pub) now newid c w))"
| trigger: "warehouse_reach U w \<Longrightarrow>
    warehouse_reach U (snd (OnSalesOrderCreated U net (saga_repo in_memory_store pub) now newid p w))"
| step_event: "warehouse_reach U w \<Longrightarrow>
    warehouse_reach U (snd (saga_on_event U net (saga_repo in_memory_store pub) now newid e w))"
| resume: "warehouse_reach U w \<Longrightarrow>
    warehouse_reach U (snd (ResumeInFlight U net (saga_repo in_memory_store pub) in_memory_store ids w))"
| sweep: "warehouse_reach U w \<Longrightarrow>
    warehouse_reach U (snd (TimeoutInFlight U net (saga_repo in_memory_store pub) in_memory_store cutoff clock ids ids' w))"

definition bus_publisher :: "uuid_pkg \<Rightarrow> network \<Rightarrow> (warehouse_event \<Rightarrow> wire list \<Rightarrow> (wire list, unit) outcome) option" where
  "bus_publisher U net = Some (\<lambda>e. PublishDomainEvent U net (WEvent e))"

text \<open>
  What can happen from a given state on, with the repositories as memory mode wires them:
  they publish the events they saved on the bus.
\<close>

inductive warehouse_later :: "uuid_pkg \<Rightarrow> warehouse_state \<Rightarrow> warehouse_state \<Rightarrow> bool" for U w where
  now: "warehouse_later U w w"
| handle_command: "warehouse_later U w w' \<Longrightarrow> command_ok c \<Longrightarrow>
    warehouse_later U w (snd (warehouse_handle U (availability_repo in_memory_store (bus_publisher U net)) now newid c w'))"
| trigger: "warehouse_later U w w' \<Longrightarrow>
    warehouse_later U w (snd (OnSalesOrderCreated U net (saga_repo in_memory_store (bus_publisher U net)) now newid p w'))"
| step_event: "warehouse_later U w w' \<Longrightarrow>
    warehouse_later U w (snd (saga_on_event U net (saga_repo in_memory_store (bus_publisher U net)) now newid e w'))"
| resume: "warehouse_later U w w' \<Longrightarrow>
    warehouse_later U w (snd (ResumeInFlight U net (saga_repo in_memory_store (bus_publisher U net)) in_memory_store ids w'))"
| sweep: "warehouse_later U w w' \<Longrightarrow>
    warehouse_later U w (snd (TimeoutInFlight U net (saga_repo in_memory_store (bus_publisher U net)) in_memory_store
      cutoff clock ids ids' w'))"

definition warehouse_inv :: "uuid_pkg \<Rightarrow> warehouse_event InMemoryEventStore \<Rightarrow> bool" where
  "warehouse_inv U s \<longleftrightarrow> store_wf s \<and> beer_streams_ok U (mem_history s) \<and> saga_streams_ok U (mem_history s)"

lemma streams_apart: "availability_stream U b \<noteq> saga_stream U i" "\<not> prefix (SagaStreamName @ ''-'') (availability_stream U b)"
  by (simp_all add: availability_stream_def saga_stream_def Availability_StreamName_def SagaStreamName_def)

lemma beer_streams_ok_frame:
  assumes "beer_streams_ok U h" and "\<And>sid. sid \<notin> range (saga_stream U) \<Longrightarrow> h' sid = h sid"
  shows "beer_streams_ok U h'"
proof -
  have "h' (availability_stream U b) = h (availability_stream U b)" for b
    by (rule assms(2)) (use streams_apart(1) in auto)
  moreover have "sid \<in> range (availability_stream U)"
    if "h' sid \<noteq> []" and p: "prefix (Availability_StreamName @ ''-'') sid" for sid
  proof (rule beer_streams_ok_range [OF assms(1) _ p])
    have "sid \<notin> range (saga_stream U)"
      using p by (auto simp: Availability_StreamName_def saga_stream_def SagaStreamName_def)
    with assms(2) that(1) show "h sid \<noteq> []" by metis
  qed
  ultimately show ?thesis using assms(1) unfolding beer_streams_ok_def by metis
qed

lemma saga_frame_inv:
  "warehouse_inv U s \<Longrightarrow> mem_saga.saga_frame U s s' \<Longrightarrow> warehouse_inv U s'"
  unfolding warehouse_inv_def mem_saga.saga_frame_def using beer_streams_ok_frame by metis

lemma saga_inv_by_frame:
  assumes "warehouse_inv U s"
    and "store_wf s \<Longrightarrow> saga_streams_ok U (mem_history s) \<Longrightarrow> mem_saga.saga_frame U s s'"
  shows "warehouse_inv U s'"
  using assms(1) saga_frame_inv [OF assms(1) assms(2)] by (simp add: warehouse_inv_def)

lemma saga_streams_ok_frame:
  assumes "saga_streams_ok U h"
  shows "saga_streams_ok U (h(availability_stream U b := hist))"
proof -
  have "(h(availability_stream U b := hist)) (saga_stream U i) = h (saga_stream U i)" for i
    using streams_apart(1) by (metis fun_upd_other)
  with assms streams_apart(2) show ?thesis unfolding saga_streams_ok_def by (metis fun_upd_apply)
qed

lemma handle_inv:
  assumes "uuid_ok U" and "warehouse_inv U s" and "command_ok c"
  shows "warehouse_inv U (fst (snd (warehouse_handle U (availability_repo in_memory_store pub) now newid c (s, b))))"
proof -
  let ?r = "warehouse_handle U (availability_repo in_memory_store pub) now newid c (s, b)"
  have i: "store_wf s" "beer_streams_ok U (mem_history s)" "saga_streams_ok U (mem_history s)"
    using assms(2) by (simp_all add: warehouse_inv_def)
  have e: "store_wf (fst (snd ?r)) \<and> beer_streams_ok U (mem_history (fst (snd ?r)))"
    by (rule mem_avail.handle_effect [OF assms(1) i(1,2) assms(3), of pub now newid b "fst ?r" _ "snd (snd ?r)"]) simp
  have "saga_streams_ok U (mem_history (fst (snd ?r)))"
    unfolding mem_avail.handle_exact [OF i(1,2) assms(3)]
    by (cases "decide c (mem_history s (availability_stream U (wc_BeerId c)))") (simp_all add: i(3) saga_streams_ok_frame)
  with e show ?thesis by (simp add: warehouse_inv_def)
qed

lemma saga_streams_ok_New: "saga_streams_ok U (mem_history NewInMemoryEventStore)"
  by (simp add: saga_streams_ok_def mem_history_def stream_of_def NewInMemoryEventStore_def)

lemma warehouse_reach_inv:
  assumes "warehouse_reach U w" and "uuid_ok U"
  shows "warehouse_inv U (fst w)"
  using assms(1)
proof (induction rule: warehouse_reach.induct)
  case boot
  show ?case
    by (simp add: warehouse_inv_def store_wf_New beer_streams_ok_New saga_streams_ok_New)
next
  case (handle_command w c pub now newid)
  then show ?case using handle_inv [OF assms(2)] by (metis prod.collapse)
next
  case (trigger w net pub now newid p)
  then show ?case using saga_inv_by_frame mem_saga.trigger_frame [OF assms(2)] by (metis prod.collapse)
next
  case (step_event w net pub now newid e)
  then show ?case using saga_inv_by_frame mem_saga.event_frame [OF assms(2)] by (metis prod.collapse)
next
  case (resume w net pub ids)
  then show ?case using mem_saga.resume_store by (metis prod.collapse)
next
  case (sweep w net pub cutoff clock ids ids')
  then show ?case using saga_inv_by_frame mem_saga.timeout_frame [OF assms(2)] by (metis prod.collapse)
qed

lemma later_reach: "warehouse_later U w w' \<Longrightarrow> warehouse_reach U w \<Longrightarrow> warehouse_reach U w'"
  by (induction rule: warehouse_later.induct) (auto intro: warehouse_reach.intros)

lemma warehouse_reachD:
  assumes "warehouse_reach U (s, b)" and "uuid_ok U"
  shows "store_wf s" and "beer_streams_ok U (mem_history s)" and "saga_streams_ok U (mem_history s)"
  using warehouse_reach_inv [OF assms] by (simp_all add: warehouse_inv_def)

text \<open>Whatever happens later, a saga keeps what recordings keep.\<close>

lemma sagas_keep_frame: "(\<And>i. h' (saga_stream U i) = h (saga_stream U i)) \<Longrightarrow> sagas_keep U h h'"
  by (simp add: sagas_keep_def)

lemma sagas_keep_upd: "sagas_keep U h (h(availability_stream U b := hist))"
proof (rule sagas_keep_frame)
  show "(h(availability_stream U b := hist)) (saga_stream U i) = h (saga_stream U i)" for i
    using streams_apart(1) by (metis fun_upd_other)
qed

lemma handle_keeps:
  assumes "warehouse_inv U s" and "command_ok c"
  shows "sagas_keep U (mem_history s)
    (mem_history (fst (snd (warehouse_handle U (availability_repo in_memory_store pub) now newid c (s, b)))))"
proof -
  have i: "store_wf s" "beer_streams_ok U (mem_history s)" using assms(1) by (simp_all add: warehouse_inv_def)
  show ?thesis
    unfolding mem_avail.handle_exact [OF i assms(2)]
    by (cases "decide c (mem_history s (availability_stream U (wc_BeerId c)))") (simp_all add: sagas_keep_refl sagas_keep_upd)
qed

lemma later_keeps:
  assumes "uuid_ok U" and "warehouse_reach U w" and "warehouse_later U w w'"
  shows "sagas_keep U (mem_history (fst w)) (mem_history (fst w'))"
  using assms(3)
proof (induction rule: warehouse_later.induct)
  case now
  show ?case by (rule sagas_keep_refl)
next
  case (handle_command w' c net now newid)
  have "warehouse_inv U (fst w')"
    by (rule warehouse_reach_inv [OF later_reach [OF handle_command.hyps(1) assms(2)] assms(1)])
  from handle_keeps [OF this handle_command.hyps(2), of "bus_publisher U net" now newid "snd w'"]
  show ?case using sagas_keep_trans [OF handle_command.IH] by simp
next
  case (trigger w' net now newid p)
  have i: "warehouse_inv U (fst w')"
    by (rule warehouse_reach_inv [OF later_reach [OF trigger.hyps assms(2)] assms(1)])
  have "mem_saga.saga_frame U (fst w') (fst (snd (OnSalesOrderCreated U net (saga_repo in_memory_store (bus_publisher U net)) now newid p w')))"
    using mem_saga.trigger_frame [OF assms(1)] i unfolding warehouse_inv_def by (metis prod.collapse)
  with trigger.IH show ?case unfolding mem_saga.saga_frame_def by (metis sagas_keep_trans)
next
  case (step_event w' net now newid e)
  have i: "warehouse_inv U (fst w')"
    by (rule warehouse_reach_inv [OF later_reach [OF step_event.hyps assms(2)] assms(1)])
  have "mem_saga.saga_frame U (fst w') (fst (snd (saga_on_event U net (saga_repo in_memory_store (bus_publisher U net)) now newid e w')))"
    using mem_saga.event_frame [OF assms(1)] i unfolding warehouse_inv_def by (metis prod.collapse)
  with step_event.IH show ?case unfolding mem_saga.saga_frame_def by (metis sagas_keep_trans)
next
  case (resume w' net ids)
  then show ?case using mem_saga.resume_store by (metis prod.collapse)
next
  case (sweep w' net cutoff clock ids ids')
  have i: "warehouse_inv U (fst w')"
    by (rule warehouse_reach_inv [OF later_reach [OF sweep.hyps assms(2)] assms(1)])
  have "mem_saga.saga_frame U (fst w') (fst (snd (TimeoutInFlight U net (saga_repo in_memory_store (bus_publisher U net)) in_memory_store
      cutoff clock ids ids' w')))"
    using mem_saga.timeout_frame [OF assms(1)] i unfolding warehouse_inv_def by (metis prod.collapse)
  with sweep.IH show ?case unfolding mem_saga.saga_frame_def by (metis sagas_keep_trans)
qed

section \<open>A small run of the module\<close>

text \<open>
  An order for 30 litres of one beer is created and its saga started; the warehouse finds
  the beer sold out.
\<close>

definition demo_order :: payload where
  "demo_order = marshal_sales_integration hex_uuid (NewIntSalesOrderCreated hex_uuid 1 2
     [\<lparr>sr_BeerId = UString hex_uuid 5, sr_BeerName = ''IPA'', sr_Quantity = 30, sr_UnitOfMeasure = ''Lt''\<rparr>])"

definition demo_started :: warehouse_state where
  "demo_started = snd (OnSalesOrderCreated hex_uuid open_net (saga_repo in_memory_store None) 10 3 demo_order
     (NewInMemoryEventStore, []))"

definition sold_out :: warehouse_event where
  "sold_out = NewQuantityNotFound 5 6 (UString hex_uuid 1) (NewQuantity 30 ''Lt'') zero_Quantity"

definition demo_refused :: warehouse_state where
  "demo_refused = snd (saga_on_event hex_uuid open_net (saga_repo in_memory_store None) 11 4 sold_out demo_started)"

lemma demo_started_reach: "warehouse_reach hex_uuid (fst demo_started, snd demo_started)"
  by (simp add: demo_started_def warehouse_reach.intros)

text \<open>100 litres are produced, the order's step times out, and then its command arrives.\<close>

definition demo_timed_out :: warehouse_state where
  "demo_timed_out = snd (TimeoutInFlight hex_uuid open_net (saga_repo in_memory_store None) in_memory_store 20
     (\<lambda>_. 21) (\<lambda>_. 8) (\<lambda>_. 9)
     (snd (warehouse_handle hex_uuid (availability_repo in_memory_store None) 9 7
       (NewUpdateAvailabilityDueToProductionOrder 5 6 ''IPA'' (NewQuantity 100 ''Lt'')) demo_started)))"

lemma demo_timed_out_reach: "warehouse_reach hex_uuid (fst demo_timed_out, snd demo_timed_out)"
  unfolding prod.collapse demo_timed_out_def
  by (intro warehouse_reach.sweep warehouse_reach.handle_command demo_started_reach [unfolded prod.collapse])
    (simp add: command_ok_def msg_defs)

section \<open>Properties of the runner in the module\<close>

text \<open>
  C12. Every reachable state of the module is well formed: the versions of each stream are
  1, 2, ..., n, every event of a beer's stream is about that beer, and replaying the stream
  of an order gives a saga of that order with its invariant.
\<close>

theorem warehouse_invariant:
  assumes "uuid_ok U" and "warehouse_reach U (s, b)"
  shows "store_wf s \<and> beer_streams_ok U (mem_history s) \<and> saga_streams_ok U (mem_history s)"
  using warehouse_reach_inv [OF assms(2,1)] by (simp add: warehouse_inv_def)

theorem warehouse_invariant_witness:
  "mem_history (fst demo_timed_out) (availability_stream hex_uuid 5) \<noteq> [] \<and>
   mem_history (fst demo_timed_out) (saga_stream hex_uuid 1) \<noteq> [] \<and>
   store_wf (fst demo_timed_out) \<and> beer_streams_ok hex_uuid (mem_history (fst demo_timed_out)) \<and>
   saga_streams_ok hex_uuid (mem_history (fst demo_timed_out))"
proof (intro conjI)
  show "mem_history (fst demo_timed_out) (availability_stream hex_uuid 5) \<noteq> []" by code_simp
  show "mem_history (fst demo_timed_out) (saga_stream hex_uuid 1) \<noteq> []" by code_simp
qed (use warehouse_invariant [OF hex_uuid_ok demo_timed_out_reach] in simp_all)

text \<open>
  C13. At-least-once delivery is safe for the runner: once a step event was recorded in the
  store, whatever the publisher and the network answered, delivering it again is accepted,
  stores nothing and sends nothing. That holds at every later moment, whatever commands,
  events, restarts and sweeps the module has gone through in between.
\<close>

theorem redelivered_step_noop:
  assumes "uuid_ok U" and "warehouse_reach U (s, b)"
    and "saga_on_event U net (saga_repo in_memory_store pub) now newid e (s, b) = (r, (s', b'))" and "s' \<noteq> s"
    and "warehouse_later U (s', b') (s2, b2)"
  shows "saga_on_event U net2 (saga_repo in_memory_store pub2) now2 newid2 e (s2, b2) = (Inr (), (s2, b2))"
proof -
  note wf = warehouse_reachD [OF assms(2,1)]
  obtain x i where x: "step_observation U e = Some x" and i: "Parse U (step_order e) = Some i"
    and h: "mem_history s' (saga_stream U i) \<noteq> []" "done_with x (saga_at U (mem_history s') i)"
    using mem_saga.event_recorded [OF assms(1) wf(1,3) assms(3,4)] .
  have r': "warehouse_reach U (s', b')" using warehouse_reach.step_event [OF assms(2)] assms(3) by (metis snd_conv)
  have "sagas_keep U (mem_history s') (mem_history s2)" using later_keeps [OF assms(1) r' assms(5)] by simp
  from sagas_keepD [OF this done_with_kept [OF assms(1)] h]
  have h2: "mem_history s2 (saga_stream U i) \<noteq> []" "done_with x (saga_at U (mem_history s2) i)" by simp_all
  have "store_wf s2" by (rule warehouse_reachD(1) [OF later_reach [OF assms(5) r'] assms(1)])
  from mem_saga.event_ignored [OF this x i h2(1) done_with_ignored [OF h2(2)]] show ?thesis .
qed

text \<open>After the order was refused, 100 litres are produced; then the refusal is delivered again.\<close>

definition demo_restocked :: warehouse_state where
  "demo_restocked = snd (warehouse_handle hex_uuid (availability_repo in_memory_store (bus_publisher hex_uuid open_net)) 12 7
     (NewUpdateAvailabilityDueToProductionOrder 5 6 ''IPA'' (NewQuantity 100 ''Lt'')) demo_refused)"

theorem redelivered_step_noop_witness:
  "saga_on_event hex_uuid open_net (saga_repo in_memory_store None) 13 4 sold_out demo_restocked =
     (Inr (), demo_restocked)"
proof -
  have "saga_on_event hex_uuid open_net (saga_repo in_memory_store None) 13 4 sold_out (fst demo_restocked, snd demo_restocked) =
      (Inr (), (fst demo_restocked, snd demo_restocked))"
  proof (rule redelivered_step_noop [OF hex_uuid_ok demo_started_reach])
    show "saga_on_event hex_uuid open_net (saga_repo in_memory_store None) 11 4 sold_out (fst demo_started, snd demo_started) =
        (fst (saga_on_event hex_uuid open_net (saga_repo in_memory_store None) 11 4 sold_out demo_started),
         (fst demo_refused, snd demo_refused))"
      by (simp add: demo_refused_def)
    show "fst demo_refused \<noteq> fst demo_started" by code_simp
    show "warehouse_later hex_uuid (fst demo_refused, snd demo_refused) (fst demo_restocked, snd demo_restocked)"
      unfolding prod.collapse demo_restocked_def
      by (intro warehouse_later.handle_command warehouse_later.now) (simp add: command_ok_def msg_defs)
  qed
  then show ?thesis by simp
qed

text \<open>
  The same for the trigger: a created order that was handled, or whose saga was stored,
  does not start again.
\<close>

theorem redelivered_trigger_noop:
  assumes "uuid_ok U" and "warehouse_reach U (s, b)"
    and "OnSalesOrderCreated U net (saga_repo in_memory_store pub) now newid p (s, b) = (r, (s', b'))"
    and "s' \<noteq> s \<or> r = Inr ()"
  shows "OnSalesOrderCreated U net2 (saga_repo in_memory_store pub) now2 newid2 p (s', b2) = (Inr (), (s', b2))"
  by (rule mem_saga.trigger_redelivered [OF warehouse_reachD(1) [OF assms(2,1)] assms(3,4)])

theorem redelivered_trigger_noop_witness:
  "OnSalesOrderCreated hex_uuid open_net (saga_repo in_memory_store None) 12 4 demo_order demo_started =
     (Inr (), demo_started)"
proof -
  have "OnSalesOrderCreated hex_uuid open_net (saga_repo in_memory_store None) 12 4 demo_order
      (fst demo_started, snd demo_started) = (Inr (), (fst demo_started, snd demo_started))"
  proof (rule redelivered_trigger_noop [OF hex_uuid_ok warehouse_reach.boot])
    show "OnSalesOrderCreated hex_uuid open_net (saga_repo in_memory_store None) 10 3 demo_order (NewInMemoryEventStore, []) =
        (fst (OnSalesOrderCreated hex_uuid open_net (saga_repo in_memory_store None) 10 3 demo_order (NewInMemoryEventStore, [])),
         (fst demo_started, snd demo_started))"
      by (simp add: demo_started_def)
    show "fst demo_started \<noteq> NewInMemoryEventStore \<or>
        fst (OnSalesOrderCreated hex_uuid open_net (saga_repo in_memory_store None) 10 3 demo_order (NewInMemoryEventStore, [])) = Inr ()"
      by code_simp
  qed
  then show ?thesis by simp
qed

text \<open>
  C14. The watchdog: after a sweep that returned no error, a saga whose last recorded event
  was older than the cutoff is not running any more.
\<close>

theorem sweep_fails_overdue_steps:
  assumes "uuid_ok U" and "warehouse_reach U (s, b)"
    and "TimeoutInFlight U net (saga_repo in_memory_store pub) in_memory_store cutoff clock ids ids' (s, b) = (Inr (), (s', b'))"
    and "mem_history s (saga_stream U i) \<noteq> []"
    and "lastActivityOf U in_memory_store (saga_at U (mem_history s) i) s = Inr t" and "t < cutoff"
  shows "sg_status (saga_at U (mem_history s') i) \<noteq> SagaRunning"
  by (rule mem_saga.timeout_sweeps [OF assms(1) warehouse_reachD(1,3) [OF assms(2,1)] _ assms(3-6)])
    (simp add: in_memory_store_def)

definition demo_swept :: warehouse_state where
  "demo_swept = snd (TimeoutInFlight hex_uuid open_net (saga_repo in_memory_store None) in_memory_store 20
     (\<lambda>_. 21) (\<lambda>_. 8) (\<lambda>_. 9) demo_started)"

theorem sweep_fails_overdue_steps_witness:
  "sg_status (saga_at hex_uuid (mem_history (fst demo_swept)) 1) \<noteq> SagaRunning"
proof (rule sweep_fails_overdue_steps [OF hex_uuid_ok demo_started_reach])
  have "fst (TimeoutInFlight hex_uuid open_net (saga_repo in_memory_store None) in_memory_store 20
      (\<lambda>_. 21) (\<lambda>_. 8) (\<lambda>_. 9) demo_started) = Inr ()"
    by code_simp
  then show "TimeoutInFlight hex_uuid open_net (saga_repo in_memory_store None) in_memory_store 20
      (\<lambda>_. 21) (\<lambda>_. 8) (\<lambda>_. 9) (fst demo_started, snd demo_started) = (Inr (), (fst demo_swept, snd demo_swept))"
    by (metis demo_swept_def prod.collapse)
  show "mem_history (fst demo_started) (saga_stream hex_uuid 1) \<noteq> []" by code_simp
  show "lastActivityOf hex_uuid in_memory_store (saga_at hex_uuid (mem_history (fst demo_started)) 1) (fst demo_started) = Inr 10"
    by code_simp
qed simp

text \<open>
  C15. Durable execution: resuming after a restart re-drives every unfinished saga and no
  other. On a network that accepts it, exactly the pending command of each running saga and
  the outstanding compensations of each compensating one are sent, provided the beers of
  the unfinished orders have valid identifiers.
\<close>

theorem resume_drives_unfinished:
  assumes "uuid_ok U" and "warehouse_reach U (s, b)"
    and "\<forall>i. mem_history s (saga_stream U i) \<noteq> [] \<longrightarrow> in_flight (saga_at U (mem_history s) i) \<longrightarrow>
      beers_parse U (saga_at U (mem_history s) i)"
  shows "\<exists>is. distinct is \<and> set is = {i. mem_history s (saga_stream U i) \<noteq> [] \<and> in_flight (saga_at U (mem_history s) i)} \<and>
    ResumeInFlight U open_net (saga_repo in_memory_store pub) in_memory_store newid (s, b) =
      (Inr (), (s, b @ concat (map (\<lambda>(k, i). drive_wires U (saga_at U (mem_history s) i) (newid k)) (enumerate 0 is))))"
proof -
  obtain ls ids where "es_ListStreams (in_memory_store :: (warehouse_event InMemoryEventStore, warehouse_event) EventStore) = Some ls"
    "ls SagaStreamName s = Inr ids"
    by (simp add: in_memory_store_def InMemory_ListStreams_def)
  from mem_saga.resume_open [OF assms(1) warehouse_reachD(1,3) [OF assms(2,1)] this assms(3)] show ?thesis .
qed

lemma demo_started_sagas: "mem_history (fst demo_started) (saga_stream hex_uuid i) \<noteq> [] \<longleftrightarrow> i = 1"
proof -
  have k: "map fst (streams (fst demo_started)) = [saga_stream hex_uuid 1]" by code_simp
  have "saga_stream hex_uuid i \<in> set (map fst (streams (fst demo_started))) \<longleftrightarrow>
      mem_history (fst demo_started) (saga_stream hex_uuid i) \<noteq> []"
    unfolding in_memory_ids [OF warehouse_reachD(1) [OF demo_started_reach hex_uuid_ok]] by simp
  then show ?thesis unfolding k by (simp add: saga_stream_inj [OF hex_uuid_ok])
qed

theorem resume_drives_unfinished_witness:
  "\<exists>is. distinct is \<and>
     set is = {i. mem_history (fst demo_started) (saga_stream hex_uuid i) \<noteq> [] \<and>
       in_flight (saga_at hex_uuid (mem_history (fst demo_started)) i)} \<and>
     ResumeInFlight hex_uuid open_net (saga_repo in_memory_store None) in_memory_store of_nat (fst demo_started, snd demo_started) =
      (Inr (), (fst demo_started, snd demo_started @ concat (map (\<lambda>(k, i). drive_wires hex_uuid
        (saga_at hex_uuid (mem_history (fst demo_started)) i) (of_nat k)) (enumerate 0 is))))"
proof (rule resume_drives_unfinished [OF hex_uuid_ok demo_started_reach])
  have "beers_parse hex_uuid (saga_at hex_uuid (mem_history (fst demo_started)) 1)" by code_simp
  then show "\<forall>i. mem_history (fst demo_started) (saga_stream hex_uuid i) \<noteq> [] \<longrightarrow>
      in_flight (saga_at hex_uuid (mem_history (fst demo_started)) i) \<longrightarrow>
      beers_parse hex_uuid (saga_at hex_uuid (mem_history (fst demo_started)) i)"
    by (simp add: demo_started_sagas)
qed

section \<open>What a step event makes the runner do\<close>

definition outcome_wire :: "uuid_pkg \<Rightarrow> OrderAllocationSaga \<Rightarrow> uuid \<Rightarrow> wire" where
  "outcome_wire U saga commitId = integration_wire U (WIntegration
     (if sg_status saga = SagaCompleted then IntOrderAllocationCompleted commitId (sg_salesOrderId saga)
      else IntOrderAllocationRejected commitId (sg_salesOrderId saga) (sg_reason saga)))"

text \<open>
  The reaction by the status the saga has reached: announce the outcome of a settled order,
  request the next row of a running one, compensate when a step has just failed.
\<close>

definition reaction :: "uuid_pkg \<Rightarrow> warehouse_event \<Rightarrow> OrderAllocationSaga \<Rightarrow> wire list" where
  "reaction U e saga =
     (case sg_status saga of
        SagaRunning \<Rightarrow> [allocation_wire U saga (ev_CommitId (we_base e)) (fst (NextPendingRow saga))]
      | SagaCompensating \<Rightarrow>
          (case e of QuantityNotFound _ _ _ _ _ \<Rightarrow>
             map (compensation_wire U saga (ev_CommitId (we_base e))) (RowsToCompensate saga)
           | _ \<Rightarrow> [])
      | _ \<Rightarrow> [outcome_wire U saga (ev_CommitId (we_base e))])"

lemma publishOutcome_open:
  "publishOutcome U open_net saga commitId sent = (Inr (), sent @ [outcome_wire U saga commitId])"
  by (simp add: publishOutcome_def outcome_wire_def msg_defs)

lemma saga_views_cleared [simp]:
  "NextPendingRow (ClearUncommittedEvents s) = NextPendingRow s"
  "RowsToCompensate (ClearUncommittedEvents s) = RowsToCompensate s"
  by (simp_all add: NextPendingRow_def RowsToCompensate_def)

lemma wires_cleared [simp]:
  "outcome_wire U (ClearUncommittedEvents s) c = outcome_wire U s c"
  "allocation_wire U (ClearUncommittedEvents s) c = allocation_wire U s c"
  "compensation_wire U (ClearUncommittedEvents s) c = compensation_wire U s c"
  "beers_parse U (ClearUncommittedEvents s) = beers_parse U s"
  by (simp_all add: outcome_wire_def allocation_wire_def compensation_wire_def beers_parse_def fun_eq_iff)

text \<open>What a changing observation can lead to, by its kind.\<close>

lemma observe_status:
  assumes "uuid_ok U" and "saga_inv U s" and "observe U x s = Inr (True, s')"
  shows "case x of Succeeded _ _ \<Rightarrow> sg_status s' \<in> {SagaRunning, SagaCompleted}
    | _ \<Rightarrow> sg_status s' \<in> {SagaCompensating, SagaRejected}"
    and "map row_data (sg_rows s') = map row_data (sg_rows s)"
proof -
  have aw: "awaits x s" using observe_ignored [of x s U] assms(3) by (cases "awaits x s") auto
  note p = saga_inv_MustParse [OF assms(1,2)]
  have "(case x of Succeeded _ _ \<Rightarrow> sg_status s' \<in> {SagaRunning, SagaCompleted}
      | _ \<Rightarrow> sg_status s' \<in> {SagaCompensating, SagaRejected}) \<and> (\<exists>b st. moved s s' b st)"
  proof (cases x)
    case (Succeeded c b)
    with aw assms(3) succeeded_moves [OF p, of b c] show ?thesis by auto
  next
    case (NotFound c b rs)
    with aw assms(3) not_found_moves [OF p, of b c rs] show ?thesis by auto
  next
    case (Compensated c b)
    with aw assms(3) compensated_moves [OF p, of b c] show ?thesis by auto
  qed
  then show "case x of Succeeded _ _ \<Rightarrow> sg_status s' \<in> {SagaRunning, SagaCompleted}
      | _ \<Rightarrow> sg_status s' \<in> {SagaCompensating, SagaRejected}"
    and "map row_data (sg_rows s') = map row_data (sg_rows s)"
    by (auto simp: moved_def setRowState_def)
qed

lemma beers_parse_rows: "map row_data (sg_rows s') = map row_data (sg_rows s) \<Longrightarrow> beers_parse U s' = beers_parse U s"
proof -
  assume "map row_data (sg_rows s') = map row_data (sg_rows s)"
  then have "row_data ` set (sg_rows s') = row_data ` set (sg_rows s)" by (metis set_map)
  moreover have "beers_parse U t \<longleftrightarrow> (\<forall>d \<in> row_data ` set (sg_rows t). Parse U (row_BeerId d) \<noteq> None)" for t
    by (simp add: beers_parse_def)
  ultimately show ?thesis by (simp only:)
qed

lemma sendNext_open:
  assumes "saga_inv U s" and "sg_status s = SagaRunning" and "beers_parse U s"
  shows "sendNextAllocation U open_net (ClearUncommittedEvents s) c sent = (Inr (), sent @ [allocation_wire U s c (fst (NextPendingRow s))])"
proof -
  from saga_inv_next_row [OF assms(1,2)] obtain r where "r \<in> set (sg_rows s)" "NextPendingRow s = (row_data r, True)"
    by blast
  with assms(3) show ?thesis by (auto simp: sendNextAllocation_def allocation_wire_def beers_parse_def)
qed

lemma saga_acts_open:
  assumes "step_observation U e = Some x" and "saga_inv U a" and "beers_parse U a"
    and st: "case x of Succeeded _ _ \<Rightarrow> sg_status a \<in> {SagaRunning, SagaCompleted}
      | _ \<Rightarrow> sg_status a \<in> {SagaCompensating, SagaRejected}"
    and R: "load U R (step_order e) s = Inr (Some saga)" "observe U x saga = Inr (True, a)"
      "Save U R now a newid (s, b) = (Inr (ClearUncommittedEvents a), (s', b'))"
  shows "saga_on_event U open_net R now newid e (s, b) = (Inr (), (s', b' @ reaction U e a))"
proof (cases e)
  case (BeerAvailabilityUpdated base beer n q oid)
  with assms sendNext_open [OF assms(2) _ assms(3), of "ev_CommitId base" b'] show ?thesis
    by (auto simp: OnBeerAvailabilityUpdated_def on_step_def on_bus_def reaction_def publishOutcome_open)
next
  case (QuantityNotFound base beer oid req avl)
  with assms sendCompensations_open [of U "ClearUncommittedEvents a" "ev_CommitId base" b'] show ?thesis
    by (auto simp: OnQuantityNotFound_def on_step_def on_bus_def reaction_def publishOutcome_open)
next
  case (AvailabilityCompensated base beer n q oid)
  with assms show ?thesis
    by (auto simp: OnAvailabilityCompensated_def on_step_def on_bus_def reaction_def publishOutcome_open)
qed (use assms(1) in simp_all)

text \<open>
  C16. The runner implements its contract on every step event it waits for, on a network that
  accepts its messages and with valid identifiers of the order's beers: it appends the
  events of the transition to the saga's stream, publishes them, and then does what the
  status the saga has reached calls for, no more and no less: the next row's command, the
  compensations of all the rows that hold stock, or the integration event with the outcome.
\<close>

theorem step_event_effect:
  assumes "uuid_ok U" and "warehouse_reach U (s, b)" and "step_observation U e = Some x"
    and "step_order e \<noteq> []" and "Parse U (step_order e) = Some i" and "mem_history s (saga_stream U i) \<noteq> []"
    and "observe U x (saga_at U (mem_history s) i) = Inr (True, saga)"
    and "beers_parse U (saga_at U (mem_history s) i)"
  shows "\<exists>s'. saga_on_event U open_net (saga_repo in_memory_store (bus_publisher U open_net)) now newid e (s, b) =
      (Inr (), (s', b @ map (\<lambda>e. event_wire (WEvent e)) (ar_uncommitted saga) @ reaction U e saga)) \<and>
    mem_history s' = (mem_history s)(saga_stream U i := mem_history s (saga_stream U i) @ ar_uncommitted saga)"
proof -
  let ?R = "saga_repo in_memory_store (bus_publisher U open_net)" and ?g = "saga_at U (mem_history s) i"
  note wf = warehouse_reachD [OF assms(2,1)]
  have ok: "saga_inv U ?g" "ar_id ?g = i" using saga_streams_okD [OF wf(3) assms(6)] by simp_all
  have ida: "ar_id saga = i" using observe_id [OF assms(7)] ok(2) by simp
  have l: "loaded_as Saga_Route NewOrderAllocationSaga (mem_history s (saga_stream U (ar_id saga))) saga"
    and new: "ar_uncommitted saga \<noteq> []"
    using observe_loaded [OF assms(7) saga_loaded] ida by simp_all
  obtain t where app: "es_Append in_memory_store now (saga_stream U (ar_id saga))
      (ar_version saga - int (length (ar_uncommitted saga))) newid (ar_uncommitted saga) s = (Inr (), t)"
    and h: "mem_history t = (mem_history s)(saga_stream U i := mem_history s (saga_stream U i) @ ar_uncommitted saga)"
    using mem_saga.save_current_append [OF wf(1), of "bus_publisher U open_net" U saga now newid] l new ida by auto
  have sv: "Save U ?R now saga newid (s, b) =
      (Inr (ClearUncommittedEvents saga), (t, b @ map (\<lambda>e. event_wire (WEvent e)) (ar_uncommitted saga)))"
    by (rule Save_append_ok(3) [OF new _ _ for_each_publish_open(1)]) (use app in \<open>simp_all add: bus_publisher_def\<close>)
  have ld: "load U ?R (step_order e) s = Inr (Some ?g)"
    using mem_saga.load_total [OF wf(1)] assms(4-6) by simp
  note os = observe_status [OF assms(1) ok(1) assms(7)]
  have "saga_on_event U open_net ?R now newid e (s, b) =
      (Inr (), (t, (b @ map (\<lambda>e. event_wire (WEvent e)) (ar_uncommitted saga)) @ reaction U e saga))"
    by (rule saga_acts_open [OF assms(3) observe_inv [OF assms(1) ok(1) assms(7)] _ os(1) ld assms(7) sv])
      (use beers_parse_rows [OF os(2)] assms(8) in simp)
  with h show ?thesis by auto
qed

definition sold_out_saga :: OrderAllocationSaga where
  "sold_out_saga = snd (projr (observe hex_uuid (the (step_observation hex_uuid sold_out))
     (saga_at hex_uuid (mem_history (fst demo_started)) 1)))"

lemma sold_out_observed:
  "step_observation hex_uuid sold_out = Some (the (step_observation hex_uuid sold_out))"
  "step_order sold_out \<noteq> []" "Parse hex_uuid (step_order sold_out) = Some 1"
  "observe hex_uuid (the (step_observation hex_uuid sold_out)) (saga_at hex_uuid (mem_history (fst demo_started)) 1) =
     Inr (True, sold_out_saga)"
  "sg_status sold_out_saga = SagaRejected"
  "beers_parse hex_uuid (saga_at hex_uuid (mem_history (fst demo_started)) 1)"
  by code_simp+

theorem step_event_effect_witness:
  "\<exists>s'. saga_on_event hex_uuid open_net (saga_repo in_memory_store (bus_publisher hex_uuid open_net)) 12 4 sold_out
      (fst demo_started, snd demo_started) =
      (Inr (), (s', snd demo_started @ map (\<lambda>e. event_wire (WEvent e)) (ar_uncommitted sold_out_saga) @
        reaction hex_uuid sold_out sold_out_saga)) \<and>
    mem_history s' = (mem_history (fst demo_started))(saga_stream hex_uuid 1 :=
      mem_history (fst demo_started) (saga_stream hex_uuid 1) @ ar_uncommitted sold_out_saga)"
  by (rule step_event_effect [OF hex_uuid_ok demo_started_reach sold_out_observed(1-3) _ sold_out_observed(4,6)])
    (simp add: demo_started_sagas)

section \<open>Two gaps of the choreography\<close>

text \<open>A network on which integration events cannot be published.\<close>

definition integration_down :: "go_error \<Rightarrow> network" where
  "integration_down err = (\<lambda>_ (topic, _). if prefix integrationEventTopicPrefix topic then Some err else None)"

lemma publishOutcome_down: "publishOutcome U (integration_down err) saga c sent = (Inl err, sent)"
  by (simp add: publishOutcome_def PublishIntegrationEvent_def bus_publish_def integration_down_def Let_def)

text \<open>The messages that announce the outcome of an order.\<close>

definition outcome_of :: "uuid_pkg \<Rightarrow> uuid \<Rightarrow> wire \<Rightarrow> bool" where
  "outcome_of U i w \<longleftrightarrow>
     (\<exists>c reason. w = integration_wire U (WIntegration (IntOrderAllocationCompleted c (UString U i))) \<or>
        w = integration_wire U (WIntegration (IntOrderAllocationRejected c (UString U i) reason)))"

abbreviation outcomes :: "uuid_pkg \<Rightarrow> uuid \<Rightarrow> wire list \<Rightarrow> wire list" where
  "outcomes U i sent \<equiv> filter (outcome_of U i) sent"

lemma not_outcome_topic:
  "\<not> outcome_of U i (commandTopicPrefix @ n, p)" "\<not> outcome_of U i (domainEventTopicPrefix @ n, p)"
  by (auto simp: outcome_of_def integration_wire_def topic_defs)

lemma bus_publish_quiet: "\<not> outcome_of U i (topic, wire_marshal U m) \<Longrightarrow> outcomes U i (snd (bus_publish U net topic m sent)) = outcomes U i sent"
  using bus_publish_cases [of U net topic m sent] by auto

lemma send_quiet:
  "outcomes U i (snd (Send U net m sent)) = outcomes U i sent"
  "outcomes U i (snd (PublishDomainEvent U net m sent)) = outcomes U i sent"
  by (simp_all add: Send_def PublishDomainEvent_def bus_publish_quiet not_outcome_topic)

lemma other_outcome:
  "oid \<noteq> UString U i \<Longrightarrow> \<not> outcome_of U i (integration_wire U (WIntegration (IntOrderAllocationCompleted c oid)))"
  "oid \<noteq> UString U i \<Longrightarrow> \<not> outcome_of U i (integration_wire U (WIntegration (IntOrderAllocationRejected c oid reason)))"
  by (auto simp: outcome_of_def integration_wire_def msg_defs)

lemma publishOutcome_quiet:
  "sg_salesOrderId saga \<noteq> UString U i \<Longrightarrow> outcomes U i (snd (publishOutcome U net saga c sent)) = outcomes U i sent"
  using other_outcome [of "sg_salesOrderId saga" U i]
  by (simp add: publishOutcome_def PublishIntegrationEvent_def NewIntOrderAllocationCompleted_def NewIntOrderAllocationRejected_def
      bus_publish_quiet integration_wire_def)

lemma sendNext_quiet: "outcomes U i (snd (sendNextAllocation U net saga c sent)) = outcomes U i sent"
  by (simp add: sendNextAllocation_def send_quiet split: prod.splits option.splits)

lemma sendCompensations_quiet: "outcomes U i (snd (sendCompensations U net saga c sent)) = outcomes U i sent"
  unfolding sendCompensations_def
  by (rule for_each_invariant [where P = "\<lambda>b. outcomes U i b = outcomes U i sent"]) (simp_all add: send_quiet split: option.splits)

lemmas quiet = send_quiet publishOutcome_quiet sendNext_quiet sendCompensations_quiet

lemma save_quiet:
  assumes "repo_publisher R = bus_publisher U net"
  shows "outcomes U i (snd (snd (Save U R now a cid (s, b)))) = outcomes U i b"
proof -
  obtain r b' where pub: "for_each (\<lambda>e. PublishDomainEvent U net (WEvent e)) (ar_uncommitted a) b = (r, b')" by fastforce
  have "outcomes U i (snd (for_each (\<lambda>e. PublishDomainEvent U net (WEvent e)) (ar_uncommitted a) b)) = outcomes U i b"
    by (rule for_each_invariant [where P = "\<lambda>b'. outcomes U i b' = outcomes U i b"]) (simp_all add: send_quiet)
  then have "outcomes U i b' = outcomes U i b" by (simp add: pub)
  with assms show ?thesis
    by (auto simp: Save_def UncommittedEvents_def Let_def bus_publisher_def pub split: prod.splits sum.splits)
qed

lemma save_returns:
  "Save U R now a cid w = (Inr a', w') \<Longrightarrow> a' = a \<or> a' = ClearUncommittedEvents a"
  by (auto simp: Save_def Let_def split: prod.splits sum.splits option.splits if_splits)

text \<open>No operation of the module announces the outcome of an order whose saga is settled.\<close>

abbreviation wired_repo :: "uuid_pkg \<Rightarrow> network \<Rightarrow> warehouse_event InMemoryEventStore saga_repository" where
  "wired_repo U net \<equiv> saga_repo in_memory_store (bus_publisher U net)"

definition past_outcome :: "uuid_pkg \<Rightarrow> uuid \<Rightarrow> warehouse_event InMemoryEventStore \<Rightarrow> bool" where
  "past_outcome U i s \<longleftrightarrow> mem_history s (saga_stream U i) \<noteq> [] \<and> settled (saga_at U (mem_history s) i)"

lemma on_bus_quiet: "(\<And>sent. outcomes U i (snd (f sent)) = outcomes U i sent) \<Longrightarrow> outcomes U i (snd (snd (on_bus f (s, b)))) = outcomes U i b"
  by (cases "f b") (simp add: on_bus_def, metis snd_conv)

lemma act_quiet:
  assumes "Save U (wired_repo U net) now a cid (s, b) = (q, (t, b1))"
    and "\<And>a' sent. q = Inr a' \<Longrightarrow> sg_salesOrderId a' = sg_salesOrderId a \<Longrightarrow> outcomes U i (snd (act a' sent)) = outcomes U i sent"
  shows "outcomes U i (snd (snd (case q of Inl err \<Rightarrow> (Inl err, (t, b1)) | Inr a' \<Rightarrow> on_bus (act a') (t, b1)))) = outcomes U i b"
proof -
  have "outcomes U i b1 = outcomes U i b" using save_quiet [of "wired_repo U net" U net i now a cid s b] assms(1) by simp
  moreover have "sg_salesOrderId a' = sg_salesOrderId a" if "q = Inr a'" for a'
    using save_returns [of U "wired_repo U net" now a cid "(s, b)" a' "(t, b1)"] assms(1) that by auto
  moreover have "outcomes U i (snd (snd (on_bus (act a') (t, b1)))) = outcomes U i b1" if "q = Inr a'" for a'
    by (rule on_bus_quiet) (use assms(2) calculation(2) that in blast)
  ultimately show ?thesis by (cases q) auto
qed

lemma event_quiet:
  assumes U: "uuid_ok U" and wf: "store_wf s" "saga_streams_ok U (mem_history s)" and past: "past_outcome U i s"
  shows "outcomes U i (snd (snd (saga_on_event U net (wired_repo U net) now newid e (s, b)))) = outcomes U i b"
proof (cases "\<exists>x saga a. step_observation U e = Some x \<and> load U (wired_repo U net) (step_order e) s = Inr (Some saga) \<and> observe U x saga = Inr (True, a)")
  case False
  then have "snd (saga_on_event U net (wired_repo U net) now newid e (s, b)) = (s, b)"
    by (cases e) (auto simp: OnBeerAvailabilityUpdated_def OnQuantityNotFound_def OnAvailabilityCompensated_def on_step_def
        split: sum.splits option.splits prod.splits if_splits)
  then show ?thesis by simp
next
  case True
  then obtain x saga a where x: "step_observation U e = Some x"
    and ld: "load U (wired_repo U net) (step_order e) s = Inr (Some saga)" and a: "observe U x saga = Inr (True, a)" by blast
  obtain j where j: "mem_history s (saga_stream U j) \<noteq> []" "saga = saga_at U (mem_history s) j"
    using mem_saga.load_saga [OF wf(1) ld] .
  have ok: "saga_inv U saga" "ar_id saga = j" using saga_streams_okD [OF wf(2) j(1)] j(2) by simp_all
  have "j \<noteq> i"
    using past a j(2) observe_ignored [OF settled_ignored [of saga x], of U] by (auto simp: past_outcome_def)
  moreover have "saga_inv U a" "ar_id a = j" using observe_inv [OF U ok(1) a] observe_id [OF a] ok(2) by simp_all
  ultimately have oid: "sg_salesOrderId a \<noteq> UString U i" using U by (simp add: saga_inv_def uuid_ok_inj)
  obtain q t b1 where sv: "Save U (wired_repo U net) now a newid (s, b) = (q, (t, b1))" by (metis prod.collapse)
  show ?thesis
  proof (cases e)
    case (BeerAvailabilityUpdated base beer n qq order)
    let ?act = "\<lambda>saga. if sg_status saga = SagaCompleted then publishOutcome U net saga (ev_CommitId base)
               else sendNextAllocation U net saga (ev_CommitId base)"
    have "outcomes U i (snd (snd (case q of Inl err \<Rightarrow> (Inl err, (t, b1)) | Inr a' \<Rightarrow> on_bus (?act a') (t, b1)))) = outcomes U i b"
      by (rule act_quiet [OF sv]) (use oid in \<open>simp add: quiet\<close>)
    with BeerAvailabilityUpdated x ld a sv show ?thesis by (cases q) (auto simp: OnBeerAvailabilityUpdated_def on_step_def)
  next
    case (QuantityNotFound base beer order req avl)
    let ?act = "\<lambda>saga. if sg_status saga = SagaRejected then publishOutcome U net saga (ev_CommitId base)
               else sendCompensations U net saga (ev_CommitId base)"
    have "outcomes U i (snd (snd (case q of Inl err \<Rightarrow> (Inl err, (t, b1)) | Inr a' \<Rightarrow> on_bus (?act a') (t, b1)))) = outcomes U i b"
      by (rule act_quiet [OF sv]) (use oid in \<open>simp add: quiet\<close>)
    with QuantityNotFound x ld a sv show ?thesis by (cases q) (auto simp: OnQuantityNotFound_def on_step_def)
  next
    case (AvailabilityCompensated base beer n qq order)
    let ?act = "\<lambda>saga sent. if sg_status saga = SagaRejected then publishOutcome U net saga (ev_CommitId base) sent
               else (Inr (), sent)"
    have "outcomes U i (snd (snd (case q of Inl err \<Rightarrow> (Inl err, (t, b1)) | Inr a' \<Rightarrow> on_bus (?act a') (t, b1)))) = outcomes U i b"
      by (rule act_quiet [OF sv]) (use oid in \<open>simp add: quiet\<close>)
    with AvailabilityCompensated x ld a sv show ?thesis by (cases q) (auto simp: OnAvailabilityCompensated_def on_step_def)
  qed (use x in simp_all)
qed

lemma trigger_quiet:
  assumes U: "uuid_ok U" and wf: "store_wf s" and past: "past_outcome U i s"
  shows "outcomes U i (snd (snd (OnSalesOrderCreated U net (wired_repo U net) now newid p (s, b)))) = outcomes U i b"
proof (cases "\<exists>m j. unmarshal_salesOrderCreated U p = Inr m \<and> Parse U (som_SalesOrderId m) = Some j \<and>
    mem_history s (saga_stream U j) = []")
  case False
  then have "snd (OnSalesOrderCreated U net (wired_repo U net) now newid p (s, b)) = (s, b)"
    by (auto simp: OnSalesOrderCreated_def mem_saga.get_saga [OF wf] split: sum.splits option.splits)
  then show ?thesis by simp
next
  case True
  then obtain m j where m: "unmarshal_salesOrderCreated U p = Inr m" and j: "Parse U (som_SalesOrderId m) = Some j"
    and h: "mem_history s (saga_stream U j) = []" by blast
  let ?a = "StartOrderAllocation U j (som_CommitId m) (som_Rows m)"
  have "j \<noteq> i" using past h by (auto simp: past_outcome_def)
  then have oid: "sg_salesOrderId ?a \<noteq> UString U i"
    using saga_inv_started [of U j "som_CommitId m" "som_Rows m"] U by (simp add: saga_inv_def start_loaded uuid_ok_inj)
  obtain q t b1 where sv: "Save U (wired_repo U net) now ?a newid (s, b) = (q, (t, b1))" by (metis prod.collapse)
  have "OnSalesOrderCreated U net (wired_repo U net) now newid p (s, b) =
      (case q of Inl err \<Rightarrow> (Inl err, (t, b1))
       | Inr a' \<Rightarrow> on_bus ((if sg_status a' = SagaCompleted then publishOutcome U net a' (som_CommitId m)
           else sendNextAllocation U net a' (som_CommitId m))) (t, b1))"
    using m j h sv by (cases q) (simp_all add: OnSalesOrderCreated_def mem_saga.get_saga [OF wf])
  moreover have "outcomes U i (snd (snd (case q of Inl err \<Rightarrow> (Inl err, (t, b1))
       | Inr a' \<Rightarrow> on_bus ((if sg_status a' = SagaCompleted then publishOutcome U net a' (som_CommitId m)
           else sendNextAllocation U net a' (som_CommitId m))) (t, b1)))) = outcomes U i b"
    by (rule act_quiet [OF sv]) (use oid in \<open>simp add: quiet\<close>)
  ultimately show ?thesis by simp
qed

lemma resume_quiet:
  fixes s :: 'a
  shows "outcomes U i (snd (snd (ResumeInFlight U net R es ids (s, b)))) = outcomes U i b"
proof -
  have "outcomes U i (snd (snd (for_each (\<lambda>(k, saga). on_bus (drive U net saga (ids k))) xs (s, b)))) = outcomes U i b" for xs
  proof (intro for_each_invariant [where P = "\<lambda>w. outcomes U i (snd w) = outcomes U i b"])
    fix x :: "nat \<times> OrderAllocationSaga" and w :: "'a \<times> wire list"
    assume w: "outcomes U i (snd w) = outcomes U i b"
    obtain k saga where x: "x = (k, saga)" by fastforce
    have "outcomes U i (snd (snd (on_bus (drive U net saga (ids k)) (fst w, snd w)))) = outcomes U i (snd w)"
      by (rule on_bus_quiet) (simp add: drive_def quiet)
    with w show "outcomes U i (snd (snd ((case x of (k, saga) \<Rightarrow> on_bus (drive U net saga (ids k))) w))) = outcomes U i b"
      by (simp add: x)
  qed simp
  then show ?thesis by (simp add: ResumeInFlight_def split: sum.splits)
qed

lemma timeout_one_quiet:
  assumes "sg_salesOrderId saga \<noteq> UString U i"
  shows "outcomes U i (snd (snd (timeout_one U net (wired_repo U net) es cutoff now c vid saga (s, b)))) = outcomes U i b"
proof -
  obtain row more where row: "NextPendingRow saga = (row, more)" by fastforce
  let ?rec = "RecordQuantityNotFound U c (row_BeerId row) ''allocation step timed out'' saga"
  let ?act = "\<lambda>a'. if sg_status a' = SagaRejected then publishOutcome U net a' c else sendCompensations U net a' c"
  let ?out = "case ?rec of Inl err \<Rightarrow> (Inl err, (s, b))
      | Inr (_, a) \<Rightarrow> (case Save U (wired_repo U net) now a vid (s, b) of
           (Inl err, w') \<Rightarrow> (Inl err, w')
         | (Inr a', w') \<Rightarrow> if sg_status a' = SagaRejected then on_bus (publishOutcome U net a' c) w'
             else on_bus (sendCompensations U net a' c) w')"
  have run: "timeout_one U net (wired_repo U net) es cutoff now c vid saga (s, b) =
      (case lastActivityOf U es saga s of Inl err \<Rightarrow> (Inl err, (s, b)) | Inr lastActivity \<Rightarrow>
         if \<not> lastActivity < cutoff then (Inr (), (s, b))
         else if sg_status saga = SagaCompensating then on_bus (sendCompensations U net saga c) (s, b) else ?out)"
    by (cases "lastActivityOf U es saga s") (simp_all add: timeout_one_def row)
  have "outcomes U i (snd (snd ?out)) = outcomes U i b"
  proof (cases ?rec)
    case (Inl err)
    then show ?thesis by simp
  next
    case (Inr ca)
    obtain ch a where ca: "ca = (ch, a)" by fastforce
    with Inr have oid: "sg_salesOrderId a \<noteq> UString U i"
      using assms by (auto simp: RecordQuantityNotFound_def msg_defs Let_def split: if_splits sum.splits)
    obtain q t b1 where sv: "Save U (wired_repo U net) now a vid (s, b) = (q, (t, b1))" by (metis prod.collapse)
    have "outcomes U i (snd (snd (case q of Inl err \<Rightarrow> (Inl err, (t, b1)) | Inr a' \<Rightarrow> on_bus (?act a') (t, b1)))) = outcomes U i b"
      by (rule act_quiet [OF sv]) (use oid in \<open>simp add: quiet\<close>)
    then show ?thesis by (cases q) (auto simp: Inr ca sv split: if_splits)
  qed
  moreover have "outcomes U i (snd (snd (on_bus (sendCompensations U net saga c) (s, b)))) = outcomes U i b"
    by (rule on_bus_quiet) (rule sendCompensations_quiet)
  ultimately show ?thesis unfolding run by (simp split: sum.splits)
qed

lemma sweep_quiet:
  assumes U: "uuid_ok U" and wf: "store_wf s" "saga_streams_ok U (mem_history s)" and past: "past_outcome U i s"
  shows "outcomes U i (snd (snd (TimeoutInFlight U net (wired_repo U net) in_memory_store cutoff clock ids ids' (s, b)))) = outcomes U i b"
proof (cases "inFlight U (wired_repo U net) in_memory_store s")
  case (Inl err)
  then show ?thesis by (simp add: TimeoutInFlight_def)
next
  case (Inr sagas)
  have oid: "sg_salesOrderId (snd x) \<noteq> UString U i" if "x \<in> set (enumerate 0 sagas)" for x
  proof -
    have c: "mem_saga.current U s (snd x)" using mem_saga.inFlight_current(2) [OF U wf Inr] that by blast
    then have "saga_inv U (snd x)" using saga_streams_okD [OF wf(2)] unfolding mem_saga.current_def by metis
    moreover have "ar_id (snd x) \<noteq> i"
    proof
      assume "ar_id (snd x) = i"
      with c have "in_flight (saga_at U (mem_history s) i)" unfolding mem_saga.current_def by metis
      with past show False by (auto simp: past_outcome_def in_flight_def settled_def)
    qed
    ultimately show ?thesis using U by (simp add: saga_inv_def uuid_ok_inj)
  qed
  have "outcomes U i (snd (snd (for_each (\<lambda>(k, saga). timeout_one U net (wired_repo U net) in_memory_store cutoff (clock k) (ids k) (ids' k) saga)
      (enumerate 0 sagas) (s, b)))) = outcomes U i b"
  proof (rule for_each_invariant [where P = "\<lambda>w. outcomes U i (snd w) = outcomes U i b"])
    fix x :: "nat \<times> OrderAllocationSaga" and w :: warehouse_state
    assume "x \<in> set (enumerate 0 sagas)" and w: "outcomes U i (snd w) = outcomes U i b"
    obtain k saga where x: "x = (k, saga)" by fastforce
    from timeout_one_quiet [OF oid [OF \<open>x \<in> set (enumerate 0 sagas)\<close>], where s = "fst w" and b = "snd w"] w
    show "outcomes U i (snd (snd ((case x of (k, saga) \<Rightarrow> timeout_one U net (wired_repo U net) in_memory_store cutoff (clock k) (ids k) (ids' k) saga) w))) =
        outcomes U i b"
      by (simp add: x)
  qed simp
  with Inr show ?thesis by (simp add: TimeoutInFlight_def)
qed

lemma handle_quiet:
  assumes "store_wf s" and "command_ok c"
  shows "outcomes U i (snd (snd (warehouse_handle U (availability_repo in_memory_store (bus_publisher U net)) now newid c (s, b)))) = outcomes U i b"
proof -
  let ?R = "availability_repo in_memory_store (bus_publisher U net)"
  obtain r s' b' where run: "warehouse_handle U ?R now newid c (s, b) = (r, (s', b'))" by (metis prod.collapse)
  from mem_avail.handle_cases [OF assms this] show ?thesis
  proof (elim disjE exE conjE)
    fix a assume "discard (Save U ?R now a newid (s, b)) = (r, (s', b'))"
    then have "snd (Save U ?R now a newid (s, b)) = (s', b')" by (metis snd_conv snd_discard)
    with run save_quiet [of ?R U net i now a newid s b] show ?thesis by simp
  qed (simp add: run)
qed

lemma later_quiet:
  assumes U: "uuid_ok U" and "warehouse_reach U w" and past: "past_outcome U i (fst w)" and "warehouse_later U w w'"
  shows "past_outcome U i (fst w') \<and> outcomes U i (snd w') = outcomes U i (snd w)"
proof -
  have p: "past_outcome U i (fst v)" if "warehouse_later U w v" for v
    using sagas_keepD [OF later_keeps [OF U assms(2) that] settled_kept] past unfolding past_outcome_def by blast
  have wf: "store_wf (fst v)" "saga_streams_ok U (mem_history (fst v))" if "warehouse_later U w v" for v
    using warehouse_reach_inv [OF later_reach [OF that assms(2)] U] by (simp_all add: warehouse_inv_def)
  from assms(4) have "outcomes U i (snd w') = outcomes U i (snd w)"
  proof (induction rule: warehouse_later.induct)
    case (handle_command v c net now newid)
    then show ?case using handle_quiet [OF wf(1) [OF handle_command.hyps(1)], where b = "snd v"] by simp
  next
    case (trigger v net now newid p')
    then show ?case using trigger_quiet [OF U wf(1) p, OF trigger.hyps trigger.hyps, where b = "snd v"] by simp
  next
    case (step_event v net now newid e)
    then show ?case using event_quiet [OF U wf p, OF step_event.hyps step_event.hyps step_event.hyps, where b = "snd v"] by simp
  next
    case (resume v net ids)
    then show ?case using resume_quiet [where s = "fst v" and b = "snd v"] by simp
  next
    case (sweep v net cutoff clock ids ids')
    then show ?case using sweep_quiet [OF U wf p, OF sweep.hyps sweep.hyps sweep.hyps, where b = "snd v"] by simp
  qed simp
  with p [OF assms(4)] show ?thesis by blast
qed

lemma publish_events_down:
  "for_each (\<lambda>e. PublishDomainEvent U (integration_down err) (WEvent e)) es sent = (Inr (), sent @ map (\<lambda>e. event_wire (WEvent e)) es)"
  by (induction es arbitrary: sent)
    (simp_all add: PublishDomainEvent_def bus_publish_def integration_down_def Let_def event_wire_def topic_defs)

text \<open>
  C17. The outcome of an order is lost when its publication fails. The runner saves the
  settled saga before it publishes the integration event: when that publication is refused,
  the handler returns the error, the saga is settled and its domain events are on the bus.
  From then on, whatever the module does and whatever the network then accepts - delivering
  this or any other message again, resuming unfinished sagas, sweeping for overdue ones - no
  message with the outcome of that order is ever put on the wire.
\<close>

theorem outcome_lost_when_publish_fails:
  assumes "uuid_ok U" and "warehouse_reach U (s, b)" and "step_observation U e = Some x"
    and "step_order e \<noteq> []" and "Parse U (step_order e) = Some i" and "mem_history s (saga_stream U i) \<noteq> []"
    and "observe U x (saga_at U (mem_history s) i) = Inr (True, saga)"
    and "sg_status saga \<in> {SagaCompleted, SagaRejected}"
  shows "\<exists>s' b'. saga_on_event U (integration_down err) (saga_repo in_memory_store (bus_publisher U (integration_down err))) now newid e (s, b) =
      (Inl err, (s', b')) \<and> b' = b @ map (\<lambda>e. event_wire (WEvent e)) (ar_uncommitted saga) \<and>
    mem_history s' (saga_stream U i) \<noteq> [] \<and> sg_status (saga_at U (mem_history s') i) = sg_status saga \<and>
    (\<forall>s2 b2. warehouse_later U (s', b') (s2, b2) \<longrightarrow> filter (outcome_of U i) b2 = filter (outcome_of U i) b)"
proof -
  let ?net = "integration_down err" and ?g = "saga_at U (mem_history s) i"
  let ?b' = "b @ map (\<lambda>e. event_wire (WEvent e)) (ar_uncommitted saga)"
  note wf = warehouse_reachD [OF assms(2,1)]
  have ok: "saga_inv U ?g" "ar_id ?g = i" using saga_streams_okD [OF wf(3) assms(6)] by simp_all
  have ida: "ar_id saga = i" using observe_id [OF assms(7)] ok(2) by simp
  have l: "loaded_as Saga_Route NewOrderAllocationSaga (mem_history s (saga_stream U (ar_id saga))) saga"
    and new: "ar_uncommitted saga \<noteq> []"
    using observe_loaded [OF assms(7) saga_loaded] ida by simp_all
  obtain t where app: "es_Append in_memory_store now (saga_stream U (ar_id saga))
      (ar_version saga - int (length (ar_uncommitted saga))) newid (ar_uncommitted saga) s = (Inr (), t)"
    using mem_saga.save_current_append [OF wf(1), of None U saga now newid] l new by auto
  have sv: "Save U (wired_repo U ?net) now saga newid (s, b) = (Inr (ClearUncommittedEvents saga), (t, ?b'))"
    by (rule Save_append_ok(3) [OF new _ _ publish_events_down]) (use app in \<open>simp_all add: bus_publisher_def\<close>)
  note sr = mem_saga.save_recorded [OF wf(1) l new sv]
  have ld: "load U (wired_repo U ?net) (step_order e) s = Inr (Some ?g)"
    using mem_saga.load_total [OF wf(1)] assms(4-6) by simp
  have run: "saga_on_event U ?net (wired_repo U ?net) now newid e (s, b) = (Inl err, (t, ?b'))"
    using ld sv assms(3,7,8) observe_status(1) [OF assms(1) ok(1) assms(7)]
    by (cases e) (auto simp: OnBeerAvailabilityUpdated_def OnQuantityNotFound_def OnAvailabilityCompensated_def
        on_step_def on_bus_def publishOutcome_down)
  have h: "mem_history t (saga_stream U i) \<noteq> []" "sg_status (saga_at U (mem_history t) i) = sg_status saga"
    using sr(1,2) ida new by auto
  have past: "past_outcome U i t" using h assms(8) by (auto simp: past_outcome_def settled_def)
  have reach: "warehouse_reach U (t, ?b')" using warehouse_reach.step_event [OF assms(2)] run by (metis snd_conv)
  have "outcomes U i ?b' = outcomes U i b"
    by (simp add: filter_empty_conv event_wire_def not_outcome_topic)
  then have "\<forall>s2 b2. warehouse_later U (t, ?b') (s2, b2) \<longrightarrow> outcomes U i b2 = outcomes U i b"
    using later_quiet [OF assms(1) reach] past by (metis fst_conv snd_conv)
  with run h show ?thesis by blast
qed

theorem outcome_lost_when_publish_fails_witness:
  "\<exists>s' b'. saga_on_event hex_uuid (integration_down (ErrOther ''broker''))
      (saga_repo in_memory_store (bus_publisher hex_uuid (integration_down (ErrOther ''broker'')))) 12 4 sold_out
      (fst demo_started, snd demo_started) = (Inl (ErrOther ''broker''), (s', b')) \<and>
    b' = snd demo_started @ map (\<lambda>e. event_wire (WEvent e)) (ar_uncommitted sold_out_saga) \<and>
    mem_history s' (saga_stream hex_uuid 1) \<noteq> [] \<and> sg_status (saga_at hex_uuid (mem_history s') 1) = sg_status sold_out_saga \<and>
    (\<forall>s2 b2. warehouse_later hex_uuid (s', b') (s2, b2) \<longrightarrow>
       filter (outcome_of hex_uuid 1) b2 = filter (outcome_of hex_uuid 1) (snd demo_started))"
  by (rule outcome_lost_when_publish_fails [OF hex_uuid_ok demo_started_reach sold_out_observed(1-3) _ sold_out_observed(4)])
    (simp_all add: demo_started_sagas sold_out_observed(5))

text \<open>
  C18. A step that timed out may still be executed later: an allocation command that arrives
  after the saga was settled takes the stock for the order all the same, and the event that
  reports it is ignored by the saga, so nothing will ever give the stock back.
\<close>

theorem late_allocation_keeps_stock:
  assumes "uuid_ok U" and "warehouse_reach U (s, b)"
    and "sg_status (saga_at U (mem_history s) i) \<in> {SagaCompleted, SagaRejected}" and "mem_history s (saga_stream U i) \<noteq> []"
    and h: "h = mem_history s (availability_stream U beer)" and "h \<noteq> []"
    and "0 < amount q" and "amount q \<le> amount (av_quantity (stock h))" and "UString U i \<notin> av_held (stock h)"
    and "UString U i \<noteq> []"
    and w: "w = snd (warehouse_handle U (availability_repo in_memory_store pub) now newid
        (NewUpdateAvailabilityDueToSalesOrder beer commitId name q (UString U i)) (s, b))"
  shows "\<exists>e. mem_history (fst w) = (mem_history s)(availability_stream U beer := h @ [e]) \<and>
    amount (av_quantity (stock (h @ [e]))) = amount (av_quantity (stock h)) - amount q \<and>
    UString U i \<in> av_held (stock (h @ [e])) \<and>
    saga_on_event U net (saga_repo in_memory_store pub') now' newid' e (fst w, b') = (Inr (), (fst w, b'))"
proof -
  let ?c = "NewUpdateAvailabilityDueToSalesOrder beer commitId name q (UString U i)"
  note wf = warehouse_reachD [OF assms(2,1)]
  have beer: "av_beerId (stock h) = beer"
    using stock_ids(2) [OF assms(6), of beer] beer_streams_okD [OF wf(2)] by (simp add: h)
  let ?e = "NewBeerAvailabilityUpdated beer commitId (av_beerName (stock h))
      (NewQuantity (qValue (av_quantity (stock h)) - qValue q) (UnitOfMeasure (av_quantity (stock h)))) (UString U i)"
  let ?a = "RaiseEvent Availability_Route ?e (stock h)"
  have dec: "decide ?c h = Inr ?a"
    using assms(6-9) beer by (simp add: msg_defs UpdateDueToSalesOrder_def Let_def)
  have u: "ar_uncommitted ?a = [?e]" by (simp add: avail.raise_fields)
  have ex: "mem_history (fst w) = (mem_history s)(availability_stream U beer := h @ [?e])"
    using mem_avail.handle_exact [OF wf(1,2), of ?c pub now newid b] dec u w
    by (simp add: command_ok_def h msg_defs)
  have st: "stock (h @ [?e]) = ClearUncommittedEvents ?a" using decide_loaded(2) [OF dec] u by simp
  have q: "amount (av_quantity (stock (h @ [?e]))) = amount (av_quantity (stock h)) - amount q"
    unfolding st using sint_sub_in_range [of "qValue q" "qValue (av_quantity (stock h))"] assms(7,8)
    by (simp add: ClearUncommittedEvents_def msg_defs Let_def go_defs)
  have held: "UString U i \<in> av_held (stock (h @ [?e]))"
    unfolding st using assms(10) by (simp add: ClearUncommittedEvents_def msg_defs Let_def)
  have "command_ok ?c" by (simp add: command_ok_def msg_defs)
  from handle_inv [OF assms(1) _ this, of s pub now newid b] wf w have wf': "store_wf (fst w)"
    by (simp add: warehouse_inv_def)
  have sg: "mem_history (fst w) (saga_stream U i) = mem_history s (saga_stream U i)"
    unfolding ex using streams_apart(1) by (metis fun_upd_other)
  have "\<not> awaits x (saga_at U (mem_history s) i)" for x using assms(3) by (cases x) auto
  then have "saga_on_event U net (saga_repo in_memory_store pub') now' newid' ?e (fst w, b') = (Inr (), (fst w, b'))"
    using mem_saga.load_total [OF wf', of U pub' "UString U i"] sg assms(1,4,10)
      observe_ignored [of "Succeeded commitId (UString U beer)" "saga_at U (mem_history s) i" U]
    by (simp add: msg_defs OnBeerAvailabilityUpdated_def on_step_def)
  with ex q held show ?thesis by blast
qed

theorem late_allocation_keeps_stock_witness:
  "\<exists>e. mem_history (fst (snd (warehouse_handle hex_uuid (availability_repo in_memory_store None) 22 11
       (NewUpdateAvailabilityDueToSalesOrder 5 2 ''IPA'' (NewQuantity 30 ''Lt'') (UString hex_uuid 1))
       (fst demo_timed_out, snd demo_timed_out)))) =
     (mem_history (fst demo_timed_out))(availability_stream hex_uuid 5 :=
       mem_history (fst demo_timed_out) (availability_stream hex_uuid 5) @ [e]) \<and>
    amount (av_quantity (stock (mem_history (fst demo_timed_out) (availability_stream hex_uuid 5) @ [e]))) =
      amount (av_quantity (stock (mem_history (fst demo_timed_out) (availability_stream hex_uuid 5)))) - amount (NewQuantity 30 ''Lt'') \<and>
    UString hex_uuid 1 \<in> av_held (stock (mem_history (fst demo_timed_out) (availability_stream hex_uuid 5) @ [e])) \<and>
    saga_on_event hex_uuid open_net (saga_repo in_memory_store None) 23 12 e
      (fst (snd (warehouse_handle hex_uuid (availability_repo in_memory_store None) 22 11
         (NewUpdateAvailabilityDueToSalesOrder 5 2 ''IPA'' (NewQuantity 30 ''Lt'') (UString hex_uuid 1))
         (fst demo_timed_out, snd demo_timed_out))), []) =
      (Inr (), (fst (snd (warehouse_handle hex_uuid (availability_repo in_memory_store None) 22 11
         (NewUpdateAvailabilityDueToSalesOrder 5 2 ''IPA'' (NewQuantity 30 ''Lt'') (UString hex_uuid 1))
         (fst demo_timed_out, snd demo_timed_out))), []))"
proof (rule late_allocation_keeps_stock [OF hex_uuid_ok demo_timed_out_reach _ _ refl _ _ _ _ _ refl])
  show "sg_status (saga_at hex_uuid (mem_history (fst demo_timed_out)) 1) \<in> {SagaCompleted, SagaRejected}" by code_simp
  show "mem_history (fst demo_timed_out) (saga_stream hex_uuid 1) \<noteq> []" by code_simp
  show "mem_history (fst demo_timed_out) (availability_stream hex_uuid 5) \<noteq> []" by code_simp
  show "0 < amount (NewQuantity 30 ''Lt'')" by code_simp
  show "amount (NewQuantity 30 ''Lt'') \<le>
      amount (av_quantity (stock (mem_history (fst demo_timed_out) (availability_stream hex_uuid 5))))" by code_simp
  show "UString hex_uuid 1 \<notin> av_held (stock (mem_history (fst demo_timed_out) (availability_stream hex_uuid 5)))" by code_simp
  show "UString hex_uuid 1 \<noteq> []" by code_simp
qed

end
