(* ===== verification/Sales_Module.thy ===== *)
theory Sales_Module
  imports Sales_Read_Model Warehouse_Module
begin

text \<open>
  The edges of the Sales module: the facade of \<^verbatim>\<open>src/internal/sales/facade.go\<close>, the integration
  publisher of \<^verbatim>\<open>src/internal/sales/module.go\<close>, and the reactions of
  \<^verbatim>\<open>src/internal/sales/integration/allocation_outcome_handler.go\<close>. Producer and consumer of an
  integration event declare their own structs; the properties here say that the two
  modules understand each other.
\<close>

section \<open>The facade\<close>

record SalesOrderRowJson =
  rj_BeerId :: string
  rj_BeerName :: string
  rj_Quantity :: Quantity
  rj_Price :: Price

record SalesOrderJson =
  oj_Id :: string
  oj_SalesOrderNumber :: string
  oj_OrderDate :: instant
  oj_CustomerId :: string
  oj_CustomerName :: string
  oj_Rows :: "SalesOrderRowJson list"

fun facade_rows :: "uuid_pkg \<Rightarrow> SalesOrderRowJson list \<Rightarrow> SalesOrderRowDto list result" where
  "facade_rows U [] = Inr []"
| "facade_rows U (row # rest) =
     (case Parse U (rj_BeerId row) of
        None \<Rightarrow> Inl (ErrInvalid (''invalid beer id: '' @ rj_BeerId row))
      | Some beerId \<Rightarrow>
          (case facade_rows U rest of
             Inl e \<Rightarrow> Inl e
           | Inr rows \<Rightarrow> Inr (\<lparr>so_BeerId = beerId, so_BeerName = rj_BeerName row, so_Quantity = rj_Quantity row,
                               so_Price = rj_Price row\<rparr> # rows)))"

text \<open>
  The identifiers that \<open>uuid.New\<close> supplies are arguments: one for an order without an
  identifier, one for a customer without a valid one, one for the commit; \<open>now\<close> is the
  clock read for an order without a date.
\<close>

definition facade_CreateSalesOrder ::
  "uuid_pkg \<Rightarrow> network \<Rightarrow> uuid \<Rightarrow> uuid \<Rightarrow> uuid \<Rightarrow> instant \<Rightarrow> SalesOrderJson \<Rightarrow> wire list \<Rightarrow> (wire list, string) outcome" where
  "facade_CreateSalesOrder U net freshOrder freshCustomer freshCommit now body sent =
     (case (if oj_Id body \<noteq> [] then Parse U (oj_Id body) else Some freshOrder) of
        None \<Rightarrow> (Inl (ErrInvalid (''invalid sales order id: '' @ oj_Id body)), sent)
      | Some salesOrderId \<Rightarrow>
          let customerId = (case Parse U (oj_CustomerId body) of None \<Rightarrow> freshCustomer | Some c \<Rightarrow> c);
              orderDate = (if oj_OrderDate body = 0 then now else oj_OrderDate body)
          in case facade_rows U (oj_Rows body) of
               Inl e \<Rightarrow> (Inl e, sent)
             | Inr rows \<Rightarrow>
                 (case Send U net (SCommand (NewCreateSalesOrder salesOrderId freshCommit (oj_SalesOrderNumber body) orderDate
                         customerId (oj_CustomerName body) rows)) sent of
                    (Inl e, sent') \<Rightarrow> (Inl e, sent')
                  | (Inr _, sent') \<Rightarrow> (Inr (UString U salesOrderId), sent')))"

section \<open>Integration events\<close>

definition int_row :: "uuid_pkg \<Rightarrow> SalesOrderRowDto \<Rightarrow> SalesOrderCreatedRow" where
  "int_row U row = \<lparr>sr_BeerId = UString U (so_BeerId row), sr_BeerName = so_BeerName row,
     sr_Quantity = qValue (so_Quantity row), sr_UnitOfMeasure = UnitOfMeasure (so_Quantity row)\<rparr>"

fun publish_created :: "uuid_pkg \<Rightarrow> network \<Rightarrow> sales_event \<Rightarrow> wire list \<Rightarrow> (wire list, unit) outcome" where
  "publish_created U net (SalesOrderCreated base salesOrderId _ _ _ _ rows) sent =
     PublishIntegrationEvent U net
       (SIntegration (NewIntSalesOrderCreated U salesOrderId (ev_CommitId base) (map (int_row U) rows))) sent"
| "publish_created U net _ sent = (Inr (), sent)"

definition OrderAllocationCompletedTopic :: string where
  "OrderAllocationCompletedTopic = ''warehouses.order_allocation_completed''"

definition OrderAllocationRejectedTopic :: string where
  "OrderAllocationRejectedTopic = ''warehouses.order_allocation_rejected''"

definition outcome_parse :: "uuid_pkg \<Rightarrow> payload \<Rightarrow> allocationOutcomeMessage option result" where
  "outcome_parse U payload =
     (case unmarshal_allocationOutcome U payload of
        Inl err \<Rightarrow> Inl err
      | Inr message \<Rightarrow> (case Parse U (aom_SalesOrderId message) of None \<Rightarrow> Inr None | Some _ \<Rightarrow> Inr (Some message)))"

definition OnAllocationCompleted :: "uuid_pkg \<Rightarrow> network \<Rightarrow> payload \<Rightarrow> wire list \<Rightarrow> (wire list, unit) outcome" where
  "OnAllocationCompleted U net payload sent =
     (case outcome_parse U payload of
        Inl err \<Rightarrow> (Inl err, sent)
      | Inr None \<Rightarrow> (Inr (), sent)
      | Inr (Some message) \<Rightarrow>
          (case MustParse U (aom_SalesOrderId message) of
             Inl p \<Rightarrow> (Inl p, sent)
           | Inr i \<Rightarrow> Send U net (SCommand (NewMarkSalesOrderAllocated i (aom_CommitId message))) sent))"

definition OnAllocationRejected :: "uuid_pkg \<Rightarrow> network \<Rightarrow> payload \<Rightarrow> wire list \<Rightarrow> (wire list, unit) outcome" where
  "OnAllocationRejected U net payload sent =
     (case outcome_parse U payload of
        Inl err \<Rightarrow> (Inl err, sent)
      | Inr None \<Rightarrow> (Inr (), sent)
      | Inr (Some message) \<Rightarrow>
          (case MustParse U (aom_SalesOrderId message) of
             Inl p \<Rightarrow> (Inl p, sent)
           | Inr i \<Rightarrow> Send U net (SCommand (NewMarkSalesOrderAllocationRejected i (aom_CommitId message) (aom_Reason message))) sent))"

section \<open>Properties\<close>

definition row_of_json :: "uuid_pkg \<Rightarrow> SalesOrderRowJson \<Rightarrow> SalesOrderRowDto" where
  "row_of_json U row = \<lparr>so_BeerId = the (Parse U (rj_BeerId row)), so_BeerName = rj_BeerName row,
     so_Quantity = rj_Quantity row, so_Price = rj_Price row\<rparr>"

lemma facade_rows_ok:
  "\<forall>row \<in> set rows. Parse U (rj_BeerId row) \<noteq> None \<Longrightarrow> facade_rows U rows = Inr (map (row_of_json U) rows)"
  by (induction rows) (auto simp: row_of_json_def)

lemma facade_rows_error:
  "\<exists>row \<in> set rows. Parse U (rj_BeerId row) = None \<Longrightarrow> \<exists>m. facade_rows U rows = Inl (ErrInvalid m)"
  by (induction rows) (fastforce split: option.splits sum.splits)+

definition body_valid :: "uuid_pkg \<Rightarrow> SalesOrderJson \<Rightarrow> bool" where
  "body_valid U body \<longleftrightarrow> (oj_Id body = [] \<or> Parse U (oj_Id body) \<noteq> None) \<and>
     (\<forall>row \<in> set (oj_Rows body). Parse U (rj_BeerId row) \<noteq> None)"

text \<open>
  The facade validates before it sends: an order whose optional identifier or a beer
  identifier does not parse is refused with an invalid-request error and nothing is sent;
  any other order is sent as exactly one command with all its rows, and the identifier
  returned to the client is the command's.
\<close>

theorem facade_validates:
  "if body_valid U body
   then \<exists>i customer date. (if oj_Id body = [] then i = freshOrder else Parse U (oj_Id body) = Some i) \<and>
     facade_CreateSalesOrder U open_net freshOrder freshCustomer freshCommit now body sent =
       (Inr (UString U i), sent @ [command_wire (SCommand (NewCreateSalesOrder i freshCommit (oj_SalesOrderNumber body) date
          customer (oj_CustomerName body) (map (row_of_json U) (oj_Rows body))))])
   else \<exists>m. facade_CreateSalesOrder U net freshOrder freshCustomer freshCommit now body sent = (Inl (ErrInvalid m), sent)"
proof (cases "body_valid U body")
  case True
  then obtain i where i: "if oj_Id body = [] then i = freshOrder else Parse U (oj_Id body) = Some i"
    by (cases "oj_Id body = []") (auto simp: body_valid_def)
  from True have rows: "facade_rows U (oj_Rows body) = Inr (map (row_of_json U) (oj_Rows body))"
    by (intro facade_rows_ok) (simp add: body_valid_def)
  show ?thesis using True i rows by (auto simp: facade_CreateSalesOrder_def Let_def split: if_splits)
next
  case False
  then consider "oj_Id body \<noteq> []" "Parse U (oj_Id body) = None"
    | "\<exists>row \<in> set (oj_Rows body). Parse U (rj_BeerId row) = None"
    by (auto simp: body_valid_def)
  then show ?thesis
  proof cases
    case 1
    with False show ?thesis by (simp add: facade_CreateSalesOrder_def)
  next
    case 2
    from facade_rows_error [OF this] False show ?thesis
      by (auto simp: facade_CreateSalesOrder_def Let_def split: option.splits)
  qed
qed

definition saga_row :: "uuid_pkg \<Rightarrow> SalesOrderRowDto \<Rightarrow> SagaRowData" where
  "saga_row U row = \<lparr>row_BeerId = UString U (so_BeerId row), row_BeerName = so_BeerName row,
     row_Quantity = qValue (so_Quantity row), row_UnitOfMeasure = UnitOfMeasure (so_Quantity row)\<rparr>"

text \<open>
  C22. The contract between Sales and Warehouses, in the direction of the order: the
  integration event that Sales publishes for a created order goes to the topic the saga
  runner subscribes to, and the runner's own struct reads from it the order's identifier,
  the commit and every row with its beer, quantity and unit.
\<close>

theorem order_created_contract:
  assumes "uuid_ok U"
  shows "\<exists>p. publish_created U open_net (SalesOrderCreated base i n d ci cn rows) sent =
      (Inr (), sent @ [(integrationEventTopicPrefix @ SalesOrderCreatedTopic, Raw p)]) \<and>
    unmarshal_salesOrderCreated U p =
      Inr \<lparr>som_CommitId = ev_CommitId base, som_SalesOrderId = UString U i, som_Rows = map (saga_row U) rows\<rparr>"
proof -
  have "row_of_int_row \<circ> int_row U = saga_row U"
    by (simp add: fun_eq_iff row_of_int_row_def int_row_def saga_row_def)
  with unmarshal_marshal_salesOrderCreated [OF assms, of "ev_CommitId base" "UString U i" "map (int_row U) rows"]
  show ?thesis
    by (auto simp: msg_defs integration_wire_def SalesOrderCreatedTopic_def SalesOrderCreatedName_def)
qed

theorem order_created_contract_witness:
  "\<exists>p. publish_created hex_uuid open_net (SalesOrderCreated (NewDomainEventBase 1 2) 1 ''n'' 5 7 ''c''
        [\<lparr>so_BeerId = 9, so_BeerName = ''IPA'', so_Quantity = NewQuantity 30 ''Lt'', so_Price = NewPrice 4 ''EUR''\<rparr>]) [] =
      (Inr (), [] @ [(integrationEventTopicPrefix @ SalesOrderCreatedTopic, Raw p)]) \<and>
    unmarshal_salesOrderCreated hex_uuid p =
      Inr \<lparr>som_CommitId = ev_CommitId (NewDomainEventBase 1 2), som_SalesOrderId = UString hex_uuid 1,
        som_Rows = [\<lparr>row_BeerId = UString hex_uuid 9, row_BeerName = ''IPA'', row_Quantity = 30, row_UnitOfMeasure = ''Lt''\<rparr>]\<rparr>"
proof -
  let ?row = "\<lparr>so_BeerId = 9, so_BeerName = ''IPA'', so_Quantity = NewQuantity 30 ''Lt'', so_Price = NewPrice 4 ''EUR''\<rparr>"
  have "map (saga_row hex_uuid) [?row] =
      [\<lparr>row_BeerId = UString hex_uuid 9, row_BeerName = ''IPA'', row_Quantity = 30, row_UnitOfMeasure = ''Lt''\<rparr>]"
    by (simp add: saga_row_def NewQuantity_def)
  with order_created_contract [OF hex_uuid_ok, of "NewDomainEventBase 1 2" 1 "''n''" 5 7 "''c''" "[?row]" "[]"]
  show ?thesis by (simp only:)
qed

definition on_outcome :: "uuid_pkg \<Rightarrow> network \<Rightarrow> wire \<Rightarrow> wire list \<Rightarrow> (wire list, unit) outcome" where
  "on_outcome U net w sent =
     (case w of
        (topic, Raw p) \<Rightarrow>
          if topic = integrationEventTopicPrefix @ OrderAllocationCompletedTopic then OnAllocationCompleted U net p sent
          else if topic = integrationEventTopicPrefix @ OrderAllocationRejectedTopic then OnAllocationRejected U net p sent
          else (Inr (), sent)
      | _ \<Rightarrow> (Inr (), sent))"

text \<open>
  C23. The contract in the other direction: what the runner announces about a settled saga,
  Sales turns into exactly the command that settles that order the same way, with the same
  commit and, for a rejection, the same reason.
\<close>

theorem outcome_contract:
  assumes "uuid_ok U" and "sg_salesOrderId saga = UString U i" and "sg_status saga \<in> {SagaCompleted, SagaRejected}"
  shows "on_outcome U open_net (outcome_wire U saga commitId) sent =
    (Inr (), sent @ [command_wire (SCommand
       (if sg_status saga = SagaCompleted then NewMarkSalesOrderAllocated i commitId
        else NewMarkSalesOrderAllocationRejected i commitId (sg_reason saga)))])"
  using assms(2,3) unmarshal_marshal_outcome [OF assms(1)] assms(1)
  by (auto simp: outcome_wire_def integration_wire_def on_outcome_def OnAllocationCompleted_def OnAllocationRejected_def
      outcome_parse_def OrderAllocationCompletedTopic_def OrderAllocationRejectedTopic_def
      OrderAllocationCompletedName_def OrderAllocationRejectedName_def)

theorem outcome_contract_witness:
  "on_outcome hex_uuid open_net (outcome_wire hex_uuid (StartOrderAllocation hex_uuid 1 2 []) 9) [] =
    (Inr (), [] @ [command_wire (SCommand
       (if sg_status (StartOrderAllocation hex_uuid 1 2 []) = SagaCompleted then NewMarkSalesOrderAllocated 1 9
        else NewMarkSalesOrderAllocationRejected 1 9 (sg_reason (StartOrderAllocation hex_uuid 1 2 []))))])"
  by (rule outcome_contract [OF hex_uuid_ok]) (simp_all add: StartOrderAllocation_def msg_defs Let_def)

end
