(* ===== verification/Warehouse_Read_Model.thy ===== *)
theory Warehouse_Read_Model
  imports Warehouse_Module "HOL-Library.Multiset"
begin

text \<open>
  The read side of the Warehouses module: \<^verbatim>\<open>src/internal/warehouses/readmodel\<close> (the DTO, the
  projector and the in-memory service), \<^verbatim>\<open>rebuild.go\<close> and \<^verbatim>\<open>facade.go\<close>. The projector writes
  through the interface \<open>availabilityWriter\<close>, a parameter of its definitions; the locale
  \<open>availability_writer\<close> states what an adapter promises, and what a sequence of deliveries
  builds is proved once for every adapter.
\<close>

section \<open>The in-memory service\<close>

record AvailabilityDto =
  ad_BeerId :: string
  ad_BeerName :: string
  ad_Quantity :: Quantity

record AvailabilityService =
  sv_availabilities :: "(string \<times> AvailabilityDto) list"

definition NewAvailabilityService :: AvailabilityService where
  "NewAvailabilityService = \<lparr>sv_availabilities = []\<rparr>"

definition UpsertAvailability :: "AvailabilityDto \<Rightarrow> AvailabilityService \<Rightarrow> (AvailabilityService, unit) outcome" where
  "UpsertAvailability availability s =
     (Inr (), s\<lparr>sv_availabilities := AList.update (ad_BeerId availability) availability (sv_availabilities s)\<rparr>)"

definition GetAvailability :: "string \<Rightarrow> AvailabilityService \<Rightarrow> AvailabilityDto result" where
  "GetAvailability beerId s =
     (case map_of (sv_availabilities s) beerId of None \<Rightarrow> Inl ErrNotFound | Some availability \<Rightarrow> Inr availability)"

text \<open>
  A Go map is enumerated in an order the language leaves open, and \<^verbatim>\<open>sort.Slice\<close> is not stable:
  the parameter \<open>arrange\<close> is the composition of the two. All that is documented is that it
  returns the same entries, sorted by name.
\<close>

definition sorted_by_name :: "(AvailabilityDto list \<Rightarrow> AvailabilityDto list) \<Rightarrow> bool" where
  "sorted_by_name arrange \<longleftrightarrow>
     (\<forall>xs. mset (arrange xs) = mset xs \<and> sorted (map ad_BeerName (arrange xs)))"

definition GetAvailabilities ::
  "(AvailabilityDto list \<Rightarrow> AvailabilityDto list) \<Rightarrow> Page \<Rightarrow> AvailabilityService \<Rightarrow> AvailabilityDto list" where
  "GetAvailabilities arrange page s = page_slice page (arrange (map snd (sv_availabilities s)))"

section \<open>The projector\<close>

type_synonym 'v availabilityWriter = "AvailabilityDto \<Rightarrow> 'v \<Rightarrow> ('v, unit) outcome"

definition projector_upsert ::
  "'v availabilityWriter \<Rightarrow> string \<Rightarrow> string \<Rightarrow> Quantity \<Rightarrow> 'v \<Rightarrow> ('v, unit) outcome" where
  "projector_upsert writer beerId beerName quantity v =
     (case writer \<lparr>ad_BeerId = beerId, ad_BeerName = beerName, ad_Quantity = quantity\<rparr> v of
        (Inl err, v') \<Rightarrow> (Inl err, v')
      | (Inr _, v') \<Rightarrow> (Inr (), v'))"

text \<open>
  The type switch of the rebuild, which is also how the three subscriptions of
  \<^verbatim>\<open>module.go\<close> dispatch: each of the three handlers of the projector takes its own event
  type, and every other event is not projected.
\<close>

fun project_availability :: "uuid_pkg \<Rightarrow> 'v availabilityWriter \<Rightarrow> warehouse_event \<Rightarrow> 'v \<Rightarrow> ('v, unit) outcome" where
  "project_availability U writer (AvailabilityUpdatedDueToProductionOrder _ beerId beerName quantity) v =
     projector_upsert writer (UString U beerId) beerName quantity v"
| "project_availability U writer (BeerAvailabilityUpdated _ beerId beerName quantity _) v =
     projector_upsert writer (UString U beerId) beerName quantity v"
| "project_availability U writer (AvailabilityCompensated _ beerId beerName quantity _) v =
     projector_upsert writer (UString U beerId) beerName quantity v"
| "project_availability U writer _ v = (Inr (), v)"

section \<open>Rebuild\<close>

definition rebuild_availability_stream ::
  "uuid_pkg \<Rightarrow> ('s, warehouse_event) EventStore \<Rightarrow> 's \<Rightarrow> 'v availabilityWriter \<Rightarrow> string \<Rightarrow> 'v \<Rightarrow> ('v, unit) outcome" where
  "rebuild_availability_stream U es st writer streamID v =
     (case es_ReadStream es streamID st of
        Inl err \<Rightarrow> (Inl err, v)
      | Inr stored \<Rightarrow> for_each (\<lambda>record. project_availability U writer (Event record)) stored v)"

definition warehouses_RebuildReadModel ::
  "uuid_pkg \<Rightarrow> ('s, warehouse_event) EventStore \<Rightarrow> (string \<Rightarrow> 's \<Rightarrow> string list result) \<Rightarrow> 's
     \<Rightarrow> 'v availabilityWriter \<Rightarrow> 'v \<Rightarrow> ('v, unit) outcome" where
  "warehouses_RebuildReadModel U es lister st writer v =
     (case lister Availability_StreamName st of
        Inl err \<Rightarrow> (Inl err, v)
      | Inr ids \<Rightarrow> for_each (rebuild_availability_stream U es st writer) ids v)"

section \<open>The facade\<close>

record ProductionOrderJson =
  po_BeerId :: string
  po_BeerName :: string
  po_Quantity :: Quantity

definition facade_UpdateAvailabilityDueToProductionOrder ::
  "uuid_pkg \<Rightarrow> network \<Rightarrow> uuid \<Rightarrow> ProductionOrderJson \<Rightarrow> wire list \<Rightarrow> (wire list, string) outcome" where
  "facade_UpdateAvailabilityDueToProductionOrder U net freshCommit body sent =
     (case Parse U (po_BeerId body) of
        None \<Rightarrow> (Inl (ErrInvalid (''invalid beer id: '' @ po_BeerId body)), sent)
      | Some beerId \<Rightarrow>
          (case Send U net (WCommand (NewUpdateAvailabilityDueToProductionOrder beerId freshCommit
                   (po_BeerName body) (po_Quantity body))) sent of
             (Inl err, sent') \<Rightarrow> (Inl err, sent')
           | (Inr _, sent') \<Rightarrow> (Inr (UString U beerId), sent')))"

section \<open>What a sequence of deliveries builds\<close>

text \<open>The view an event carries, and the view of an aggregate.\<close>

fun event_view :: "uuid_pkg \<Rightarrow> warehouse_event \<Rightarrow> AvailabilityDto option" where
  "event_view U (AvailabilityUpdatedDueToProductionOrder _ b n q) = Some \<lparr>ad_BeerId = UString U b, ad_BeerName = n, ad_Quantity = q\<rparr>"
| "event_view U (BeerAvailabilityUpdated _ b n q _) = Some \<lparr>ad_BeerId = UString U b, ad_BeerName = n, ad_Quantity = q\<rparr>"
| "event_view U (AvailabilityCompensated _ b n q _) = Some \<lparr>ad_BeerId = UString U b, ad_BeerName = n, ad_Quantity = q\<rparr>"
| "event_view U _ = None"

definition dto_of_stock :: "uuid_pkg \<Rightarrow> Availability \<Rightarrow> AvailabilityDto" where
  "dto_of_stock U a = \<lparr>ad_BeerId = UString U (av_beerId a), ad_BeerName = av_beerName a, ad_Quantity = av_quantity a\<rparr>"

text \<open>The views delivered for a beer, oldest first.\<close>

definition views_of :: "uuid_pkg \<Rightarrow> BeerId \<Rightarrow> warehouse_event list \<Rightarrow> AvailabilityDto list" where
  "views_of U b es = List.map_filter (event_view U) (filter (\<lambda>e. event_beer e = Some b) es)"

definition last_view :: "AvailabilityDto list \<Rightarrow> AvailabilityDto option" where
  "last_view vs = (if vs = [] then None else Some (last vs))"

lemma views_of_snoc:
  "views_of U b (es @ [e]) = views_of U b es @
     (if event_beer e = Some b then case event_view U e of None \<Rightarrow> [] | Some d \<Rightarrow> [d] else [])"
  by (auto simp: views_of_def map_filter_simps(1) List.map_filter_def split: option.splits)

lemma views_of_simps [simp]: "views_of U b [] = []"
  by (simp add: views_of_def List.map_filter_def)

lemma views_of_own:
  "\<forall>e \<in> set es. event_beer e = Some b \<Longrightarrow> views_of U b es = List.map_filter (event_view U) es"
  by (simp add: views_of_def)

lemma event_view_beer: "event_view U e = Some d \<Longrightarrow> \<exists>b. event_beer e = Some b \<and> ad_BeerId d = UString U b"
  by (cases e) auto

text \<open>Every view a beer's stream carries is what replaying it shows.\<close>

lemma stock_view:
  assumes "\<forall>e \<in> set hist. event_beer e = Some b" and "views_of U b hist \<noteq> []"
  shows "last (views_of U b hist) = dto_of_stock U (stock hist)"
  using assms
proof (induction hist rule: rev_induct)
  case (snoc e es)
  have e: "event_beer e = Some b" and es: "\<forall>e \<in> set es. event_beer e = Some b" using snoc.prems(1) by auto
  show ?case
  proof (cases "event_view U e")
    case None
    then have "views_of U b (es @ [e]) = views_of U b es" by (simp add: views_of_snoc)
    moreover have "stock (es @ [e]) = ApplyEvent Availability_Route e (stock es)" by (simp add: stock_def)
    moreover have "es \<noteq> []" using calculation(1) snoc.prems(2) by auto
    ultimately show ?thesis
      using snoc e None stock_ids(2) [OF \<open>es \<noteq> []\<close> es]
      by (cases e) (simp_all add: dto_of_stock_def SetID_def)
  next
    case (Some d)
    then have "views_of U b (es @ [e]) = views_of U b es @ [d]" using e by (simp add: views_of_snoc)
    then show ?thesis using Some e by (cases e) (auto simp: dto_of_stock_def stock_def Let_def)
  qed
qed simp

locale availability_writer =
  fixes writer :: "'v availabilityWriter"
    and view :: "'v \<Rightarrow> string \<rightharpoonup> AvailabilityDto"
    and holds :: "AvailabilityDto \<Rightarrow> bool"
  assumes write_ok: "holds d \<Longrightarrow> writer d v = (Inr (), v') \<Longrightarrow> view v' = (view v)(ad_BeerId d \<mapsto> d)"
    and write_failed: "writer d v = (Inl err, v') \<Longrightarrow> view v' = view v"
begin

lemma project_step:
  assumes "project_availability U writer e v = (r, v')" and "\<forall>d. event_view U e = Some d \<longrightarrow> holds d"
  shows "view v' = (case r of Inl _ \<Rightarrow> view v
    | Inr _ \<Rightarrow> (case event_view U e of None \<Rightarrow> view v | Some d \<Rightarrow> (view v)(ad_BeerId d \<mapsto> d)))"
  using assms write_ok write_failed
  by (cases e) (auto simp: projector_upsert_def split: prod.splits sum.splits)

text \<open>The last delivery wins, for each beer by itself.\<close>

lemma project_last:
  assumes "uuid_ok U" and "\<forall>e \<in> set es. \<forall>d. event_view U e = Some d \<longrightarrow> holds d"
    and "for_each (project_availability U writer) es v = (Inr (), v')"
  shows "view v' (UString U b) = (case last_view (views_of U b es) of None \<Rightarrow> view v (UString U b) | Some d \<Rightarrow> Some d)"
  using assms(2,3)
proof (induction es arbitrary: v' rule: rev_induct)
  case (snoc e es)
  obtain r w where w: "for_each (project_availability U writer) es v = (r, w)" by fastforce
  with snoc.prems(2) have r: "r = Inr ()" and step: "project_availability U writer e w = (Inr (), v')"
    by (auto simp: for_each_append split: sum.splits prod.splits)
  have IH: "view w (UString U b) = (case last_view (views_of U b es) of None \<Rightarrow> view v (UString U b) | Some d \<Rightarrow> Some d)"
    using snoc w r by simp
  have v': "view v' = (case event_view U e of None \<Rightarrow> view w | Some d \<Rightarrow> (view w)(ad_BeerId d \<mapsto> d))"
    using project_step [OF step] snoc.prems(1) by simp
  show ?case
  proof (cases "event_view U e")
    case (Some d)
    then obtain c where "event_beer e = Some c" and "ad_BeerId d = UString U c" using event_view_beer by blast
    with v' IH Some show ?thesis by (auto simp: views_of_snoc last_view_def uuid_ok_inj [OF assms(1)])
  qed (use v' IH in \<open>simp add: views_of_snoc last_view_def\<close>)
qed (simp add: last_view_def)

text \<open>When a beer's events arrive in the order of its stream, the view is the aggregate's.\<close>

lemma project_in_order:
  assumes "uuid_ok U" and "\<forall>e \<in> set es. \<forall>d. event_view U e = Some d \<longrightarrow> holds d"
    and "for_each (project_availability U writer) es v = (Inr (), v')"
    and "filter (\<lambda>e. event_beer e = Some b) es = hist"
  shows "view v' (UString U b) =
    (if views_of U b hist = [] then view v (UString U b) else Some (dto_of_stock U (stock hist)))"
proof -
  have own: "\<forall>e \<in> set hist. event_beer e = Some b" using assms(4) by auto
  have "views_of U b es = views_of U b hist"
    using assms(4) by (auto simp: views_of_def)
  with project_last [OF assms(1-3), of b] stock_view [OF own, of U] show ?thesis
    by (auto simp: last_view_def)
qed

end

interpretation mem_view: availability_writer UpsertAvailability "\<lambda>s. map_of (sv_availabilities s)" "\<lambda>_. True"
proof
  show "map_of (sv_availabilities v') = (map_of (sv_availabilities v))(ad_BeerId d \<mapsto> d)"
    if "UpsertAvailability d v = (Inr (), v')" for d v v'
    using that by (auto simp: UpsertAvailability_def AList.update_conv')
  show "map_of (sv_availabilities v') = map_of (sv_availabilities v)"
    if "UpsertAvailability d v = (Inl err, v')" for d v v' err
    using that by (simp add: UpsertAvailability_def)
qed

lemma project_memory_ok: "fst (project_availability U UpsertAvailability e v) = Inr ()"
  by (cases e) (simp_all add: projector_upsert_def UpsertAvailability_def)

lemma project_memory_total:
  "for_each (project_availability U UpsertAvailability) es v =
     (Inr (), snd (for_each (project_availability U UpsertAvailability) es v))"
proof (induction es arbitrary: v)
  case (Cons e es)
  obtain v' where "project_availability U UpsertAvailability e v = (Inr (), v')"
    using project_memory_ok [of U e v] by (metis prod.collapse)
  with Cons [of v'] show ?case by simp
qed simp

text \<open>
  C24. The stock view follows the deliveries: whatever events the projector receives, in any
  order and any number of times, a query for a beer returns the quantity carried by the
  event of that beer delivered last, and "not found" when no quantity of it was delivered.
\<close>

theorem availability_last_delivery_wins:
  assumes "uuid_ok U"
  shows "GetAvailability (UString U b)
      (snd (for_each (project_availability U UpsertAvailability) es NewAvailabilityService)) =
    (if views_of U b es = [] then Inl ErrNotFound else Inr (last (views_of U b es)))"
  using mem_view.project_last [OF assms _ project_memory_total, of es NewAvailabilityService b]
  by (auto simp: GetAvailability_def last_view_def NewAvailabilityService_def)

theorem availability_last_delivery_wins_witness:
  "GetAvailability (UString hex_uuid 5) (snd (for_each (project_availability hex_uuid UpsertAvailability)
      [NewBeerAvailabilityUpdated 5 2 ''IPA'' (NewQuantity 30 ''Lt'') ''o'',
       NewAvailabilityUpdatedDueToProductionOrder 5 1 ''IPA'' (NewQuantity 100 ''Lt'')] NewAvailabilityService)) =
    Inr \<lparr>ad_BeerId = UString hex_uuid 5, ad_BeerName = ''IPA'', ad_Quantity = NewQuantity 100 ''Lt''\<rparr>"
  using availability_last_delivery_wins [OF hex_uuid_ok, of 5
      "[NewBeerAvailabilityUpdated 5 2 ''IPA'' (NewQuantity 30 ''Lt'') ''o'',
        NewAvailabilityUpdatedDueToProductionOrder 5 1 ''IPA'' (NewQuantity 100 ''Lt'')]"]
  by (simp add: views_of_def msg_defs map_filter_simps(1))

section \<open>Rebuilding\<close>

lemma rebuild_availability_in_memory:
  assumes "InMemory_ListStreams Availability_StreamName st = Inr ids"
  shows "warehouses_RebuildReadModel U in_memory_store InMemory_ListStreams st writer v =
    for_each (project_availability U writer) (concat (map (mem_history st) ids)) v"
proof -
  have "rebuild_availability_stream U in_memory_store st writer =
      (\<lambda>sid. for_each (project_availability U writer) (mem_history st sid))"
    by (simp add: fun_eq_iff rebuild_availability_stream_def in_memory_store_def InMemory_ReadStream_def
        mem_history_def for_each_map)
  then show ?thesis
    unfolding warehouses_RebuildReadModel_def assms for_each_concat by simp
qed

text \<open>The concatenation of the beers' streams holds each beer's stream unbroken.\<close>

lemma filter_streams:
  assumes "uuid_ok U" and "beer_streams_ok U h" and "distinct ids"
    and "\<forall>sid \<in> set ids. sid \<in> range (availability_stream U)"
  shows "filter (\<lambda>e. event_beer e = Some b) (concat (map h ids)) =
    (if availability_stream U b \<in> set ids then h (availability_stream U b) else [])"
  using assms(3,4)
proof (induction ids)
  case (Cons sid ids)
  then obtain c where c: "sid = availability_stream U c" by auto
  have "filter (\<lambda>e. event_beer e = Some b) (h sid) = (if c = b then h sid else [])"
    using beer_streams_okD [OF assms(2)] by (auto simp: c filter_empty_conv intro!: filter_True)
  moreover have "sid = availability_stream U b \<longleftrightarrow> c = b" by (simp add: c availability_stream_def uuid_ok_inj [OF assms(1)])
  ultimately show ?case using Cons by auto
qed simp

text \<open>
  Rebuilding the stock view from the event store returns no error, and afterwards a query
  for a beer returns the name and quantity of the beer's aggregate, or "not found" when the
  beer's stream holds no event with a quantity (a beer that was only ever asked for).
\<close>

theorem availability_rebuild_correct:
  fixes b :: BeerId
  assumes "uuid_ok U" and "warehouse_reach U (s, sent)"
  defines "rebuilt \<equiv> warehouses_RebuildReadModel U in_memory_store InMemory_ListStreams s UpsertAvailability NewAvailabilityService"
    and "hist \<equiv> mem_history s (availability_stream U b)"
  shows "fst rebuilt = Inr () \<and>
    GetAvailability (UString U b) (snd rebuilt) =
      (if views_of U b hist = [] then Inl ErrNotFound else Inr (dto_of_stock U (stock hist)))"
proof -
  note inv = warehouse_reachD [OF assms(2,1)]
  obtain ids where ids: "InMemory_ListStreams Availability_StreamName s = Inr ids"
    by (simp add: InMemory_ListStreams_def)
  have st: "distinct ids" "set ids = {sid. mem_history s sid \<noteq> [] \<and> prefix (Availability_StreamName @ ''-'') sid}"
    using mem.list_streams [OF inv(1), of InMemory_ListStreams Availability_StreamName ids] ids
    by (simp_all add: in_memory_store_def)
  let ?es = "concat (map (mem_history s) ids)"
  have run: "rebuilt = for_each (project_availability U UpsertAvailability) ?es NewAvailabilityService"
    unfolding rebuilt_def by (rule rebuild_availability_in_memory [OF ids])
  have "availability_stream U b \<in> set ids \<longleftrightarrow> hist \<noteq> []"
    by (simp add: st(2) hist_def availability_stream_def)
  moreover have "filter (\<lambda>e. event_beer e = Some b) ?es =
      (if availability_stream U b \<in> set ids then mem_history s (availability_stream U b) else [])"
    by (rule filter_streams [OF assms(1) inv(2) st(1)]) (use st(2) beer_streams_ok_range [OF inv(2)] in blast)
  ultimately have hist: "filter (\<lambda>e. event_beer e = Some b) ?es = hist" by (simp add: hist_def split: if_splits)
  have ok: "for_each (project_availability U UpsertAvailability) ?es NewAvailabilityService = (Inr (), snd rebuilt)"
    using project_memory_total run by metis
  from mem_view.project_in_order [OF assms(1) _ ok hist]
  have "map_of (sv_availabilities (snd rebuilt)) (UString U b) =
      (if views_of U b hist = [] then None else Some (dto_of_stock U (stock hist)))"
    by (simp add: NewAvailabilityService_def)
  moreover have "fst rebuilt = Inr ()" using run [THEN trans, OF ok] by (metis fst_conv)
  ultimately show ?thesis by (simp add: GetAvailability_def)
qed

definition demo_produced :: warehouse_state where
  "demo_produced = snd (warehouse_handle hex_uuid (availability_repo in_memory_store None) 10 3
     (NewUpdateAvailabilityDueToProductionOrder 5 3 ''IPA'' (NewQuantity 100 ''Lt'')) (NewInMemoryEventStore, []))"

lemma demo_produced_reach: "warehouse_reach hex_uuid (fst demo_produced, snd demo_produced)"
  unfolding prod.collapse demo_produced_def
  by (intro warehouse_reach.handle_command warehouse_reach.boot) (simp add: command_ok_def msg_defs)

theorem availability_rebuild_correct_witness:
  "GetAvailability (UString hex_uuid 5)
     (snd (warehouses_RebuildReadModel hex_uuid in_memory_store InMemory_ListStreams (fst demo_produced)
       UpsertAvailability NewAvailabilityService)) =
     Inr \<lparr>ad_BeerId = UString hex_uuid 5, ad_BeerName = ''IPA'', ad_Quantity = NewQuantity 100 ''Lt''\<rparr>"
proof -
  have "views_of hex_uuid 5 (mem_history (fst demo_produced) (availability_stream hex_uuid 5)) \<noteq> []" by code_simp
  moreover have "dto_of_stock hex_uuid (stock (mem_history (fst demo_produced) (availability_stream hex_uuid 5))) =
     \<lparr>ad_BeerId = UString hex_uuid 5, ad_BeerName = ''IPA'', ad_Quantity = NewQuantity 100 ''Lt''\<rparr>" by code_simp
  ultimately show ?thesis
    using availability_rebuild_correct [OF hex_uuid_ok demo_produced_reach, of 5] by simp
qed

text \<open>The facade: an unparsable beer is refused and nothing is sent; otherwise one command goes out.\<close>

lemma production_facade_invalid:
  "Parse U (po_BeerId body) = None \<Longrightarrow> facade_UpdateAvailabilityDueToProductionOrder U net c body sent =
     (Inl (ErrInvalid (''invalid beer id: '' @ po_BeerId body)), sent)"
  by (simp add: facade_UpdateAvailabilityDueToProductionOrder_def)

lemma production_facade_sends:
  "Parse U (po_BeerId body) = Some b \<Longrightarrow> facade_UpdateAvailabilityDueToProductionOrder U open_net c body sent =
     (Inr (UString U b), sent @ [command_wire (WCommand
        (NewUpdateAvailabilityDueToProductionOrder b c (po_BeerName body) (po_Quantity body)))])"
  by (simp add: facade_UpdateAvailabilityDueToProductionOrder_def)

end
