(* ===== verification/Brewery_Contract.thy ===== *)
theory Brewery_Contract
  imports Sales_Module Warehouse_Read_Model
begin

text \<open>
  What holds between the two modules, whatever store each of them runs on. A message on the
  wire may only carry facts that stay true once they are true (\<open>wire_ok\<close>); the histories of
  the streams give these facts a meaning (\<open>histories_ok\<close>) and only grow (\<open>later\<close>, \<open>grown\<close>). The
  locales \<open>warehouse_side\<close> and \<open>sales_side\<close> take a module on any event store that keeps the
  contract of \<open>event_store\<close>, faults included, with or without a publisher, and show that every
  handler keeps the meaning and sends only what the histories back. The in-memory
  composition and the durable one interpret them.
\<close>

section \<open>What messages and histories mean\<close>

text \<open>Facts that, once true, stay true: they are what a message may carry to its consumer.\<close>

type_synonym w_histories = "string \<Rightarrow> warehouse_event list"
type_synonym s_histories = "string \<Rightarrow> sales_event list"

definition took :: "uuid_pkg \<Rightarrow> w_histories \<Rightarrow> uuid \<Rightarrow> BeerId \<Rightarrow> bool" where
  "took U h i b \<longleftrightarrow> UString U i \<noteq> [] \<and>
     (\<exists>base n q. BeerAvailabilityUpdated base b n q (UString U i) \<in> set (h (availability_stream U b)))"

definition saga_is :: "uuid_pkg \<Rightarrow> w_histories \<Rightarrow> SagaStatus set \<Rightarrow> uuid \<Rightarrow> bool" where
  "saga_is U h sts i \<longleftrightarrow> h (saga_stream U i) \<noteq> [] \<and> sg_status (saga_at U h i) \<in> sts"

abbreviation completed :: "uuid_pkg \<Rightarrow> w_histories \<Rightarrow> uuid \<Rightarrow> bool" where
  "completed U h i \<equiv> saga_is U h {SagaCompleted} i"

abbreviation undone :: "uuid_pkg \<Rightarrow> w_histories \<Rightarrow> uuid \<Rightarrow> bool" where
  "undone U h i \<equiv> saga_is U h {SagaCompensating, SagaRejected} i"

definition rejected :: "uuid_pkg \<Rightarrow> w_histories \<Rightarrow> uuid \<Rightarrow> string \<Rightarrow> bool" where
  "rejected U h i reason \<longleftrightarrow> saga_is U h {SagaRejected} i \<and> sg_reason (saga_at U h i) = reason"

definition ordered :: "uuid_pkg \<Rightarrow> s_histories \<Rightarrow> SalesOrderId \<Rightarrow> SalesOrderRowDto list \<Rightarrow> bool" where
  "ordered U g i rows \<longleftrightarrow> (\<exists>base n d ci cn. SalesOrderCreated base i n d ci cn rows \<in> set (g (order_stream U i)))"

definition order_id :: "uuid_pkg \<Rightarrow> string \<Rightarrow> bool" where
  "order_id U oid \<longleftrightarrow> (\<exists>i. oid = UString U i)"

definition undone_id :: "uuid_pkg \<Rightarrow> w_histories \<Rightarrow> string \<Rightarrow> bool" where
  "undone_id U h oid \<longleftrightarrow> (\<exists>i. oid = UString U i \<and> undone U h i)"

lemma order_idI [simp]: "order_id U (UString U i)"
  by (auto simp: order_id_def)

lemma undone_idI: "undone U h i \<Longrightarrow> undone_id U h (UString U i)"
  by (auto simp: undone_id_def)

fun w_command_ok :: "uuid_pkg \<Rightarrow> w_histories \<Rightarrow> warehouse_command \<Rightarrow> bool" where
  "w_command_ok U h (UpdateAvailabilityDueToSalesOrder _ _ _ _ oid) \<longleftrightarrow> order_id U oid"
| "w_command_ok U h (CompensateAvailabilityDueToFailedAllocation _ _ _ oid) \<longleftrightarrow> undone_id U h oid"
| "w_command_ok U h _ \<longleftrightarrow> True"

fun s_command_ok :: "uuid_pkg \<Rightarrow> w_histories \<Rightarrow> sales_command \<Rightarrow> bool" where
  "s_command_ok U h (MarkSalesOrderAllocated _ i) \<longleftrightarrow> completed U h i"
| "s_command_ok U h (MarkSalesOrderAllocationRejected _ i reason) \<longleftrightarrow> rejected U h i reason"
| "s_command_ok U h _ \<longleftrightarrow> True"

fun event_order :: "sales_event \<Rightarrow> SalesOrderId" where
  "event_order (SalesOrderCreated _ i _ _ _ _ _) = i"
| "event_order (SalesOrderAllocated _ i) = i"
| "event_order (SalesOrderAllocationRejected _ i _) = i"

fun wire_ok :: "uuid_pkg \<Rightarrow> w_histories \<Rightarrow> s_histories \<Rightarrow> wire \<Rightarrow> bool" where
  "wire_ok U h g (t, Typed (WCommand c)) \<longleftrightarrow>
     t = commandTopicPrefix @ warehouse_command_name c \<and> command_ok c \<and> w_command_ok U h c"
| "wire_ok U h g (t, Typed (SCommand c)) \<longleftrightarrow>
     t = commandTopicPrefix @ sales_command_name c \<and> sales_command_ok c \<and> s_command_ok U h c"
| "wire_ok U h g (t, Typed (WEvent e)) \<longleftrightarrow> (\<forall>b. event_beer e = Some b \<longrightarrow> e \<in> set (h (availability_stream U b)))"
| "wire_ok U h g (t, Typed (SEvent e)) \<longleftrightarrow> e \<in> set (g (order_stream U (event_order e)))"
| "wire_ok U h g (t, Raw p) \<longleftrightarrow> prefix integrationEventTopicPrefix t \<and>
     (t = integrationEventTopicPrefix @ SalesOrderCreatedTopic \<longrightarrow>
        (\<exists>c i rows. p = marshal_sales_integration U (NewIntSalesOrderCreated U i c (map (int_row U) rows)) \<and> ordered U g i rows)) \<and>
     (t = integrationEventTopicPrefix @ OrderAllocationCompletedTopic \<longrightarrow>
        (\<exists>c i. p = marshal_warehouse_integration U (IntOrderAllocationCompleted c (UString U i)) \<and> completed U h i)) \<and>
     (t = integrationEventTopicPrefix @ OrderAllocationRejectedTopic \<longrightarrow>
        (\<exists>c i r. p = marshal_warehouse_integration U (IntOrderAllocationRejected c (UString U i) r) \<and> rejected U h i r))"
| "wire_ok U h g _ \<longleftrightarrow> True"

fun beer_event_ok :: "uuid_pkg \<Rightarrow> w_histories \<Rightarrow> warehouse_event \<Rightarrow> bool" where
  "beer_event_ok U h (BeerAvailabilityUpdated _ _ _ _ oid) \<longleftrightarrow> order_id U oid"
| "beer_event_ok U h (AvailabilityCompensated _ _ _ _ oid) \<longleftrightarrow> undone_id U h oid"
| "beer_event_ok U h _ \<longleftrightarrow> True"

definition saga_ok :: "uuid_pkg \<Rightarrow> w_histories \<Rightarrow> s_histories \<Rightarrow> uuid \<Rightarrow> OrderAllocationSaga \<Rightarrow> bool" where
  "saga_ok U h g i s \<longleftrightarrow>
     (\<exists>rows. ordered U g i rows \<and> map row_data (sg_rows s) = map (saga_row U) rows) \<and>
     (\<forall>r \<in> set (sg_rows s). row_state r = rowAllocated \<longrightarrow> (\<exists>b. row_BeerId (row_data r) = UString U b \<and> took U h i b))"

fun order_event_ok :: "uuid_pkg \<Rightarrow> w_histories \<Rightarrow> sales_event \<Rightarrow> bool" where
  "order_event_ok U h (SalesOrderAllocated _ i) \<longleftrightarrow> completed U h i"
| "order_event_ok U h (SalesOrderAllocationRejected _ i reason) \<longleftrightarrow> rejected U h i reason"
| "order_event_ok U h _ \<longleftrightarrow> True"

definition histories_ok :: "uuid_pkg \<Rightarrow> w_histories \<Rightarrow> s_histories \<Rightarrow> bool" where
  "histories_ok U h g \<longleftrightarrow> beer_streams_ok U h \<and> saga_streams_ok U h \<and> orders_ok U g \<and>
     (\<forall>b. \<forall>e \<in> set (h (availability_stream U b)). beer_event_ok U h e) \<and>
     (\<forall>i. h (saga_stream U i) \<noteq> [] \<longrightarrow> saga_ok U h g i (saga_at U h i)) \<and>
     (\<forall>i. \<forall>e \<in> set (h (saga_stream U i)). event_beer e = None) \<and>
     (\<forall>i. \<forall>e \<in> set (g (order_stream U i)). order_event_ok U h e)"

section \<open>Growth\<close>

text \<open>How a saga may move: settled sagas stay as they are, a compensating one never runs again.\<close>

definition saga_le :: "OrderAllocationSaga \<Rightarrow> OrderAllocationSaga \<Rightarrow> bool" where
  "saga_le s s' \<longleftrightarrow> map row_data (sg_rows s') = map row_data (sg_rows s) \<and>
     (sg_status s \<in> {SagaCompleted, SagaRejected} \<longrightarrow> sg_status s' = sg_status s \<and> sg_reason s' = sg_reason s) \<and>
     (sg_status s = SagaCompensating \<longrightarrow> sg_status s' \<in> {SagaCompensating, SagaRejected})"

definition later :: "uuid_pkg \<Rightarrow> w_histories \<Rightarrow> w_histories \<Rightarrow> bool" where
  "later U h h' \<longleftrightarrow> (\<forall>sid. set (h sid) \<subseteq> set (h' sid)) \<and>
     (\<forall>i. h (saga_stream U i) \<noteq> [] \<longrightarrow> saga_le (saga_at U h i) (saga_at U h' i))"

definition grown :: "s_histories \<Rightarrow> s_histories \<Rightarrow> bool" where
  "grown g g' \<longleftrightarrow> (\<forall>sid. set (g sid) \<subseteq> set (g' sid))"

lemma saga_le_refl [simp]: "saga_le s s"
  by (simp add: saga_le_def)

lemma saga_le_trans: "saga_le s s' \<Longrightarrow> saga_le s' s'' \<Longrightarrow> saga_le s s''"
  by (auto simp: saga_le_def)

lemma later_refl [simp]: "later U h h"
  by (simp add: later_def)

lemma grown_refl [simp]: "grown g g"
  by (simp add: grown_def)

lemma later_nonempty: "later U h h' \<Longrightarrow> h sid \<noteq> [] \<Longrightarrow> h' sid \<noteq> []"
  by (metis later_def set_empty subset_empty)

lemma later_trans: "later U h h' \<Longrightarrow> later U h' h'' \<Longrightarrow> later U h h''"
  unfolding later_def by (metis saga_le_trans set_empty subset_empty subset_trans)

lemma later_mem: "later U h h' \<Longrightarrow> e \<in> set (h sid) \<Longrightarrow> e \<in> set (h' sid)"
  by (auto simp: later_def)

lemma grown_mem: "grown g g' \<Longrightarrow> e \<in> set (g sid) \<Longrightarrow> e \<in> set (g' sid)"
  by (auto simp: grown_def)

lemma took_later: "took U h i b \<Longrightarrow> later U h h' \<Longrightarrow> took U h' i b"
  unfolding took_def later_def by blast

lemma saga_is_later:
  assumes "later U h h'"
  shows "completed U h i \<Longrightarrow> completed U h' i" and "undone U h i \<Longrightarrow> undone U h' i"
    and "rejected U h i r \<Longrightarrow> rejected U h' i r"
  using assms later_nonempty [OF assms] unfolding saga_is_def rejected_def later_def saga_le_def by auto

lemma undone_id_later: "undone_id U h oid \<Longrightarrow> later U h h' \<Longrightarrow> undone_id U h' oid"
  unfolding undone_id_def using saga_is_later(2) by blast

lemma ordered_grown: "ordered U g i rows \<Longrightarrow> grown g g' \<Longrightarrow> ordered U g' i rows"
  unfolding ordered_def grown_def by blast

lemma w_command_ok_later: "w_command_ok U h c \<Longrightarrow> later U h h' \<Longrightarrow> w_command_ok U h' c"
  by (cases c) (auto intro: undone_id_later)

lemma s_command_ok_later: "s_command_ok U h c \<Longrightarrow> later U h h' \<Longrightarrow> s_command_ok U h' c"
  by (cases c) (auto dest: saga_is_later)

lemma beer_event_ok_later: "beer_event_ok U h e \<Longrightarrow> later U h h' \<Longrightarrow> beer_event_ok U h' e"
  by (cases e) (auto intro: undone_id_later)

lemma order_event_ok_later: "order_event_ok U h e \<Longrightarrow> later U h h' \<Longrightarrow> order_event_ok U h' e"
  by (cases e) (auto dest: saga_is_later)

lemma wire_ok_mono:
  assumes ok: "wire_ok U h g w" and l: "later U h h'" and gr: "grown g g'"
  shows "wire_ok U h' g' w"
proof -
  obtain t p where w: "w = (t, p)" by (cases w)
  show ?thesis
  proof (cases p)
    case (Raw q)
    have 1: "(\<exists>c i rows. q = marshal_sales_integration U (NewIntSalesOrderCreated U i c (map (int_row U) rows)) \<and> ordered U g' i rows)"
      if "(\<exists>c i rows. q = marshal_sales_integration U (NewIntSalesOrderCreated U i c (map (int_row U) rows)) \<and> ordered U g i rows)"
      using that ordered_grown [OF _ gr] by blast
    have 2: "(\<exists>c i. q = marshal_warehouse_integration U (IntOrderAllocationCompleted c (UString U i)) \<and> completed U h' i)"
      if "(\<exists>c i. q = marshal_warehouse_integration U (IntOrderAllocationCompleted c (UString U i)) \<and> completed U h i)"
      using that saga_is_later(1) [OF l] by blast
    have 3: "(\<exists>c i r. q = marshal_warehouse_integration U (IntOrderAllocationRejected c (UString U i) r) \<and> rejected U h' i r)"
      if "(\<exists>c i r. q = marshal_warehouse_integration U (IntOrderAllocationRejected c (UString U i) r) \<and> rejected U h i r)"
      using that saga_is_later(3) [OF l] by blast
    show ?thesis using ok 1 2 3 unfolding w Raw wire_ok.simps by blast
  next
    case (Typed m)
    show ?thesis
      using ok w_command_ok_later [OF _ l] s_command_ok_later [OF _ l] later_mem [OF l] grown_mem [OF gr]
      unfolding w Typed by (cases m) simp_all
  qed
qed

lemma saga_ok_mono: "saga_ok U h g i s \<Longrightarrow> later U h h' \<Longrightarrow> grown g g' \<Longrightarrow> saga_ok U h' g' i s"
  unfolding saga_ok_def by (meson ordered_grown took_later)

text \<open>The facts about the histories carry over to grown ones, stream by stream.\<close>

lemma histories_okD:
  assumes "histories_ok U h g"
  shows "beer_streams_ok U h" and "saga_streams_ok U h" and "orders_ok U g"
    and "e \<in> set (h (availability_stream U b)) \<Longrightarrow> beer_event_ok U h e"
    and "h (saga_stream U i) \<noteq> [] \<Longrightarrow> saga_ok U h g i (saga_at U h i)"
    and "f \<in> set (g (order_stream U i)) \<Longrightarrow> order_event_ok U h f"
    and "e \<in> set (h (saga_stream U i)) \<Longrightarrow> event_beer e = None"
  using assms by (auto simp: histories_ok_def)

lemma beer_append:
  assumes "uuid_ok U" and ok: "histories_ok U h g" and "event_beer e = Some b" and "beer_event_ok U h e"
  defines "h' \<equiv> h(availability_stream U b := h (availability_stream U b) @ [e])"
  shows "later U h h'" and "histories_ok U h' g"
proof -
  have sg: "h' (saga_stream U i) = h (saga_stream U i)" for i
    using streams_apart(1) [of U b i] by (metis fun_upd_other h'_def)
  have "set (h sid) \<subseteq> set (h' sid)" for sid by (auto simp: h'_def)
  then show l: "later U h h'" by (simp add: later_def sg)
  have "beer_event_ok U h' f" if "f \<in> set (h' (availability_stream U c))" for f c
    using that histories_okD(4) [OF ok] assms(4) beer_event_ok_later [OF _ l]
    unfolding h'_def by (auto split: if_splits)
  moreover have "saga_streams_ok U h'"
    unfolding h'_def by (rule saga_streams_ok_frame [OF histories_okD(2) [OF ok]])
  moreover have "beer_streams_ok U h'"
    unfolding h'_def by (rule beer_streams_ok_upd [OF assms(1) histories_okD(1) [OF ok] assms(3)])
  moreover have "saga_ok U h' g i (saga_at U h' i)" if "h' (saga_stream U i) \<noteq> []" for i
    using that saga_ok_mono [OF histories_okD(5) [OF ok] l grown_refl] unfolding sg by blast
  ultimately show "histories_ok U h' g"
    using histories_okD(3,6,7) [OF ok] order_event_ok_later [OF _ l]
    unfolding histories_ok_def sg by blast
qed

lemma saga_update:
  assumes "uuid_ok U" and ok: "histories_ok U h g" and "set (h (saga_stream U i)) \<subseteq> set hist"
    and "saga_inv U (saga_of hist)" and "ar_id (saga_of hist) = i"
    and "h (saga_stream U i) \<noteq> [] \<Longrightarrow> saga_le (saga_at U h i) (saga_of hist)"
    and "saga_ok U h g i (saga_of hist)" and "\<forall>e \<in> set hist. event_beer e = None"
  defines "h' \<equiv> h(saga_stream U i := hist)"
  shows "later U h h'" and "histories_ok U h' g"
proof -
  have av: "h' (availability_stream U b) = h (availability_stream U b)" for b
    using streams_apart(1) [of U b i] by (metis fun_upd_other h'_def)
  have at: "h' (saga_stream U j) = (if j = i then hist else h (saga_stream U j))" for j
    by (simp add: h'_def saga_stream_inj [OF assms(1)])
  show l: "later U h h'"
    unfolding later_def by (intro conjI allI impI) (use assms(3,6) at in \<open>auto simp: h'_def\<close>)
  have "saga_streams_ok U h'"
    unfolding h'_def by (rule saga_streams_ok_upd [OF assms(1) histories_okD(2) [OF ok] assms(4,5)])
  moreover have "beer_streams_ok U h'"
    by (rule beer_streams_ok_frame [OF histories_okD(1) [OF ok]]) (auto simp: h'_def)
  moreover have "saga_ok U h' g j (saga_at U h' j)" if "h' (saga_stream U j) \<noteq> []" for j
    using that histories_okD(5) [OF ok, of j] saga_ok_mono [OF _ l grown_refl] assms(7) unfolding at by (auto split: if_splits)
  moreover have "event_beer e = None" if "e \<in> set (h' (saga_stream U j))" for e j
    using that histories_okD(7) [OF ok] assms(8) unfolding at by (auto split: if_splits)
  ultimately show "histories_ok U h' g"
    using histories_okD(3) [OF ok] histories_okD(4) [OF ok] histories_okD(6) [OF ok]
      order_event_ok_later [OF _ l] beer_event_ok_later [OF _ l]
    unfolding histories_ok_def av by blast
qed

lemma order_append:
  assumes "uuid_ok U" and ok: "histories_ok U h g" and "order_shape i (g (order_stream U i) @ [e])" and "order_event_ok U h e"
  defines "g' \<equiv> g(order_stream U i := g (order_stream U i) @ [e])"
  shows "grown g g'" and "histories_ok U h g'"
proof -
  show gr: "grown g g'" by (auto simp: grown_def g'_def)
  have "orders_ok U g'" unfolding g'_def by (rule orders_ok_upd [OF assms(1) histories_okD(3) [OF ok] assms(3)])
  moreover have "order_event_ok U h f" if "f \<in> set (g' (order_stream U j))" for f j
    using that histories_okD(6) [OF ok] assms(4) unfolding g'_def by (auto split: if_splits)
  ultimately show "histories_ok U h g'"
    using ok saga_ok_mono [OF _ later_refl gr] unfolding histories_ok_def by blast
qed

section \<open>What the handlers put on the wire\<close>

lemma bus_set:
  "set (snd (Send U net (WCommand c) b)) \<subseteq> insert (command_wire (WCommand c)) (set b)"
  "set (snd (Send U net (SCommand d) b)) \<subseteq> insert (command_wire (SCommand d)) (set b)"
  "set (snd (PublishDomainEvent U net (WEvent e) b)) \<subseteq> insert (event_wire (WEvent e)) (set b)"
  "set (snd (PublishDomainEvent U net (SEvent f) b)) \<subseteq> insert (event_wire (SEvent f)) (set b)"
  "set (snd (PublishIntegrationEvent U net m b)) \<subseteq> insert (integration_wire U m) (set b)"
  by (auto simp: Send_def PublishDomainEvent_def PublishIntegrationEvent_def bus_publish_def Let_def
      command_wire_def event_wire_def integration_wire_def split: option.splits)

lemma for_each_set:
  assumes "\<And>x b. set (snd (f x b)) \<subseteq> insert (k x) (set b)"
  shows "set (snd (for_each f xs b)) \<subseteq> set b \<union> k ` set xs"
proof (induction xs arbitrary: b)
  case (Cons x xs)
  show ?case
  proof (cases "f x b")
    case (Pair r b1)
    with assms [of x b] Cons.IH [of b1] show ?thesis by (cases r) auto
  qed
qed simp

text \<open>What a save does to the store and to the wire, on any store and with or without a publisher.\<close>

definition announces :: "('e \<Rightarrow> wire) \<Rightarrow> ('e \<Rightarrow> wire list \<Rightarrow> (wire list, unit) outcome) option \<Rightarrow> bool" where
  "announces k pub \<longleftrightarrow> (\<forall>p. pub = Some p \<longrightarrow> (\<forall>e b. set (snd (p e b)) \<subseteq> insert (k e) (set b)))"

lemma Save_set:
  assumes "announces k (repo_publisher R)"
  shows "set (snd (snd (Save U R now a cid (s, b)))) \<subseteq> set b \<union> k ` set (ar_uncommitted a)"
proof -
  have "set (snd (for_each p (ar_uncommitted a) b)) \<subseteq> set b \<union> k ` set (ar_uncommitted a)" if "repo_publisher R = Some p" for p
    by (rule for_each_set) (use assms that in \<open>auto simp: announces_def\<close>)
  then show ?thesis
    by (auto simp: Save_def UncommittedEvents_def Let_def split: prod.splits sum.splits if_splits option.splits)
qed

context repository
begin

lemma save_step:
  assumes "inv s" and new: "ar_uncommitted a \<noteq> []" and run: "Save U R now a cid (s, b) = (r, (s', b'))"
  shows "inv s'"
    and "s' = snd (es_Append (repo_store R) now (repo_stream U R (ar_id a)) (ar_version a - int (length (ar_uncommitted a))) cid (ar_uncommitted a) s)"
    and "(failed r \<and> history s' = history s \<and> b' = b) \<or>
      history s' = (history s)(repo_stream U R (ar_id a) := history s (repo_stream U R (ar_id a)) @ ar_uncommitted a)"
proof -
  let ?sid = "repo_stream U R (ar_id a)" and ?v = "ar_version a - int (length (ar_uncommitted a))"
  obtain q t where app: "es_Append (repo_store R) now ?sid ?v cid (ar_uncommitted a) s = (q, t)" by fastforce
  show s': "s' = snd (es_Append (repo_store R) now ?sid ?v cid (ar_uncommitted a) s)"
    using Save_store [OF new, of U R now cid s b] run by simp
  then show "inv s'" using append_inv [OF assms(1) new] by simp
  show "(failed r \<and> history s' = history s \<and> b' = b) \<or>
      history s' = (history s)(?sid := history s ?sid @ ar_uncommitted a)"
  proof (cases q)
    case (Inl e)
    with Save_append_failed [OF new] app run append_failed [OF assms(1) new] s' show ?thesis by fastforce
  next
    case (Inr u)
    with append_ok [OF assms(1) new] app s' show ?thesis by auto
  qed
qed

end

lemma wire_ok_simps [simp]:
  "wire_ok U h g (command_wire (WCommand c)) \<longleftrightarrow> command_ok c \<and> w_command_ok U h c"
  "wire_ok U h g (command_wire (SCommand d)) \<longleftrightarrow> sales_command_ok d \<and> s_command_ok U h d"
  "wire_ok U h g (event_wire (WEvent e)) \<longleftrightarrow> (\<forall>b. event_beer e = Some b \<longrightarrow> e \<in> set (h (availability_stream U b)))"
  "wire_ok U h g (event_wire (SEvent f)) \<longleftrightarrow> f \<in> set (g (order_stream U (event_order f)))"
  by (simp_all add: command_wire_def event_wire_def)

definition new_ok :: "uuid_pkg \<Rightarrow> w_histories \<Rightarrow> s_histories \<Rightarrow> wire list \<Rightarrow> wire list \<Rightarrow> bool" where
  "new_ok U h g b b' \<longleftrightarrow> (\<forall>w \<in> set b'. w \<in> set b \<or> wire_ok U h g w)"

lemma new_ok_refl [simp]: "new_ok U h g b b"
  by (simp add: new_ok_def)

lemma new_ok_trans:
  "new_ok U h g b b' \<Longrightarrow> new_ok U h' g b' b'' \<Longrightarrow> later U h h' \<Longrightarrow> new_ok U h' g b b''"
  unfolding new_ok_def by (metis wire_ok_mono grown_refl)

lemma new_ok_insert: "set b' \<subseteq> insert w (set b) \<Longrightarrow> wire_ok U h g w \<Longrightarrow> new_ok U h g b b'"
  by (auto simp: new_ok_def)

lemma new_ok_send:
  "command_ok c \<Longrightarrow> w_command_ok U h c \<Longrightarrow> new_ok U h g b (snd (Send U net (WCommand c) b))"
  "sales_command_ok d \<Longrightarrow> s_command_ok U h d \<Longrightarrow> new_ok U h g b (snd (Send U net (SCommand d) b))"
  "wire_ok U h g (integration_wire U m) \<Longrightarrow> new_ok U h g b (snd (PublishIntegrationEvent U net m b))"
  by (rule new_ok_insert [OF bus_set(1)], simp, rule new_ok_insert [OF bus_set(2)], simp, rule new_ok_insert [OF bus_set(5)])

text \<open>The three things the runner sends about a saga as it is stored.\<close>

lemma saga_stored:
  assumes "saga_streams_ok U h" and "h (saga_stream U i) \<noteq> []"
  shows "sg_salesOrderId (saga_at U h i) = UString U i"
  using saga_streams_okD [OF assms] by (simp add: saga_inv_def)

lemma sendNext_ok:
  assumes "saga_streams_ok U h" and "h (saga_stream U i) \<noteq> []"
  shows "new_ok U h g b (snd (sendNextAllocation U net (saga_at U h i) c b))"
proof -
  obtain row fl where r: "NextPendingRow (saga_at U h i) = (row, fl)" by (cases "NextPendingRow (saga_at U h i)")
  show ?thesis
  proof (cases "Parse U (row_BeerId row)")
    case None
    with r show ?thesis by (simp add: sendNextAllocation_def)
  next
    case (Some beer)
    have "command_ok (NewUpdateAvailabilityDueToSalesOrder beer c (row_BeerName row)
        (NewQuantity (row_Quantity row) (row_UnitOfMeasure row)) (UString U i))"
      by (simp add: msg_defs command_ok_def)
    moreover have "w_command_ok U h (NewUpdateAvailabilityDueToSalesOrder beer c (row_BeerName row)
        (NewQuantity (row_Quantity row) (row_UnitOfMeasure row)) (UString U i))"
      by (auto simp: msg_defs)
    ultimately show ?thesis
      by (simp add: sendNextAllocation_def saga_stored [OF assms] r Some new_ok_send(1))
  qed
qed

lemma sendCompensations_ok:
  assumes "saga_streams_ok U h" and "h (saga_stream U i) \<noteq> []"
  shows "new_ok U h g b (snd (sendCompensations U net (saga_at U h i) c b))"
proof -
  let ?saga = "saga_at U h i"
  have st: "undone U h i" if "RowsToCompensate ?saga \<noteq> []"
    using that assms(2) by (auto simp: RowsToCompensate_def saga_is_def split: if_splits)
  let ?f = "\<lambda>row sent. case Parse U (row_BeerId row) of
      None \<Rightarrow> (Inl (invalid_beer ?saga row), sent)
    | Some beerId \<Rightarrow> Send U net (WCommand (NewCompensateAvailabilityDueToFailedAllocation beerId c
        (NewQuantity (row_Quantity row) (row_UnitOfMeasure row)) (UString U i))) sent"
  let ?cmd = "\<lambda>row. command_wire (WCommand (NewCompensateAvailabilityDueToFailedAllocation (the (Parse U (row_BeerId row))) c
        (NewQuantity (row_Quantity row) (row_UnitOfMeasure row)) (UString U i)))"
  have "set (snd (for_each ?f (RowsToCompensate ?saga) b)) \<subseteq> set b \<union> ?cmd ` set (RowsToCompensate ?saga)"
    by (rule for_each_set) (use bus_set(1) in \<open>auto split: option.splits\<close>)
  moreover have "wire_ok U h g (?cmd row)" if "row \<in> set (RowsToCompensate ?saga)" for row
  proof -
    have "undone U h i" using st that by fastforce
    then show ?thesis by (simp add: msg_defs command_ok_def undone_idI)
  qed
  ultimately show ?thesis
    unfolding new_ok_def sendCompensations_def saga_stored [OF assms] by blast
qed

lemma outcome_wire_ok:
  "completed U h i \<Longrightarrow> wire_ok U h g (integration_wire U (WIntegration (NewIntOrderAllocationCompleted (UString U i) c)))"
  "rejected U h i r \<Longrightarrow> wire_ok U h g (integration_wire U (WIntegration (NewIntOrderAllocationRejected (UString U i) c r)))"
  by (auto simp: integration_wire_def msg_defs SalesOrderCreatedTopic_def OrderAllocationCompletedTopic_def
      OrderAllocationRejectedTopic_def OrderAllocationCompletedName_def OrderAllocationRejectedName_def)

lemma publishOutcome_ok:
  assumes "saga_streams_ok U h" and "h (saga_stream U i) \<noteq> []" and "sg_status (saga_at U h i) \<in> {SagaCompleted, SagaRejected}"
  shows "new_ok U h g b (snd (publishOutcome U net (saga_at U h i) c b))"
proof (cases "sg_status (saga_at U h i) = SagaCompleted")
  case True
  with assms(2) have "completed U h i" by (simp add: saga_is_def)
  with True show ?thesis
    by (simp add: publishOutcome_def saga_stored [OF assms(1,2)] new_ok_send(3) outcome_wire_ok(1))
next
  case False
  with assms(2,3) have "rejected U h i (sg_reason (saga_at U h i))" by (simp add: saga_is_def rejected_def)
  with False show ?thesis
    by (simp add: publishOutcome_def saga_stored [OF assms(1,2)] new_ok_send(3) outcome_wire_ok(2))
qed

section \<open>How a saga moves\<close>

lemma decide_event_ok:
  assumes "decide c hist = Inr a" and "ar_uncommitted a = [e]" and "w_command_ok U h c"
  shows "beer_event_ok U h e"
  using assms by (cases c) (auto simp: availability_ops msg_defs Let_def avail.raise_fields split: if_splits)

lemma observe_le:
  assumes "uuid_ok U" and "saga_inv U s" and "observe U x s = Inr (ch, s')"
  shows "saga_le s s'"
proof (cases "awaits x s")
  case False
  with observe_ignored [of x s U] assms(3) show ?thesis by simp
next
  case True
  note p = saga_inv_MustParse [OF assms(1,2)]
  have rows: "map row_data (sg_rows s') = map row_data (sg_rows s)" if "moved s s' b st" for b st
    using that by (simp add: moved_def setRowState_def)
  show ?thesis
  proof (cases x)
    case (Succeeded c b)
    with True assms(3) succeeded_moves [OF p, of b c] rows show ?thesis by (auto simp: saga_le_def)
  next
    case (NotFound c b rs)
    with True assms(3) not_found_moves [OF p, of b c rs] rows show ?thesis by (auto simp: saga_le_def)
  next
    case (Compensated c b)
    with True assms(3) compensated_moves [OF p, of b c] rows show ?thesis by (auto simp: saga_le_def)
  qed
qed

text \<open>Only a success allocates rows, and only the rows of its beer.\<close>

lemma observe_allocated:
  assumes "uuid_ok U" and "saga_inv U s" and "observe U x s = Inr (True, s')"
    and "r' \<in> set (sg_rows s')" and "row_state r' = rowAllocated"
  shows "(\<exists>r \<in> set (sg_rows s). row_data r' = row_data r \<and> row_state r = rowAllocated) \<or>
    (\<exists>c. x = Succeeded c (row_BeerId (row_data r')))"
proof -
  have aw: "awaits x s" using observe_ignored [of x s U] assms(3) by auto
  note p = saga_inv_MustParse [OF assms(1,2)]
  have upd: "\<exists>r \<in> set (sg_rows s). row_data r' = row_data r \<and> (row_BeerId (row_data r) = b \<and> st = rowAllocated \<or> row_state r = rowAllocated)"
    if "moved s s' b st" for b st
    using assms(4,5) moved_rows [OF that] by (auto split: if_splits)
  show ?thesis
  proof (cases x)
    case (Succeeded c b)
    with aw assms(3) succeeded_moves [OF p, of b c] have "moved s s' b rowAllocated" by auto
    from upd [OF this] Succeeded show ?thesis by auto
  next
    case (NotFound c b rs)
    with aw assms(3) not_found_moves [OF p, of b c rs] have "moved s s' b rowFailed" by auto
    from upd [OF this] show ?thesis by auto
  next
    case (Compensated c b)
    with aw assms(3) compensated_moves [OF p, of b c] have "moved s s' b rowCompensated" by auto
    from upd [OF this] show ?thesis by auto
  qed
qed

lemma saga_events_no_beer:
  "observe U x s = Inr (ch, s') \<Longrightarrow> ar_uncommitted s = [] \<Longrightarrow> e \<in> set (ar_uncommitted s') \<Longrightarrow> event_beer e = None"
  "e \<in> set (ar_uncommitted (StartOrderAllocation U i c rows)) \<Longrightarrow> event_beer e = None"
  by (cases x; auto simp: record_defs msg_defs Let_def saga.raise_fields split: if_splits sum.splits)
    (auto simp: StartOrderAllocation_def msg_defs Let_def saga.raise_fields split: if_splits)

lemma on_bus_snd: "snd (on_bus f (s, b)) = (s, snd (f b))"
  by (simp add: on_bus_def split: prod.splits)

lemma start_saga_ok:
  assumes "ordered U g i rows"
  shows "saga_ok U h g i (StartOrderAllocation U i c (map (saga_row U) rows))"
  unfolding saga_ok_def
proof (intro conjI ballI impI)
  show "\<exists>rs. ordered U g i rs \<and>
      map row_data (sg_rows (StartOrderAllocation U i c (map (saga_row U) rows))) = map (saga_row U) rs"
    using assms by (intro exI [of _ rows]) (auto simp: StartOrderAllocation_def msg_defs Let_def comp_def)
qed (auto simp: StartOrderAllocation_def msg_defs Let_def split: if_splits)

lemma drive_ok:
  assumes "saga_streams_ok U h" and "h (saga_stream U i) \<noteq> []"
  shows "new_ok U h g b (snd (drive U net (saga_at U h i) c b))"
  using sendNext_ok [OF assms] sendCompensations_ok [OF assms] by (simp add: drive_def)

section \<open>A step of the warehouse\<close>

text \<open>
  What every handler that works on the warehouse's store guarantees: the histories stay
  meaningful and only grow, every message it sends is backed by them, and the store moves
  only by appends to the module's own streams (\<open>rel\<close>).
\<close>

definition warehouse_streams :: "uuid_pkg \<Rightarrow> string set" where
  "warehouse_streams U = range (availability_stream U) \<union> range (saga_stream U)"

lemma warehouse_streamsI [simp, intro]: "availability_stream U b \<in> warehouse_streams U" "saga_stream U i \<in> warehouse_streams U"
  by (simp_all add: warehouse_streams_def)

locale warehouse_side =
  av: availability_handlers es pub history inv + sg: saga_runner es pub history inv
  for es :: "('s, warehouse_event) EventStore"
    and pub :: "(warehouse_event \<Rightarrow> wire list \<Rightarrow> (wire list, unit) outcome) option"
    and history :: "'s \<Rightarrow> string \<Rightarrow> warehouse_event list" and inv :: "'s \<Rightarrow> bool" +
  fixes rel :: "uuid_pkg \<Rightarrow> 's \<Rightarrow> 's \<Rightarrow> bool"
  assumes publishes: "announces (\<lambda>e. event_wire (WEvent e)) pub"
    and rel_refl: "rel U s s"
    and rel_trans: "rel U s s' \<Longrightarrow> rel U s' s'' \<Longrightarrow> rel U s s''"
    and rel_append: "inv s \<Longrightarrow> evs \<noteq> [] \<Longrightarrow> sid \<in> warehouse_streams U \<Longrightarrow> rel U s (snd (es_Append es now sid ev cid evs s))"
begin

definition w_step :: "uuid_pkg \<Rightarrow> s_histories \<Rightarrow> 's \<times> wire list \<Rightarrow> 's \<times> wire list \<Rightarrow> bool" where
  "w_step U g w w' \<longleftrightarrow> inv (fst w') \<and> rel U (fst w) (fst w') \<and> histories_ok U (history (fst w')) g \<and>
     later U (history (fst w)) (history (fst w')) \<and> new_ok U (history (fst w')) g (snd w) (snd w')"

lemma w_step_refl: "inv s \<Longrightarrow> histories_ok U (history s) g \<Longrightarrow> w_step U g (s, b) (s, b)"
  by (simp add: w_step_def rel_refl)

lemma w_step_trans: "w_step U g w w' \<Longrightarrow> w_step U g w' w'' \<Longrightarrow> w_step U g w w''"
  unfolding w_step_def by (metis later_trans new_ok_trans rel_trans)

lemma handle_step:
  assumes "uuid_ok U" and "inv s" and ok: "histories_ok U (history s) g"
    and "command_ok c" and "w_command_ok U (history s) c"
  shows "w_step U g (s, b) (snd (warehouse_handle U (availability_repo es pub) now newid c (s, b)))"
proof -
  let ?R = "availability_repo es pub" and ?sid = "availability_stream U (wc_BeerId c)"
  obtain r s' b' where run: "warehouse_handle U ?R now newid c (s, b) = (r, (s', b'))" by (metis prod.collapse)
  note beers = histories_okD(1) [OF ok]
  consider "s' = s" "b' = b" | a where "decide c (history s ?sid) = Inr a" "discard (Save U ?R now a newid (s, b)) = (r, (s', b'))"
    using av.handle_cases [OF assms(2,4) run] by blast
  then show ?thesis
  proof cases
    case 1
    with run assms(2) ok show ?thesis by (simp add: w_step_refl)
  next
    case (2 a)
    obtain e where u: "ar_uncommitted a = [e]" and e: "event_beer e = Some (wc_BeerId c)" and i: "ar_id a = wc_BeerId c"
      using decide_event [OF 2(1) assms(4)] beer_streams_okD [OF beers] by blast
    obtain q where sv: "Save U ?R now a newid (s, b) = (q, (s', b'))"
      using 2(2) by (metis prod.collapse snd_conv snd_discard)
    have id: "repo_stream U ?R (ar_id a) = ?sid" by (simp add: i)
    have new: "ar_uncommitted a \<noteq> []" using u by simp
    note st = av.save_step [OF assms(2) new sv]
    have rel: "rel U s s'" using rel_append [OF assms(2) new, of ?sid U] st(2) id by simp
    show ?thesis
    proof (cases "history s' = history s \<and> b' = b")
      case True
      with run st(1) ok rel show ?thesis by (simp add: w_step_def)
    next
      case False
      then have h': "history s' = (history s)(?sid := history s ?sid @ [e])" using st(3) id u by auto
      note app = beer_append [OF assms(1) ok e decide_event_ok [OF 2(1) u assms(5)], folded h']
      have "set b' \<subseteq> insert (event_wire (WEvent e)) (set b)"
        using Save_set [of "\<lambda>e. event_wire (WEvent e)" ?R U now a newid s b] publishes sv u by auto
      moreover have "wire_ok U (history s') g (event_wire (WEvent e))" using e by (simp add: h')
      ultimately have "new_ok U (history s') g b b'" by (rule new_ok_insert)
      with st(1) rel app run show ?thesis by (simp add: w_step_def)
    qed
  qed
qed

text \<open>A step of a saga.\<close>

lemma save_saga_wires:
  assumes "\<And>e. e \<in> set (ar_uncommitted a) \<Longrightarrow> event_beer e = None"
    and "Save U (saga_repo es pub) now a cid (s, b) = (r, (s', b'))"
  shows "new_ok U h g b b'"
proof -
  have "set b' \<subseteq> set b \<union> (\<lambda>e. event_wire (WEvent e)) ` set (ar_uncommitted a)"
    using Save_set [of "\<lambda>e. event_wire (WEvent e)" "saga_repo es pub" U now a cid s b] publishes assms(2) by simp
  with assms(1) show ?thesis by (auto simp: new_ok_def)
qed

text \<open>Saving a saga over its stored history: nothing happens, or the saga is stored as it is.\<close>

lemma save_saga_step:
  assumes "uuid_ok U" and "inv s" and ok: "histories_ok U (history s) g"
    and l: "loaded_as Saga_Route NewOrderAllocationSaga (history s (saga_stream U i)) a" and id: "ar_id a = i"
    and new: "ar_uncommitted a \<noteq> []" and inv: "saga_inv U a"
    and le: "history s (saga_stream U i) \<noteq> [] \<Longrightarrow> saga_le (saga_at U (history s) i) a"
    and sok: "saga_ok U (history s) g i a" and beer: "\<And>e. e \<in> set (ar_uncommitted a) \<Longrightarrow> event_beer e = None"
    and sv: "Save U (saga_repo es pub) now a cid (s, b) = (q, (s', b'))"
  shows "w_step U g (s, b) (s', b')"
    and "q = Inr a' \<Longrightarrow> a' = saga_at U (history s') i \<and> history s' (saga_stream U i) \<noteq> []"
proof -
  let ?h = "history s" and ?sid = "saga_stream U i"
  have sid: "repo_stream U (saga_repo es pub) (ar_id a) = ?sid" by (simp add: id)
  note st = sg.save_step [OF assms(2) new sv]
  have rel: "rel U s s'" using rel_append [OF assms(2) new, of ?sid U] st(2) sid by simp
  have sg: "saga_of (?h ?sid @ ar_uncommitted a) = ClearUncommittedEvents a" by (rule loaded_saga_of [OF l])
  have "saga_le x (ClearUncommittedEvents a) = saga_le x a" for x by (simp add: saga_le_def)
  moreover have "saga_ok U ?h g i (ClearUncommittedEvents a)" using sok by (simp add: saga_ok_def)
  ultimately have upd: "later U ?h (?h(?sid := ?h ?sid @ ar_uncommitted a)) \<and> histories_ok U (?h(?sid := ?h ?sid @ ar_uncommitted a)) g"
    using saga_update [OF assms(1) ok, of i "?h ?sid @ ar_uncommitted a"] le beer histories_okD(7) [OF ok] inv id sg
    by auto
  show "w_step U g (s, b) (s', b')"
  proof (cases "history s' = history s \<and> b' = b")
    case True
    with st(1) ok rel show ?thesis by (simp add: w_step_def)
  next
    case False
    then have "history s' = ?h(?sid := ?h ?sid @ ar_uncommitted a)" using st(3) sid by auto
    with upd st(1) rel save_saga_wires [OF beer sv] show ?thesis by (simp add: w_step_def)
  qed
  show "a' = saga_at U (history s') i \<and> history s' ?sid \<noteq> []" if "q = Inr a'"
    using sg.save_saga(3) [OF assms(2) _ new sv that] l id sg new by simp
qed

text \<open>
  Saving an observation of a stored saga. An observed success must be backed by stock that
  the beer's stream records as taken.
\<close>

lemma save_observed:
  assumes "uuid_ok U" and "inv s" and ok: "histories_ok U (history s) g"
    and ne: "history s (saga_stream U i) \<noteq> []" and rec: "observe U x (saga_at U (history s) i) = Inr (True, a)"
    and took: "\<forall>c bb. x = Succeeded c bb \<longrightarrow> (\<exists>b. bb = UString U b \<and> took U (history s) i b)"
    and sv: "Save U (saga_repo es pub) now a cid (s, b) = (q, (s', b'))"
  shows "w_step U g (s, b) (s', b')"
    and "q = Inr a' \<Longrightarrow> a' = saga_at U (history s') i \<and> history s' (saga_stream U i) \<noteq> []"
proof -
  let ?h = "history s" and ?saga = "saga_at U (history s) i"
  have inv: "saga_inv U ?saga" "ar_id ?saga = i" using saga_streams_okD [OF histories_okD(2) [OF ok] ne] by simp_all
  note le = observe_le [OF assms(1) inv(1) rec]
  have sok: "saga_ok U ?h g i ?saga" by (rule histories_okD(5) [OF ok ne])
  moreover have "\<exists>b. row_BeerId (row_data r) = UString U b \<and> took U ?h i b"
    if "r \<in> set (sg_rows a)" "row_state r = rowAllocated" for r
    using observe_allocated [OF assms(1) inv(1) rec that] took sok unfolding saga_ok_def by metis
  ultimately have "saga_ok U ?h g i a" using le unfolding saga_ok_def saga_le_def by simp
  note st = save_saga_step [OF assms(1,2) ok observe_loaded(1) [OF rec saga_loaded] _ _ observe_inv [OF assms(1) inv(1) rec] le this
      saga_events_no_beer(1) [OF rec saga_of_uncommitted] sv]
  have "ar_id a = i" "ar_uncommitted a \<noteq> []"
    using observe_id [OF rec] inv(2) observe_loaded(2) [OF rec saga_loaded] by simp_all
  with st show "w_step U g (s, b) (s', b')"
    and "q = Inr a' \<Longrightarrow> a' = saga_at U (history s') i \<and> history s' (saga_stream U i) \<noteq> []" by blast+
qed

lemma w_step_then:
  assumes "w_step U g (s, b) (s', b')" and "new_ok U (history s') g b' b''"
  shows "w_step U g (s, b) (s', b'')"
  using assms new_ok_trans [OF _ assms(2) later_refl] by (simp add: w_step_def)

lemma on_step_ok:
  assumes "uuid_ok U" and "inv s" and ok: "histories_ok U (history s) g"
    and act: "\<And>h i b. saga_streams_ok U h \<Longrightarrow> h (saga_stream U i) \<noteq> [] \<Longrightarrow> new_ok U h g b (snd (act (saga_at U h i) b))"
    and took: "\<And>i c bb. oid \<noteq> [] \<Longrightarrow> Parse U oid = Some i \<Longrightarrow> x = Succeeded c bb \<Longrightarrow>
      \<exists>b. bb = UString U b \<and> took U (history s) i b"
  shows "w_step U g (s, b) (snd (on_step U (saga_repo es pub) now newid oid (observe U x) act (s, b)))"
    (is "w_step U g (s, b) (snd ?run)")
proof (cases "\<exists>saga a. load U (saga_repo es pub) oid s = Inr (Some saga) \<and> observe U x saga = Inr (True, a)")
  case False
  then have "snd ?run = (s, b)"
    by (auto simp: on_step_def split: sum.splits option.splits prod.splits if_splits)
  then show ?thesis using w_step_refl [OF assms(2) ok] by simp
next
  case True
  let ?R = "saga_repo es pub"
  from True obtain saga a where ld: "load U ?R oid s = Inr (Some saga)" and rec: "observe U x saga = Inr (True, a)" by blast
  obtain i where i: "Parse U oid = Some i" "history s (saga_stream U i) \<noteq> []" "saga = saga_at U (history s) i"
    using sg.load_saga [OF assms(2) ld] .
  have oid: "oid \<noteq> []" using ld by (auto simp: load_def)
  obtain q s' b' where sv: "Save U ?R now a newid (s, b) = (q, (s', b'))" by (metis prod.collapse)
  have tk: "\<forall>c bb. x = Succeeded c bb \<longrightarrow> (\<exists>b. bb = UString U b \<and> took U (history s) i b)"
    using took [OF oid i(1)] by blast
  note st = save_observed [OF assms(1,2) ok i(2) rec [unfolded i(3)] tk sv]
  have ok': "saga_streams_ok U (history s')" using st(1) histories_okD(2) by (auto simp: w_step_def)
  show ?thesis
  proof (cases q)
    case (Inl e)
    with st(1) ld rec sv show ?thesis by (simp add: on_step_def)
  next
    case (Inr a')
    with ld rec sv have "snd ?run = (s', snd (act (saga_at U (history s') i) b'))"
      using st(2) [OF Inr] by (simp add: on_step_def on_bus_snd)
    with w_step_then [OF st(1) act [OF ok']] st(2) [OF Inr] show ?thesis by simp
  qed
qed

lemma step_event_ok:
  assumes "uuid_ok U" and "inv s" and ok: "histories_ok U (history s) g"
    and "wire_ok U (history s) g (t, Typed (WEvent e))"
  shows "w_step U g (s, b) (snd (saga_on_event U net (saga_repo es pub) now newid e (s, b)))"
proof -
  have stored: "e \<in> set (history s (availability_stream U beer))" if "event_beer e = Some beer" for beer
    using assms(4) that by simp
  note acts = publishOutcome_ok sendNext_ok sendCompensations_ok
  show ?thesis
  proof (cases e)
    case (BeerAvailabilityUpdated base beer n q oid)
    from stored [of beer] BeerAvailabilityUpdated have e: "e \<in> set (history s (availability_stream U beer))" by simp
    from histories_okD(4) [OF ok e] BeerAvailabilityUpdated obtain j where j: "oid = UString U j" by (auto simp: order_id_def)
    have "took U (history s) i beer" if "oid \<noteq> []" "Parse U oid = Some i" for i
      using that j e BeerAvailabilityUpdated assms(1) unfolding took_def by auto
    then show ?thesis
      unfolding BeerAvailabilityUpdated saga_on_event.simps OnBeerAvailabilityUpdated_def observe_fun(1) [symmetric]
      by (intro on_step_ok assms) (auto intro!: acts)
  next
    case (QuantityNotFound base beer oid q q')
    show ?thesis
      unfolding QuantityNotFound saga_on_event.simps OnQuantityNotFound_def observe_fun(2) [symmetric]
      by (intro on_step_ok assms) (auto intro!: acts)
  next
    case (AvailabilityCompensated base beer n q oid)
    show ?thesis
      unfolding AvailabilityCompensated saga_on_event.simps OnAvailabilityCompensated_def observe_fun(3) [symmetric]
      by (intro on_step_ok assms) (auto intro!: acts)
  qed (simp_all add: w_step_refl assms)
qed

text \<open>The trigger and the supervision.\<close>

lemma trigger_ok:
  assumes "uuid_ok U" and "inv s" and ok: "histories_ok U (history s) g"
    and "wire_ok U (history s) g (integrationEventTopicPrefix @ SalesOrderCreatedTopic, Raw p)"
  shows "w_step U g (s, b) (snd (OnSalesOrderCreated U net (saga_repo es pub) now newid p (s, b)))"
    (is "w_step U g (s, b) (snd ?run)")
proof -
  let ?R = "saga_repo es pub" and ?h = "history s"
  obtain c i rows where p: "p = marshal_sales_integration U (NewIntSalesOrderCreated U i c (map (int_row U) rows))"
    and ord: "ordered U g i rows"
    using assms(4) by auto
  have "row_of_int_row \<circ> int_row U = saga_row U"
    by (simp add: fun_eq_iff row_of_int_row_def int_row_def saga_row_def)
  then have m: "unmarshal_salesOrderCreated U p = Inr \<lparr>som_CommitId = c, som_SalesOrderId = UString U i, som_Rows = map (saga_row U) rows\<rparr>"
    using unmarshal_marshal_salesOrderCreated [OF assms(1), of c "UString U i" "map (int_row U) rows"] by (simp add: p msg_defs)
  show ?thesis
  proof (cases "GetByID U ?R i s = Inl ErrAggregateNotFound")
    case False
    then have "snd ?run = (s, b)"
      by (auto simp: OnSalesOrderCreated_def m assms(1) split: sum.splits)
    then show ?thesis using w_step_refl [OF assms(2) ok] by simp
  next
    case True
    define a where "a = StartOrderAllocation U i c (map (saga_row U) rows)"
    have none: "?h (saga_stream U i) = []" using sg.get_not_found [OF assms(2) True] by simp
    have id: "ar_id a = i" and new: "ar_uncommitted a \<noteq> []" and inv: "saga_inv U a"
      by (simp_all add: a_def start_loaded saga_inv_started)
    have l: "loaded_as Saga_Route NewOrderAllocationSaga (?h (saga_stream U i)) a"
      using start_loaded(1) none by (simp add: a_def)
    obtain q s' b' where sv: "Save U ?R now a newid (s, b) = (q, (s', b'))" by (metis prod.collapse)
    have beer: "event_beer e = None" if "e \<in> set (ar_uncommitted a)" for e
      using that saga_events_no_beer(2) unfolding a_def by blast
    have sok: "saga_ok U ?h g i a" unfolding a_def by (rule start_saga_ok [OF ord])
    note st = save_saga_step [OF assms(1,2) ok l id new inv _ sok beer sv]
    have w: "w_step U g (s, b) (s', b')" using st(1) none by blast
    have ok': "saga_streams_ok U (history s')" using w histories_okD(2) by (auto simp: w_step_def)
    have run: "?run = (case (q, (s', b')) of (Inl err, w') \<Rightarrow> (Inl err, w')
        | (Inr saga', w') \<Rightarrow> if sg_status saga' = SagaCompleted then on_bus (publishOutcome U net saga' c) w'
            else on_bus (sendNextAllocation U net saga' c) w')"
      by (cases q) (simp_all add: OnSalesOrderCreated_def m assms(1) True sv [unfolded a_def] Let_def)
    show ?thesis
    proof (cases q)
      case (Inl e)
      with w run show ?thesis by simp
    next
      case (Inr a')
      with st(2) none have a': "a' = saga_at U (history s') i" and ne: "history s' (saga_stream U i) \<noteq> []" by blast+
      show ?thesis
        unfolding run Inr
        using w_step_then [OF w sendNext_ok [OF ok' ne, of g b' net c]] w_step_then [OF w publishOutcome_ok [OF ok' ne, of g b' net c]] a'
        by (simp add: on_bus_snd)
    qed
  qed
qed

lemma resume_ok:
  assumes "uuid_ok U" and "inv s" and ok: "histories_ok U (history s) g"
  shows "w_step U g (s, b) (snd (ResumeInFlight U net (saga_repo es pub) es ids (s, b)))"
proof (cases "inFlight U (saga_repo es pub) es s")
  case (Inl e)
  then show ?thesis by (simp add: ResumeInFlight_def w_step_refl assms)
next
  case (Inr sagas)
  note sg = histories_okD(2) [OF ok]
  note cur = sg.inFlight_current(2) [OF assms(1,2) sg Inr]
  let ?P = "\<lambda>w. fst w = s \<and> new_ok U (history s) g b (snd w)"
  have "?P (snd (for_each (\<lambda>(k, saga). on_bus (drive U net saga (ids k))) (enumerate 0 sagas) (s, b)))"
  proof (rule for_each_invariant)
    fix x and w :: "'s \<times> wire list"
    assume x: "x \<in> set (enumerate 0 sagas)" and w: "?P w"
    obtain k saga where xs: "x = (k, saga)" by (cases x)
    have "saga = saga_at U (history s) (ar_id saga)" "history s (saga_stream U (ar_id saga)) \<noteq> []"
      using cur x xs by (auto simp: sg.current_def)
    with drive_ok [OF sg, of "ar_id saga" g "snd w" net "ids k"] w
    have "new_ok U (history s) g b (snd (drive U net saga (ids k) (snd w)))"
      using new_ok_trans [OF _ _ later_refl] by metis
    with w show "?P (snd ((\<lambda>(k, saga). on_bus (drive U net saga (ids k))) x w))"
      using xs by (cases w) (simp add: on_bus_snd)
  qed simp
  with Inr show ?thesis
    by (simp add: ResumeInFlight_def w_step_def assms rel_refl)
qed

lemma timeout_one_ok:
  assumes "uuid_ok U" and "inv s" and ok: "histories_ok U (history s) g"
    and ne: "history s (saga_stream U i) \<noteq> []" and sg: "saga = saga_at U (history s) i" and fl: "in_flight saga"
  shows "w_step U g (s, b)
    (snd (timeout_one U net (saga_repo es pub) es cutoff now cid vid saga (s, b)))"
    (is "w_step U g (s, b) (snd ?run)")
proof -
  let ?R = "saga_repo es pub" and ?h = "history s"
  note sok = histories_okD(2) [OF ok]
  have inv: "saga_inv U saga" using saga_streams_okD [OF sok ne] sg by simp
  note idle = w_step_refl [OF assms(2) ok]
  consider "snd ?run = (s, b)" | "sg_status saga = SagaCompensating" "snd ?run = (s, snd (sendCompensations U net saga cid b))"
    | t where "lastActivityOf U es saga s = Inr t" "t < cutoff" "sg_status saga = SagaRunning"
  proof -
    have idle_run: "snd ?run = (s, b)" if "\<nexists>t. lastActivityOf U es saga s = Inr t \<and> t < cutoff"
      using that by (cases "lastActivityOf U es saga s") (simp_all add: timeout_one_def)
    have "snd ?run = (s, snd (sendCompensations U net saga cid b))"
      if "lastActivityOf U es saga s = Inr t" "t < cutoff" "sg_status saga = SagaCompensating" for t
      using that by (simp add: timeout_one_def on_bus_snd)
    with idle_run fl show thesis using that unfolding in_flight_def by blast
  qed
  then show ?thesis
  proof cases
    case 1
    with idle show ?thesis by simp
  next
    case 2
    with w_step_then [OF idle sendCompensations_ok [OF sok ne, of g b net cid]] sg show ?thesis by simp
  next
    case (3 t)
    let ?b = "row_BeerId (fst (NextPendingRow saga))" and ?rs = "''allocation step timed out''"
    have "rowInState ?b rowPending saga"
      using saga_inv_next_row [OF inv 3(3)] by (auto simp: rowInState_def list_ex_iff)
    then obtain a where a: "RecordQuantityNotFound U cid ?b ?rs saga = Inr (True, a)"
      using not_found_moves [OF saga_inv_MustParse [OF assms(1) inv] 3(3), of ?b cid ?rs] by auto
    then have rec: "observe U (NotFound cid ?b ?rs) (saga_at U ?h i) = Inr (True, a)" using sg by simp
    obtain q s' b' where sv: "Save U ?R now a vid (s, b) = (q, (s', b'))" by (metis prod.collapse)
    have "\<forall>c bb. NotFound cid ?b ?rs = Succeeded c bb \<longrightarrow> (\<exists>b. bb = UString U b \<and> took U ?h i b)" by simp
    note st = save_observed [OF assms(1,2) ok ne rec this sv]
    have ok': "saga_streams_ok U (history s')" using st(1) histories_okD(2) by (auto simp: w_step_def)
    have run: "?run = (case (q, (s', b')) of (Inl err, w') \<Rightarrow> (Inl err, w')
        | (Inr saga2, w') \<Rightarrow> if sg_status saga2 = SagaRejected then on_bus (publishOutcome U net saga2 cid) w'
            else on_bus (sendCompensations U net saga2 cid) w')"
      using 3 a sv by (cases q) (simp_all add: timeout_one_def case_prod_unfold)
    show ?thesis
    proof (cases q)
      case (Inl e)
      with st(1) run show ?thesis by simp
    next
      case (Inr a')
      with st(2) have a': "a' = saga_at U (history s') i" and ne': "history s' (saga_stream U i) \<noteq> []" by blast+
      show ?thesis
        unfolding run Inr
        using w_step_then [OF st(1) publishOutcome_ok [OF ok' ne', of g b' net cid]]
          w_step_then [OF st(1) sendCompensations_ok [OF ok' ne', of g b' net cid]] a'
        by (simp add: on_bus_snd)
    qed
  qed
qed

lemma sweep_loop_ok:
  assumes "uuid_ok U" and "inv s" and "histories_ok U (history s) g"
    and "distinct (map (ar_id \<circ> snd) xs)" and "\<forall>x \<in> set xs. sg.current U s (snd x)"
  shows "w_step U g (s, b) (snd (for_each (\<lambda>(k, saga). timeout_one U net (saga_repo es pub)
    es cutoff (now k) (cid k) (vid k) saga) xs (s, b)))"
  using assms(2-5)
proof (induction xs arbitrary: s b)
  case (Cons x xs)
  obtain k saga where x: "x = (k, saga)" by (cases x)
  let ?R = "saga_repo es pub"
  obtain r s1 b1 where run: "timeout_one U net ?R es cutoff (now k) (cid k) (vid k) saga (s, b) = (r, (s1, b1))"
    by (metis prod.collapse)
  have sg: "history s (saga_stream U (ar_id saga)) \<noteq> []" "saga = saga_at U (history s) (ar_id saga)" "in_flight saga"
    using Cons.prems(4) x by (auto simp: sg.current_def)
  have w1: "w_step U g (s, b) (s1, b1)"
    using timeout_one_ok [OF assms(1) Cons.prems(1,2) sg, of b net cutoff "now k" "cid k" "vid k"] run by simp
  have "sg.current U s1 (snd y)" if y: "y \<in> set xs" for y
  proof -
    have "ar_id (snd y) \<noteq> ar_id saga" using Cons.prems(3) y x by (force simp: image_iff)
    from sg.timeout_one_effect(2) [OF assms(1) Cons.prems(1) histories_okD(2) [OF Cons.prems(2)] sg run this]
    have h: "history s1 (saga_stream U (ar_id (snd y))) = history s (saga_stream U (ar_id (snd y)))" .
    have "sg.current U s (snd y)" using Cons.prems(4) y by simp
    then show ?thesis unfolding sg.current_def h .
  qed
  then have "w_step U g (s1, b1) (snd (for_each (\<lambda>(k, saga). timeout_one U net ?R es cutoff (now k) (cid k) (vid k) saga) xs (s1, b1)))"
    using Cons.IH [of s1 b1] Cons.prems(3) w1 by (simp add: w_step_def)
  from w_step_trans [OF w1 this] w1 run x show ?case by (cases r) auto
qed (simp add: w_step_refl)

lemma sweep_ok:
  assumes "uuid_ok U" and "inv s" and ok: "histories_ok U (history s) g"
  shows "w_step U g (s, b) (snd (TimeoutInFlight U net (saga_repo es pub) es cutoff now cid vid (s, b)))"
proof (cases "inFlight U (saga_repo es pub) es s")
  case (Inl e)
  then show ?thesis by (simp add: TimeoutInFlight_def w_step_refl assms)
next
  case (Inr sagas)
  from sweep_loop_ok [OF assms sg.inFlight_current [OF assms(1,2) histories_okD(2) [OF ok] Inr]] Inr
  show ?thesis by (simp add: TimeoutInFlight_def)
qed

end

section \<open>A step of Sales\<close>

lemma sales_decide_ok:
  assumes "order_shape (sc_SalesOrderId c) hist" and "sales_decide c hist = Inr [e]" and "s_command_ok U h c"
  shows "order_event_ok U h e \<and> event_order e = sc_SalesOrderId c"
proof (cases "hist = []")
  case True
  with assms(2) show ?thesis by (cases c) (auto simp: msg_defs split: if_splits)
next
  case False
  from assms(1) False show ?thesis
    by (cases rule: order_shape_cases)
      (use assms(2,3) in \<open>cases c; auto simp: msg_defs order_conflict_def split: if_splits\<close>)+
qed

locale sales_side = sales_handlers es pub history inv
  for es :: "('s, sales_event) EventStore"
    and pub :: "(sales_event \<Rightarrow> wire list \<Rightarrow> (wire list, unit) outcome) option"
    and history :: "'s \<Rightarrow> string \<Rightarrow> sales_event list" and inv :: "'s \<Rightarrow> bool" +
  fixes rel :: "uuid_pkg \<Rightarrow> 's \<Rightarrow> 's \<Rightarrow> bool"
  assumes publishes: "announces (\<lambda>e. event_wire (SEvent e)) pub"
    and rel_refl: "rel U s s"
    and rel_append: "inv s \<Longrightarrow> evs \<noteq> [] \<Longrightarrow> sid \<in> range (order_stream U) \<Longrightarrow> rel U s (snd (es_Append es now sid ev cid evs s))"
begin

definition s_step :: "uuid_pkg \<Rightarrow> w_histories \<Rightarrow> 's \<times> wire list \<Rightarrow> 's \<times> wire list \<Rightarrow> bool" where
  "s_step U h w w' \<longleftrightarrow> inv (fst w') \<and> rel U (fst w) (fst w') \<and> histories_ok U h (history (fst w')) \<and>
     grown (history (fst w)) (history (fst w')) \<and> new_ok U h (history (fst w')) (snd w) (snd w')"

lemma sales_step:
  assumes "uuid_ok U" and "inv s" and ok: "histories_ok U h (history s)"
    and "sales_command_ok c" and "s_command_ok U h c"
  shows "s_step U h (s, b) (snd (sales_handle U (sales_repo es pub) now newid c (s, b)))"
proof -
  let ?R = "sales_repo es pub" and ?i = "sc_SalesOrderId c"
  let ?g = "history s (order_stream U ?i)"
  obtain r s' b' where run: "sales_handle U ?R now newid c (s, b) = (r, (s', b'))" by (metis prod.collapse)
  note shape = orders_okD [OF histories_okD(3) [OF ok], of ?i]
  consider "s' = s" "b' = b" | e where "sales_decide c ?g = Inr [e]"
      "save_unit U ?R now (RaiseEvent SalesOrder_Route e (order_of ?g)) newid (s, b) = (r, (s', b'))"
    using handle_cases [OF assms(2,4) run] by blast
  then show ?thesis
  proof cases
    case 1
    with assms(2) ok run show ?thesis by (simp add: s_step_def rel_refl)
  next
    case (2 e)
    let ?a = "RaiseEvent SalesOrder_Route e (order_of ?g)" and ?sid = "order_stream U ?i"
    note a = decided_aggregate [OF shape 2(1) refl]
    have new: "ar_uncommitted ?a \<noteq> []" using a(1) by simp
    have sid: "repo_stream U ?R (ar_id ?a) = ?sid" using a(2) by simp
    obtain q where sv: "Save U ?R now ?a newid (s, b) = (q, (s', b'))"
      using 2(2) by (auto simp: save_unit_def split: prod.splits sum.splits)
    note st = save_step [OF assms(2) new sv]
    have rel: "rel U s s'" using rel_append [OF assms(2) new, of ?sid U] st(2) sid by simp
    note e = sales_decide_ok [OF shape 2(1) assms(5)]
    show ?thesis
    proof (cases "history s' = history s \<and> b' = b")
      case True
      with run st(1) ok rel show ?thesis by (simp add: s_step_def)
    next
      case False
      then have g': "history s' = (history s)(?sid := ?g @ [e])" using st(3) sid a(1) by auto
      note app = order_append [OF assms(1) ok sales_decide_shape [OF shape 2(1)] e [THEN conjunct1], folded g']
      have "set b' \<subseteq> insert (event_wire (SEvent e)) (set b)"
        using Save_set [of "\<lambda>e. event_wire (SEvent e)" ?R U now ?a newid s b] publishes sv a(1) by auto
      moreover have "wire_ok U h (history s') (event_wire (SEvent e))" using e by (simp add: g')
      ultimately have "new_ok U h (history s') b b'" by (rule new_ok_insert)
      with st(1) rel app run show ?thesis by (simp add: s_step_def)
    qed
  qed
qed

end

lemma publish_created_ok:
  assumes "wire_ok U h g (t, Typed (SEvent e))"
  shows "new_ok U h g b (snd (publish_created U net e b))"
proof (cases e)
  case (SalesOrderCreated base i n d ci cn rows)
  then have "ordered U g i rows" using assms unfolding ordered_def by simp blast
  then have "wire_ok U h g (integration_wire U (SIntegration (NewIntSalesOrderCreated U i (ev_CommitId base) (map (int_row U) rows))))"
    by (auto simp: integration_wire_def msg_defs SalesOrderCreatedName_def SalesOrderCreatedTopic_def OrderAllocationCompletedTopic_def
        OrderAllocationRejectedTopic_def)
  then show ?thesis by (simp add: SalesOrderCreated new_ok_send(3))
qed simp_all

lemma on_outcome_ok:
  assumes "uuid_ok U" and "wire_ok U h g w"
  shows "new_ok U h g b (snd (on_outcome U net w b))"
proof -
  obtain t p where w: "w = (t, p)" by (cases w)
  show ?thesis
  proof (cases p)
    case (Typed m)
    then show ?thesis by (simp add: w on_outcome_def)
  next
    case (Raw q)
    show ?thesis
    proof (cases "t = integrationEventTopicPrefix @ OrderAllocationCompletedTopic")
      case True
      then obtain c i where "q = marshal_warehouse_integration U (IntOrderAllocationCompleted c (UString U i))" "completed U h i"
        using assms(2) by (auto simp: w Raw)
      then show ?thesis
        using True unmarshal_marshal_outcome(1) [OF assms(1)] assms(1)
        by (auto simp: w Raw on_outcome_def OnAllocationCompleted_def outcome_parse_def msg_defs sales_command_ok_def intro!: new_ok_send(2))
    next
      case other: False
      show ?thesis
      proof (cases "t = integrationEventTopicPrefix @ OrderAllocationRejectedTopic")
        case True
        then obtain c i rs where "q = marshal_warehouse_integration U (IntOrderAllocationRejected c (UString U i) rs)" "rejected U h i rs"
          using assms(2) by (auto simp: w Raw)
        then show ?thesis
          using True other unmarshal_marshal_outcome(2) [OF assms(1)] assms(1)
          by (auto simp: w Raw on_outcome_def OnAllocationRejected_def outcome_parse_def msg_defs sales_command_ok_def intro!: new_ok_send(2))
      next
        case False
        with other show ?thesis by (simp add: w Raw on_outcome_def)
      qed
    qed
  qed
qed

lemma facades_ok:
  "new_ok U h g b (snd (facade_CreateSalesOrder U net orderId customerId commitId now body b))"
  "new_ok U h g b (snd (facade_UpdateAvailabilityDueToProductionOrder U net commitId' body' b))"
proof -
  have snd_send: "snd (case x of (Inl e, s') \<Rightarrow> (Inl e, s') | (Inr _, s') \<Rightarrow> (Inr v, s')) = snd x"
    for x :: "(wire list, unit) outcome" and v :: string
    by (auto split: prod.splits sum.splits)
  have c: "sales_command_ok (NewCreateSalesOrder i k nr d ci cn rows)" "s_command_ok U h (NewCreateSalesOrder i k nr d ci cn rows)"
    for i k nr d ci cn rows by (simp_all add: msg_defs sales_command_ok_def)
  have p: "command_ok (NewUpdateAvailabilityDueToProductionOrder i k n q)" "w_command_ok U h (NewUpdateAvailabilityDueToProductionOrder i k n q)"
    for i k n q by (simp_all add: msg_defs command_ok_def)
  show "new_ok U h g b (snd (facade_CreateSalesOrder U net orderId customerId commitId now body b))"
    by (simp add: facade_CreateSalesOrder_def snd_send new_ok_send(2) c Let_def split: option.splits sum.splits)
  show "new_ok U h g b (snd (facade_UpdateAvailabilityDueToProductionOrder U net commitId' body' b))"
    by (simp add: facade_UpdateAvailabilityDueToProductionOrder_def snd_send new_ok_send(1) p split: option.splits)
qed

section \<open>An allocated order holds its beers\<close>

lemma held_if_taken:
  assumes "BeerAvailabilityUpdated base b n q oid \<in> set hist" and "oid \<noteq> []"
    and "\<And>base' b' n' q'. AvailabilityCompensated base' b' n' q' oid \<notin> set hist"
  shows "oid \<in> av_held (stock hist)"
  using assms(1,3)
proof (induction hist rule: rev_induct)
  case (snoc e hist)
  show ?case
  proof (cases "oid \<in> av_held (stock hist)")
    case True
    with snoc.prems(2) show ?thesis by (cases e) (auto simp: stock_def Let_def SetID_def)
  next
    case False
    with snoc have "BeerAvailabilityUpdated base b n q oid \<notin> set hist" by auto
    with snoc.prems(1) have "e = BeerAvailabilityUpdated base b n q oid" by simp
    with assms(2) show ?thesis by (simp add: stock_def Let_def)
  qed
qed simp

lemma completed_holds:
  assumes "uuid_ok U" and ok: "histories_ok U h g" and "completed U h i" and "ordered U g i rows" and "row \<in> set rows"
  shows "UString U i \<in> av_held (stock (h (availability_stream U (so_BeerId row))))"
proof -
  have ne: "h (saga_stream U i) \<noteq> []" and st: "sg_status (saga_at U h i) = SagaCompleted"
    using assms(3) by (simp_all add: saga_is_def)
  let ?saga = "saga_at U h i"
  obtain rs where rs: "ordered U g i rs" "map row_data (sg_rows ?saga) = map (saga_row U) rs"
    using histories_okD(5) [OF ok ne] unfolding saga_ok_def by blast
  have shape: "order_shape i (g (order_stream U i))" by (rule orders_okD [OF histories_okD(3) [OF ok]])
  have "g (order_stream U i) \<noteq> []" using rs(1) by (auto simp: ordered_def)
  with shape have "rs = rows"
    by (cases rule: order_shape_cases) (use rs(1) assms(4) in \<open>auto simp: ordered_def\<close>)
  with rs(2) assms(5) obtain r where r: "r \<in> set (sg_rows ?saga)" "row_data r = saga_row U row"
    by (metis (no_types, lifting) image_iff list.set_map)
  have "row_state r = rowAllocated"
    using saga_streams_okD [OF histories_okD(2) [OF ok] ne] st r(1) by (simp add: saga_inv_def)
  then obtain b where "row_BeerId (row_data r) = UString U b" and tk: "took U h i b"
    using histories_okD(5) [OF ok ne] r(1) unfolding saga_ok_def by blast
  then have b: "b = so_BeerId row" using r(2) uuid_ok_inj [OF assms(1)] by (simp add: saga_row_def)
  have "\<not> undone U h i" using st by (simp add: saga_is_def)
  then have "AvailabilityCompensated base b' n q (UString U i) \<notin> set (h (availability_stream U b))" for base b' n q
    using histories_okD(4) [OF ok] uuid_ok_inj [OF assms(1)] by (fastforce simp: undone_id_def)
  with tk held_if_taken show ?thesis unfolding took_def b by blast
qed

end
