(* ===== verification/Brewery_System.thy ===== *)
theory Brewery_System
  imports Brewery_Contract
begin

text \<open>
  The two modules together, as \<^verbatim>\<open>src/internal/app/app.go\<close> composes them on one service bus in
  memory mode: \<^verbatim>\<open>Register\<close> of \<^verbatim>\<open>src/internal/sales/module.go\<close> and of
  \<^verbatim>\<open>src/internal/warehouses/module.go\<close> subscribe the handlers, the facades accept the clients'
  requests, and \<^verbatim>\<open>startSagaSupervision\<close> resumes and sweeps the sagas. A step runs one handler
  on one message that was sent at some time before: messages may be delivered late, twice,
  in any order or never, and the network may refuse any publication. The theorem at the end
  spans the whole round trip: an order that the API shows as allocated holds stock of every
  beer it asked for.
\<close>

section \<open>The composed system\<close>

record brewery =
  bw_warehouse :: "warehouse_event InMemoryEventStore"
  bw_sales :: "sales_event InMemoryEventStore"
  bw_orders :: SalesOrderService
  bw_stock :: AvailabilityService
  bw_sent :: "wire list"

definition new_brewery :: brewery where
  "new_brewery = \<lparr>bw_warehouse = NewInMemoryEventStore, bw_sales = NewInMemoryEventStore,
     bw_orders = NewSalesOrderService, bw_stock = NewAvailabilityService, bw_sent = []\<rparr>"

definition in_warehouse ::
  "(warehouse_event InMemoryEventStore \<times> wire list \<Rightarrow> (warehouse_event InMemoryEventStore \<times> wire list, 'a) outcome)
     \<Rightarrow> brewery \<Rightarrow> (brewery, 'a) outcome" where
  "in_warehouse f st =
     (case f (bw_warehouse st, bw_sent st) of (r, (s, b)) \<Rightarrow> (r, st\<lparr>bw_warehouse := s, bw_sent := b\<rparr>))"

definition in_sales ::
  "(sales_event InMemoryEventStore \<times> wire list \<Rightarrow> (sales_event InMemoryEventStore \<times> wire list, 'a) outcome)
     \<Rightarrow> brewery \<Rightarrow> (brewery, 'a) outcome" where
  "in_sales f st = (case f (bw_sales st, bw_sent st) of (r, (s, b)) \<Rightarrow> (r, st\<lparr>bw_sales := s, bw_sent := b\<rparr>))"

definition on_wire :: "(wire list \<Rightarrow> (wire list, 'a) outcome) \<Rightarrow> brewery \<Rightarrow> (brewery, 'a) outcome" where
  "on_wire f st = (case f (bw_sent st) of (r, b) \<Rightarrow> (r, st\<lparr>bw_sent := b\<rparr>))"

definition sales_publisher :: "uuid_pkg \<Rightarrow> network \<Rightarrow> (sales_event \<Rightarrow> wire list \<Rightarrow> (wire list, unit) outcome) option" where
  "sales_publisher U net = Some (\<lambda>e. PublishDomainEvent U net (SEvent e))"

text \<open>
  The subscriptions of the two modules. A message reaches every subscription of its topic;
  each of them acknowledges or fails on its own, so each is a step of its own.
\<close>

datatype sales_subscription = SalesCommands | SalesProjection | SalesIntegration | SalesOutcomes

fun sales_deliver ::
  "uuid_pkg \<Rightarrow> network \<Rightarrow> instant \<Rightarrow> uuid \<Rightarrow> sales_subscription \<Rightarrow> wire \<Rightarrow> brewery \<Rightarrow> (brewery, unit) outcome" where
  "sales_deliver U net now newid SalesCommands (topic, Typed (SCommand c)) st =
     in_sales (sales_handle U (sales_repo in_memory_store (sales_publisher U net)) now newid c) st"
| "sales_deliver U net now newid SalesProjection (topic, Typed (SEvent e)) st =
     (case project_sales U e (bw_orders st) of (r, v) \<Rightarrow> (r, st\<lparr>bw_orders := v\<rparr>))"
| "sales_deliver U net now newid SalesIntegration (topic, Typed (SEvent e)) st = on_wire (publish_created U net e) st"
| "sales_deliver U net now newid SalesOutcomes w st = on_wire (on_outcome U net w) st"
| "sales_deliver U net now newid _ _ st = (Inr (), st)"

datatype warehouse_subscription = WarehouseCommands | WarehouseProjection | SagaTrigger | SagaSteps

fun warehouse_deliver ::
  "uuid_pkg \<Rightarrow> network \<Rightarrow> instant \<Rightarrow> uuid \<Rightarrow> warehouse_subscription \<Rightarrow> wire \<Rightarrow> brewery \<Rightarrow> (brewery, unit) outcome" where
  "warehouse_deliver U net now newid WarehouseCommands (topic, Typed (WCommand c)) st =
     in_warehouse (warehouse_handle U (availability_repo in_memory_store (bus_publisher U net)) now newid c) st"
| "warehouse_deliver U net now newid WarehouseProjection (topic, Typed (WEvent e)) st =
     (case project_availability U UpsertAvailability e (bw_stock st) of (r, v) \<Rightarrow> (r, st\<lparr>bw_stock := v\<rparr>))"
| "warehouse_deliver U net now newid SagaTrigger (topic, Raw p) st =
     (if topic = integrationEventTopicPrefix @ SalesOrderCreatedTopic
      then in_warehouse (OnSalesOrderCreated U net (saga_repo in_memory_store (bus_publisher U net)) now newid p) st
      else (Inr (), st))"
| "warehouse_deliver U net now newid SagaSteps (topic, Typed (WEvent e)) st =
     in_warehouse (saga_on_event U net (saga_repo in_memory_store (bus_publisher U net)) now newid e) st"
| "warehouse_deliver U net now newid _ _ st = (Inr (), st)"

definition resume_sagas :: "uuid_pkg \<Rightarrow> network \<Rightarrow> (nat \<Rightarrow> uuid) \<Rightarrow> brewery \<Rightarrow> (brewery, unit) outcome" where
  "resume_sagas U net ids st =
     in_warehouse (ResumeInFlight U net (saga_repo in_memory_store (bus_publisher U net)) in_memory_store ids) st"

definition sweep_sagas ::
  "uuid_pkg \<Rightarrow> network \<Rightarrow> instant \<Rightarrow> (nat \<Rightarrow> instant) \<Rightarrow> (nat \<Rightarrow> uuid) \<Rightarrow> (nat \<Rightarrow> uuid) \<Rightarrow> brewery \<Rightarrow> (brewery, unit) outcome" where
  "sweep_sagas U net cutoff clock ids ids' st =
     in_warehouse (TimeoutInFlight U net (saga_repo in_memory_store (bus_publisher U net)) in_memory_store cutoff clock ids ids') st"

inductive brewery_reach :: "uuid_pkg \<Rightarrow> brewery \<Rightarrow> bool" for U where
  boot: "brewery_reach U new_brewery"
| place_order: "brewery_reach U st \<Longrightarrow>
    brewery_reach U (snd (on_wire (facade_CreateSalesOrder U net orderId customerId commitId now body) st))"
| declare_production: "brewery_reach U st \<Longrightarrow>
    brewery_reach U (snd (on_wire (facade_UpdateAvailabilityDueToProductionOrder U net commitId' body') st))"
| sales_delivery: "brewery_reach U st \<Longrightarrow> w \<in> set (bw_sent st) \<Longrightarrow>
    brewery_reach U (snd (sales_deliver U net now newid ssub w st))"
| warehouse_delivery: "brewery_reach U st \<Longrightarrow> w \<in> set (bw_sent st) \<Longrightarrow>
    brewery_reach U (snd (warehouse_deliver U net now newid wsub w st))"
| resume: "brewery_reach U st \<Longrightarrow> brewery_reach U (snd (resume_sagas U net ids st))"
| sweep: "brewery_reach U st \<Longrightarrow> brewery_reach U (snd (sweep_sagas U net cutoff clock ids ids' st))"

section \<open>The modules on the in-memory store\<close>

lemma publishers_announce:
  "announces (\<lambda>e. event_wire (WEvent e)) (bus_publisher U net)" "announces (\<lambda>e. event_wire (SEvent e)) (sales_publisher U net)"
  using bus_set by (simp_all add: announces_def bus_publisher_def sales_publisher_def)

interpretation mem_ws: warehouse_side in_memory_store "bus_publisher U net" mem_history store_wf "\<lambda>_ _ _. True" for U net
  by unfold_locales (simp_all add: publishers_announce)

interpretation mem_ss: sales_side in_memory_store "sales_publisher U net" mem_history store_wf "\<lambda>_ _ _. True" for U net
  by unfold_locales (simp_all add: publishers_announce)

section \<open>The invariant of the system\<close>

text \<open>What the read model shows as settled is settled in the order's stream.\<close>

definition view_ok :: "uuid_pkg \<Rightarrow> s_histories \<Rightarrow> SalesOrderService \<Rightarrow> bool" where
  "view_ok U g v \<longleftrightarrow> (\<forall>i d. sv_orders v (UString U i) = Some d \<longrightarrow>
     (d_AllocationStatus d = ''allocated'' \<longrightarrow> (\<exists>base. SalesOrderAllocated base i \<in> set (g (order_stream U i)))) \<and>
     (d_AllocationStatus d = ''rejected'' \<longrightarrow>
        (\<exists>base. SalesOrderAllocationRejected base i (d_RejectionReason d) \<in> set (g (order_stream U i)))))"

lemma view_ok_grown: "view_ok U g v \<Longrightarrow> grown g g' \<Longrightarrow> view_ok U g' v"
  unfolding view_ok_def using grown_mem by blast

text \<open>An entry whose status was projected from an event of the order's stream.\<close>

lemma view_ok_upd:
  assumes "uuid_ok U" and "view_ok U g v" and "\<forall>j. j \<noteq> UString U i \<longrightarrow> sv_orders v' j = sv_orders v j"
    and "\<And>d. sv_orders v' (UString U i) = Some d \<Longrightarrow>
      (d_AllocationStatus d = ''allocated'' \<longrightarrow> (\<exists>base. SalesOrderAllocated base i \<in> set (g (order_stream U i)))) \<and>
      (d_AllocationStatus d = ''rejected'' \<longrightarrow>
        (\<exists>base. SalesOrderAllocationRejected base i (d_RejectionReason d) \<in> set (g (order_stream U i))))"
  shows "view_ok U g v'"
  unfolding view_ok_def
proof (intro allI impI)
  fix j d
  assume d: "sv_orders v' (UString U j) = Some d"
  show "(d_AllocationStatus d = ''allocated'' \<longrightarrow> (\<exists>base. SalesOrderAllocated base j \<in> set (g (order_stream U j)))) \<and>
      (d_AllocationStatus d = ''rejected'' \<longrightarrow>
        (\<exists>base. SalesOrderAllocationRejected base j (d_RejectionReason d) \<in> set (g (order_stream U j))))"
  proof (cases "j = i")
    case True
    with assms(4) d show ?thesis by blast
  next
    case False
    then have "UString U j \<noteq> UString U i" using uuid_ok_inj [OF assms(1)] by simp
    with assms(3) d have "sv_orders v (UString U j) = Some d" by simp
    with assms(2) show ?thesis unfolding view_ok_def by blast
  qed
qed

lemma project_view_ok:
  assumes "uuid_ok U" and "view_ok U g v" and e: "e \<in> set (g (order_stream U (event_order e)))"
  shows "view_ok U g (snd (project_sales U e v))"
proof (cases e)
  case (SalesOrderCreated base i n d ci cn rows)
  have old: "(d_AllocationStatus x = ''allocated'' \<longrightarrow> (\<exists>base. SalesOrderAllocated base i \<in> set (g (order_stream U i)))) \<and>
      (d_AllocationStatus x = ''rejected'' \<longrightarrow>
        (\<exists>base. SalesOrderAllocationRejected base i (d_RejectionReason x) \<in> set (g (order_stream U i))))"
    if "sv_orders v (UString U i) = Some x" for x
    using assms(2) that unfolding view_ok_def by blast
  show ?thesis
    by (rule view_ok_upd [OF assms(1,2), of i])
      (use old in \<open>auto simp: SalesOrderCreated OnSalesOrderCreated_projection_def service_CreateSalesOrder_def Let_def
        split: option.splits if_splits\<close>)
next
  case (SalesOrderAllocated base i)
  have "\<exists>base. SalesOrderAllocated base i \<in> set (g (order_stream U i))" using e SalesOrderAllocated by auto
  then show ?thesis
    by (intro view_ok_upd [OF assms(1,2), of i])
      (auto simp: SalesOrderAllocated UpdateAllocationStatus_def Let_def split: option.splits)
next
  case (SalesOrderAllocationRejected base i r)
  have "\<exists>base. SalesOrderAllocationRejected base i r \<in> set (g (order_stream U i))" using e SalesOrderAllocationRejected by auto
  then show ?thesis
    by (intro view_ok_upd [OF assms(1,2), of i])
      (auto simp: SalesOrderAllocationRejected UpdateAllocationStatus_def Let_def split: option.splits)
qed

definition brewery_inv :: "uuid_pkg \<Rightarrow> brewery \<Rightarrow> bool" where
  "brewery_inv U st \<longleftrightarrow> store_wf (bw_warehouse st) \<and> store_wf (bw_sales st) \<and>
     histories_ok U (mem_history (bw_warehouse st)) (mem_history (bw_sales st)) \<and>
     (\<forall>w \<in> set (bw_sent st). wire_ok U (mem_history (bw_warehouse st)) (mem_history (bw_sales st)) w) \<and>
     view_ok U (mem_history (bw_sales st)) (bw_orders st)"

lemma brewery_inv_init: "brewery_inv U new_brewery"
proof -
  have h: "mem_history NewInMemoryEventStore sid = []" for sid
    by (simp add: mem_history_def stream_of_def NewInMemoryEventStore_def)
  show ?thesis
    by (simp add: brewery_inv_def new_brewery_def store_wf_New histories_ok_def beer_streams_ok_New saga_streams_ok_New
        orders_ok_def view_ok_def NewSalesOrderService_def h)
qed

lemma inv_warehouse:
  assumes "brewery_inv U st"
    and "mem_ws.w_step U (mem_history (bw_sales st)) (bw_warehouse st, bw_sent st) (snd (f (bw_warehouse st, bw_sent st)))"
  shows "brewery_inv U (snd (in_warehouse f st))"
proof -
  obtain r s b where f: "f (bw_warehouse st, bw_sent st) = (r, (s, b))" by (metis prod.collapse)
  have "wire_ok U (mem_history s) (mem_history (bw_sales st)) w" if "w \<in> set b" for w
    using that assms f wire_ok_mono [OF _ _ grown_refl] unfolding mem_ws.w_step_def new_ok_def brewery_inv_def by fastforce
  with assms f show ?thesis by (simp add: in_warehouse_def mem_ws.w_step_def brewery_inv_def)
qed

lemma inv_wire:
  assumes "brewery_inv U st"
    and "new_ok U (mem_history (bw_warehouse st)) (mem_history (bw_sales st)) (bw_sent st) (snd (f (bw_sent st)))"
  shows "brewery_inv U (snd (on_wire f st))"
  using assms by (auto simp: on_wire_def brewery_inv_def new_ok_def split: prod.splits)

lemma inv_sales:
  assumes "uuid_ok U" and inv: "brewery_inv U st" and "sales_command_ok c" and "s_command_ok U (mem_history (bw_warehouse st)) c"
  shows "brewery_inv U (snd (in_sales (sales_handle U (sales_repo in_memory_store (sales_publisher U net)) now newid c) st))"
proof -
  obtain r s b where f: "sales_handle U (sales_repo in_memory_store (sales_publisher U net)) now newid c (bw_sales st, bw_sent st) = (r, (s, b))"
    by (metis prod.collapse)
  have "mem_ss.s_step U (mem_history (bw_warehouse st)) (bw_sales st, bw_sent st)
      (snd (sales_handle U (sales_repo in_memory_store (sales_publisher U net)) now newid c (bw_sales st, bw_sent st)))"
    by (rule mem_ss.sales_step [OF assms(1) _ _ assms(3,4)]) (use inv in \<open>simp_all add: brewery_inv_def\<close>)
  with f have st: "store_wf s" "histories_ok U (mem_history (bw_warehouse st)) (mem_history s)"
      "grown (mem_history (bw_sales st)) (mem_history s)" "new_ok U (mem_history (bw_warehouse st)) (mem_history s) (bw_sent st) b"
    by (simp_all add: mem_ss.s_step_def)
  then have "wire_ok U (mem_history (bw_warehouse st)) (mem_history s) w" if "w \<in> set b" for w
    using that inv wire_ok_mono [OF _ later_refl] unfolding new_ok_def brewery_inv_def by blast
  with st f inv view_ok_grown show ?thesis by (auto simp: in_sales_def brewery_inv_def)
qed

text \<open>Every delivery of a message that was sent keeps the invariant.\<close>

lemma brewery_invD:
  assumes "brewery_inv U st"
  shows "store_wf (bw_warehouse st)" and "histories_ok U (mem_history (bw_warehouse st)) (mem_history (bw_sales st))"
    and "w \<in> set (bw_sent st) \<Longrightarrow> wire_ok U (mem_history (bw_warehouse st)) (mem_history (bw_sales st)) w"
    and "view_ok U (mem_history (bw_sales st)) (bw_orders st)"
  using assms by (simp_all add: brewery_inv_def)

lemma sales_deliver_inv:
  assumes "uuid_ok U" and inv: "brewery_inv U st" and w: "w \<in> set (bw_sent st)"
  shows "brewery_inv U (snd (sales_deliver U net now newid sub w st))"
proof -
  let ?h = "mem_history (bw_warehouse st)" and ?g = "mem_history (bw_sales st)"
  note ok = brewery_invD(3) [OF inv w] and v = brewery_invD(4) [OF inv]
  show ?thesis
  proof (cases "(U, net, now, newid, sub, w, st)" rule: sales_deliver.cases)
    case (1 _ _ _ _ topic c _)
    with ok inv_sales [OF assms(1) inv] show ?thesis by simp
  next
    case (2 _ _ _ _ topic e _)
    with ok project_view_ok [OF assms(1) v, of e] inv show ?thesis
      by (auto simp: brewery_inv_def split: prod.splits)
  next
    case (3 _ _ _ _ topic e _)
    then have "new_ok U ?h ?g (bw_sent st) (snd (publish_created U net e (bw_sent st)))"
      using ok by (intro publish_created_ok [of U ?h ?g topic]) simp
    with 3 inv_wire [OF inv] show ?thesis by simp
  next
    case (4 _ _ _ _ _ _)
    with inv_wire [OF inv, of "on_outcome U net w"] on_outcome_ok [OF assms(1) ok] show ?thesis by simp
  qed (use inv in simp_all)
qed

lemma warehouse_deliver_inv:
  assumes "uuid_ok U" and inv: "brewery_inv U st" and w: "w \<in> set (bw_sent st)"
  shows "brewery_inv U (snd (warehouse_deliver U net now newid sub w st))"
proof -
  let ?g = "mem_history (bw_sales st)"
  note ok = brewery_invD(3) [OF inv w] and wf = brewery_invD(1,2) [OF inv]
  show ?thesis
  proof (cases "(U, net, now, newid, sub, w, st)" rule: warehouse_deliver.cases)
    case (1 _ _ _ _ topic c _)
    with ok inv mem_ws.handle_step [OF assms(1) wf] show ?thesis by (auto intro!: inv_warehouse)
  next
    case (2 _ _ _ _ topic e _)
    with inv show ?thesis by (auto simp: brewery_inv_def split: prod.splits)
  next
    case (3 _ _ _ _ topic p _)
    show ?thesis
    proof (cases "topic = integrationEventTopicPrefix @ SalesOrderCreatedTopic")
      case True
      have "mem_ws.w_step U ?g (bw_warehouse st, bw_sent st)
          (snd (OnSalesOrderCreated U net (saga_repo in_memory_store (bus_publisher U net)) now newid p (bw_warehouse st, bw_sent st)))"
        by (rule mem_ws.trigger_ok [OF assms(1) wf]) (use ok 3 True in \<open>simp only: prod.inject\<close>)
      with 3 True inv show ?thesis by (auto intro!: inv_warehouse)
    qed (use 3 inv in simp)
  next
    case (4 _ _ _ _ topic e _)
    then have "mem_ws.w_step U ?g (bw_warehouse st, bw_sent st)
        (snd (saga_on_event U net (saga_repo in_memory_store (bus_publisher U net)) now newid e (bw_warehouse st, bw_sent st)))"
      using ok by (intro mem_ws.step_event_ok [OF assms(1) wf, of topic]) simp
    with 4 inv show ?thesis by (auto intro!: inv_warehouse)
  qed (use inv in simp_all)
qed

lemma brewery_reach_inv:
  assumes "brewery_reach U st" and "uuid_ok U"
  shows "brewery_inv U st"
  using assms(1)
proof (induction rule: brewery_reach.induct)
  case boot
  show ?case by (rule brewery_inv_init)
next
  case (place_order st net orderId customerId commitId now body)
  then show ?case by (intro inv_wire facades_ok)
next
  case (declare_production st net commitId' body')
  then show ?case by (intro inv_wire facades_ok)
next
  case (sales_delivery st w net now newid ssub)
  then show ?case by (intro sales_deliver_inv [OF assms(2)])
next
  case (warehouse_delivery st w net now newid wsub)
  then show ?case by (intro warehouse_deliver_inv [OF assms(2)])
next
  case (resume st net ids)
  then show ?case
    unfolding resume_sagas_def by (intro inv_warehouse mem_ws.resume_ok [OF assms(2)]) (simp_all add: brewery_inv_def)
next
  case (sweep st net cutoff clock ids ids')
  then show ?case
    unfolding sweep_sagas_def by (intro inv_warehouse mem_ws.sweep_ok [OF assms(2)]) (simp_all add: brewery_inv_def)
qed

section \<open>The round trip\<close>

text \<open>
  A run from the first request to the settled order: 100 litres are produced, an order of
  30 litres is placed, and every message is delivered once. A delivery is given by the
  subscription and by the position of the message among those sent.
\<close>

fun deliveries :: "uuid_pkg \<Rightarrow> ((sales_subscription + warehouse_subscription) \<times> nat) list \<Rightarrow> brewery \<Rightarrow> brewery" where
  "deliveries U [] st = st"
| "deliveries U ((sub, k) # ds) st =
     deliveries U ds (if k < length (bw_sent st)
       then snd ((case sub of
           Inl s \<Rightarrow> sales_deliver U open_net (10 + int k) (100 + of_nat k) s
         | Inr s \<Rightarrow> warehouse_deliver U open_net (10 + int k) (100 + of_nat k) s) (bw_sent st ! k) st) else st)"

lemma deliveries_reach: "brewery_reach U st \<Longrightarrow> brewery_reach U (deliveries U ds st)"
  by (induction U ds st rule: deliveries.induct)
    (simp_all add: brewery_reach.sales_delivery brewery_reach.warehouse_delivery split: sum.splits)

definition demo_brewery :: brewery where
  "demo_brewery = deliveries hex_uuid
     [(Inr WarehouseCommands, 0), (Inl SalesCommands, 1), (Inl SalesProjection, 3), (Inl SalesIntegration, 3), (Inr SagaTrigger, 4),
      (Inr WarehouseCommands, 6), (Inr SagaSteps, 7), (Inl SalesOutcomes, 10), (Inl SalesCommands, 11), (Inl SalesProjection, 12)]
     (snd (on_wire (facade_CreateSalesOrder hex_uuid open_net 1 2 3 4
        \<lparr>oj_Id = [], oj_SalesOrderNumber = ''S-1'', oj_OrderDate = 4, oj_CustomerId = [], oj_CustomerName = ''Pub'',
         oj_Rows = [\<lparr>rj_BeerId = UString hex_uuid 5, rj_BeerName = ''IPA'', rj_Quantity = NewQuantity 30 ''Lt'',
           rj_Price = NewPrice 5 ''EUR''\<rparr>]\<rparr>)
       (snd (on_wire (facade_UpdateAvailabilityDueToProductionOrder hex_uuid open_net 8
          \<lparr>po_BeerId = UString hex_uuid 5, po_BeerName = ''IPA'', po_Quantity = NewQuantity 100 ''Lt''\<rparr>) new_brewery))))"

text \<open>
  C1. The whole round trip, under any delays, duplications, reorderings and losses of
  messages and any failures of the network. An order that the read model shows as allocated
  was created, and it holds stock of every beer it asked for; an order shown as rejected has
  a rejected saga with exactly the reason shown, so it was never completed.
\<close>

theorem allocated_order_holds_stock:
  assumes "uuid_ok U" and "brewery_reach U st" and "GetSalesOrder (UString U i) (bw_orders st) = Inr d"
  shows "(d_AllocationStatus d = ''allocated'' \<longrightarrow>
      (\<exists>base n date ci cn rows.
         SalesOrderCreated base i n date ci cn rows \<in> set (mem_history (bw_sales st) (order_stream U i)) \<and>
         (\<forall>row \<in> set rows. UString U i \<in>
            av_held (stock (mem_history (bw_warehouse st) (availability_stream U (so_BeerId row))))))) \<and>
    (d_AllocationStatus d = ''rejected'' \<longrightarrow>
      sg_status (saga_at U (mem_history (bw_warehouse st)) i) = SagaRejected \<and>
      sg_reason (saga_at U (mem_history (bw_warehouse st)) i) = d_RejectionReason d)"
proof -
  let ?h = "mem_history (bw_warehouse st)" and ?g = "mem_history (bw_sales st)"
  have ok: "histories_ok U ?h ?g" and v: "view_ok U ?g (bw_orders st)"
    using brewery_reach_inv [OF assms(2,1)] by (simp_all add: brewery_inv_def)
  have d: "sv_orders (bw_orders st) (UString U i) = Some d"
    using assms(3) by (simp add: GetSalesOrder_def split: option.splits)
  have "completed U ?h i" if "SalesOrderAllocated base i \<in> set (?g (order_stream U i))" for base
    using histories_okD(6) [OF ok that] by simp
  moreover have "rejected U ?h i r" if "SalesOrderAllocationRejected base i r \<in> set (?g (order_stream U i))" for base r
    using histories_okD(6) [OF ok that] by simp
  moreover have "\<exists>rows. ordered U ?g i rows" if "completed U ?h i"
    using histories_okD(5) [OF ok] that unfolding saga_is_def saga_ok_def by blast
  ultimately show ?thesis
    using v d completed_holds [OF assms(1) ok] unfolding view_ok_def ordered_def rejected_def saga_is_def by (metis singletonD)
qed

theorem allocated_order_holds_stock_witness:
  "\<exists>d. GetSalesOrder (UString hex_uuid 1) (bw_orders demo_brewery) = Inr d \<and> d_AllocationStatus d = ''allocated'' \<and>
     (\<exists>base n date ci cn rows.
       SalesOrderCreated base 1 n date ci cn rows \<in> set (mem_history (bw_sales demo_brewery) (order_stream hex_uuid 1)) \<and>
       (\<forall>row \<in> set rows. UString hex_uuid 1 \<in>
          av_held (stock (mem_history (bw_warehouse demo_brewery) (availability_stream hex_uuid (so_BeerId row))))))"
proof -
  have "case GetSalesOrder (UString hex_uuid 1) (bw_orders demo_brewery) of Inr d \<Rightarrow> d_AllocationStatus d = ''allocated'' | _ \<Rightarrow> False"
    by code_simp
  then obtain d where d: "GetSalesOrder (UString hex_uuid 1) (bw_orders demo_brewery) = Inr d" "d_AllocationStatus d = ''allocated''"
    by (auto split: sum.splits)
  have "brewery_reach hex_uuid demo_brewery"
    unfolding demo_brewery_def by (intro deliveries_reach brewery_reach.intros)
  from allocated_order_holds_stock [OF hex_uuid_ok this d(1)] d show ?thesis by blast
qed

end
