(* ===== verification/Registry.thy ===== *)
theory Registry
  imports Json_Wire
begin

text \<open>
  \<^verbatim>\<open>src/internal/muflone/registry.go\<close>: the registry that turns stored payloads back into
  events, with its chain of upcasters, and the registry of the Warehouses module
  (\<^verbatim>\<open>NewEventRegistry\<close> of \<^verbatim>\<open>src/internal/warehouses/module.go\<close>) over the JSON encoding of its
  ten event structs. The upcaster loop may not end: \<open>Deserialize\<close> is a partial function and
  not returning is the value \<open>None\<close>.
\<close>

section \<open>The registry\<close>

type_synonym 'p Upcaster = "'p \<Rightarrow> (string \<times> 'p) result"

record ('p, 'e) EventRegistry =
  factories :: "string \<rightharpoonup> ('p \<Rightarrow> 'e result)"
  upcasters :: "string \<rightharpoonup> 'p Upcaster"

definition NewEventRegistry :: "('p, 'e) EventRegistry" where
  "NewEventRegistry = \<lparr>factories = Map.empty, upcasters = Map.empty\<rparr>"

text \<open>
  \<^verbatim>\<open>RegisterEvent[E]\<close>: the type argument supplies the name of its messages and the decoder
  that \<^verbatim>\<open>json.Unmarshal\<close> derives from the struct.
\<close>

definition RegisterEvent :: "string \<Rightarrow> ('p \<Rightarrow> 'e result) \<Rightarrow> ('p, 'e) EventRegistry \<Rightarrow> ('p, 'e) EventRegistry" where
  "RegisterEvent messageName unmarshal registry =
     registry\<lparr>factories := (factories registry)(messageName \<mapsto> unmarshal)\<rparr>"

definition RegisterUpcaster :: "string \<Rightarrow> 'p Upcaster \<Rightarrow> ('p, 'e) EventRegistry \<Rightarrow> ('p, 'e) EventRegistry" where
  "RegisterUpcaster eventName upcaster r = r\<lparr>upcasters := (upcasters r)(eventName \<mapsto> upcaster)\<rparr>"

definition unknown_event_type :: "string \<Rightarrow> go_error" where
  "unknown_event_type eventName = ErrOther (''unknown event type '' @ eventName)"

partial_function (option) Deserialize :: "('p, 'e) EventRegistry \<Rightarrow> string \<Rightarrow> 'p \<Rightarrow> 'e result option" where
  "Deserialize r eventName payload =
     (case upcasters r eventName of
        Some upcaster \<Rightarrow>
          (case upcaster payload of
             Inl err \<Rightarrow> Some (Inl err)
           | Inr upcast \<Rightarrow> Deserialize r (fst upcast) (snd upcast))
      | None \<Rightarrow>
          (case factories r eventName of
             None \<Rightarrow> Some (Inl (unknown_event_type eventName))
           | Some factory \<Rightarrow> Some (factory payload)))"

declare Deserialize.simps [code]

section \<open>Which chains of upcasters end\<close>

definition evolves :: "('p, 'e) EventRegistry \<Rightarrow> (string \<Rightarrow> nat) \<Rightarrow> bool" where
  "evolves r rank \<longleftrightarrow>
     (\<forall>name up p name' p'. upcasters r name = Some up \<longrightarrow> up p = Inr (name', p') \<longrightarrow> rank name' < rank name)"

lemma deserialize_direct:
  "upcasters r name = None \<Longrightarrow> factories r name = Some factory \<Longrightarrow> Deserialize r name p = Some (factory p)"
  by (simp add: Deserialize.simps)

lemma deserialize_returns:
  assumes "evolves r rank"
  shows "\<exists>x. Deserialize r name p = Some x"
proof (induction "rank name" arbitrary: name p rule: less_induct)
  case less
  show ?case
  proof (cases "upcasters r name")
    case None
    then show ?thesis by (subst Deserialize.simps) (simp split: option.splits)
  next
    case (Some up)
    show ?thesis
    proof (cases "up p")
      case (Inl err)
      with Some show ?thesis by (subst Deserialize.simps) simp
    next
      case (Inr upcast)
      obtain name' p' where n: "upcast = (name', p')" by fastforce
      with Inr Some assms have "rank name' < rank name" unfolding evolves_def by blast
      from less [OF this] Inr Some n show ?thesis by (subst Deserialize.simps) simp
    qed
  qed
qed

text \<open>
  A function that unfolds to itself along an endless chain never returns: this is the least
  fixed point at work.
\<close>

lemma deserialize_trapped:
  assumes "\<And>name p. (name, p) \<in> S \<Longrightarrow>
      \<exists>up name' p'. upcasters r name = Some up \<and> up p = Inr (name', p') \<and> (name', p') \<in> S"
    and "(name, p) \<in> S"
  shows "Deserialize r name p = None"
proof -
  have "r' = r \<longrightarrow> (n, q) \<notin> S" if "Deserialize r' n q = Some x" for r' n q x
  proof (rule Deserialize.raw_induct [where P = "\<lambda>r' n q x. r' = r \<longrightarrow> (n, q) \<notin> S", OF _ that], intro impI notI)
    fix D r' n q x
    assume IH: "\<And>r' n q y. D r' n q = Some y \<Longrightarrow> r' = r \<longrightarrow> (n, q) \<notin> S"
      and body: "(case upcasters r' n of
          Some upcaster \<Rightarrow> (case upcaster q of Inl err \<Rightarrow> Some (Inl err) | Inr upcast \<Rightarrow> D r' (fst upcast) (snd upcast))
        | None \<Rightarrow> (case factories r' n of None \<Rightarrow> Some (Inl (unknown_event_type n)) | Some factory \<Rightarrow> Some (factory q))) = Some x"
      and "r' = r" and "(n, q) \<in> S"
    with assms(1) obtain up n' q' where "upcasters r' n = Some up" "up q = Inr (n', q')" "(n', q') \<in> S" by blast
    with body IH \<open>r' = r\<close> show False by auto
  qed
  with assms(2) show ?thesis by (cases "Deserialize r name p") auto
qed


text \<open>
  An upcaster that rewrites payloads under the same name never lets a stored event of that
  name be read: deserializing it does not return, whatever the payload. Evolving an event in
  place is not a possible use of the registry; only chains whose names are all different end
  (lemma \<open>deserialize_returns\<close>).
\<close>

theorem in_place_upcaster_hangs:
  assumes "\<forall>p. \<exists>p'. up p = Inr (name, p')"
  shows "Deserialize (RegisterUpcaster name up r) name p = None"
  by (rule deserialize_trapped [of "{name} \<times> UNIV"]) (use assms in \<open>auto simp: RegisterUpcaster_def\<close>)

theorem in_place_upcaster_hangs_witness:
  "Deserialize (RegisterUpcaster ''sales.sales_order_created'' (\<lambda>p. Inr (''sales.sales_order_created'', Suc p))
     (NewEventRegistry :: (nat, unit) EventRegistry)) ''sales.sales_order_created'' 0 = None"
  by (rule in_place_upcaster_hangs) simp

section \<open>The events of the Warehouses module as JSON\<close>

text \<open>A nested struct: a missing key leaves its zero value.\<close>

definition get_struct :: "((string \<times> json) list \<Rightarrow> 'a result) \<Rightarrow> string \<Rightarrow> (string \<times> json) list \<Rightarrow> 'a result" where
  "get_struct f k kvs = (case json_field k kvs of None \<Rightarrow> f [] | Some (JObj kvs') \<Rightarrow> f kvs' | Some _ \<Rightarrow> decode_error)"

text \<open>Sequencing of decoders.\<close>

definition and_then :: "'a result \<Rightarrow> ('a \<Rightarrow> 'b result) \<Rightarrow> 'b result" where
  "and_then r f = (case r of Inl err \<Rightarrow> Inl err | Inr x \<Rightarrow> f x)"

lemma and_then_simps [simp]: "and_then (Inr x) f = f x" "and_then (Inl err) f = Inl err"
  by (simp_all add: and_then_def)

definition marshal_Quantity :: "Quantity \<Rightarrow> json" where
  "marshal_Quantity q = JObj [(''value'', JNum (sint (qValue q))), (''unit_of_measure'', JStr (UnitOfMeasure q))]"

definition unmarshal_Quantity :: "(string \<times> json) list \<Rightarrow> Quantity result" where
  "unmarshal_Quantity kvs =
     and_then (get_int ''value'' kvs) (\<lambda>v. and_then (get_str ''unit_of_measure'' kvs) (\<lambda>u. Inr (NewQuantity v u)))"

definition base_fields :: "uuid_pkg \<Rightarrow> DomainEventBase \<Rightarrow> (string \<times> json) list" where
  "base_fields U b = [(''aggregate_id'', JStr (UString U (ev_AggregateId b))), (''commit_id'', JStr (UString U (ev_CommitId b)))]"

definition unmarshal_base :: "uuid_pkg \<Rightarrow> (string \<times> json) list \<Rightarrow> DomainEventBase result" where
  "unmarshal_base U kvs =
     and_then (get_uuid U ''aggregate_id'' kvs) (\<lambda>a. and_then (get_uuid U ''commit_id'' kvs) (\<lambda>c. Inr (NewDomainEventBase a c)))"

abbreviation wrapped :: "json \<Rightarrow> json" where
  "wrapped j \<equiv> JObj [(''value'', j)]"

definition marshal_saga_row :: "SagaRowData \<Rightarrow> json" where
  "marshal_saga_row r =
     JObj [(''beer_id'', JStr (row_BeerId r)), (''beer_name'', JStr (row_BeerName r)),
           (''quantity'', JNum (sint (row_Quantity r))), (''unit_of_measure'', JStr (row_UnitOfMeasure r))]"

fun warehouse_event_fields :: "uuid_pkg \<Rightarrow> warehouse_event \<Rightarrow> (string \<times> json) list" where
  "warehouse_event_fields U (AvailabilityUpdatedDueToProductionOrder b beer n q) =
     [(''beer_id'', wrapped (JStr (UString U beer))), (''beer_name'', wrapped (JStr n)), (''quantity'', marshal_Quantity q)]"
| "warehouse_event_fields U (BeerAvailabilityUpdated b beer n q order) =
     [(''beer_id'', wrapped (JStr (UString U beer))), (''beer_name'', wrapped (JStr n)), (''quantity'', marshal_Quantity q),
      (''sales_order_id'', JStr order)]"
| "warehouse_event_fields U (QuantityNotFound b beer order req avail) =
     [(''beer_id'', wrapped (JStr (UString U beer))), (''sales_order_id'', JStr order),
      (''requested'', marshal_Quantity req), (''available'', marshal_Quantity avail)]"
| "warehouse_event_fields U (AvailabilityCompensated b beer n q order) =
     [(''beer_id'', wrapped (JStr (UString U beer))), (''beer_name'', wrapped (JStr n)), (''quantity'', marshal_Quantity q),
      (''sales_order_id'', JStr order)]"
| "warehouse_event_fields U (OrderAllocationStarted b order rows) =
     [(''sales_order_id'', JStr order), (''rows'', JArr (map marshal_saga_row rows))]"
| "warehouse_event_fields U (AllocationStepSucceeded b order beer) = [(''sales_order_id'', JStr order), (''beer_id'', JStr beer)]"
| "warehouse_event_fields U (AllocationStepFailed b order beer reason) =
     [(''sales_order_id'', JStr order), (''beer_id'', JStr beer), (''reason'', JStr reason)]"
| "warehouse_event_fields U (AllocationStepCompensated b order beer) = [(''sales_order_id'', JStr order), (''beer_id'', JStr beer)]"
| "warehouse_event_fields U (OrderAllocationCompleted b order) = [(''sales_order_id'', JStr order)]"
| "warehouse_event_fields U (OrderAllocationRejected b order reason) = [(''sales_order_id'', JStr order), (''reason'', JStr reason)]"

definition marshal_warehouse_event :: "uuid_pkg \<Rightarrow> warehouse_event \<Rightarrow> payload" where
  "marshal_warehouse_event U e = Json (JObj (base_fields U (we_base e) @ warehouse_event_fields U e))"

section \<open>The registry of the Warehouses module\<close>

text \<open>
  Decoding a struct: its embedded base first, then the field decoders, all from one object.
\<close>

definition unmarshal_event ::
  "uuid_pkg \<Rightarrow> (DomainEventBase \<Rightarrow> (string \<times> json) list \<Rightarrow> 'e result) \<Rightarrow> payload \<Rightarrow> 'e result" where
  "unmarshal_event U f p = and_then (object_of p) (\<lambda>kvs. and_then (unmarshal_base U kvs) (\<lambda>b. f b kvs))"

abbreviation (input) beer_id_field where "beer_id_field U \<equiv> get_struct (get_uuid U ''value'') ''beer_id''"
abbreviation (input) beer_name_field where "beer_name_field \<equiv> get_struct (get_str ''value'') ''beer_name''"
abbreviation (input) quantity_field where "quantity_field \<equiv> get_struct unmarshal_Quantity"

definition warehouses_NewEventRegistry :: "uuid_pkg \<Rightarrow> (payload, warehouse_event) EventRegistry" where
  "warehouses_NewEventRegistry U =
     RegisterEvent ''warehouses.order_allocation_rejected'' (unmarshal_event U (\<lambda>b kvs.
       and_then (get_str ''sales_order_id'' kvs) (\<lambda>s. and_then (get_str ''reason'' kvs) (\<lambda>r.
         Inr (OrderAllocationRejected b s r)))))
    (RegisterEvent ''warehouses.order_allocation_completed'' (unmarshal_event U (\<lambda>b kvs.
       and_then (get_str ''sales_order_id'' kvs) (\<lambda>s. Inr (OrderAllocationCompleted b s))))
    (RegisterEvent ''warehouses.allocation_step_compensated'' (unmarshal_event U (\<lambda>b kvs.
       and_then (get_str ''sales_order_id'' kvs) (\<lambda>s. and_then (get_str ''beer_id'' kvs) (\<lambda>i.
         Inr (AllocationStepCompensated b s i)))))
    (RegisterEvent ''warehouses.allocation_step_failed'' (unmarshal_event U (\<lambda>b kvs.
       and_then (get_str ''sales_order_id'' kvs) (\<lambda>s. and_then (get_str ''beer_id'' kvs) (\<lambda>i.
       and_then (get_str ''reason'' kvs) (\<lambda>r. Inr (AllocationStepFailed b s i r))))))
    (RegisterEvent ''warehouses.allocation_step_succeeded'' (unmarshal_event U (\<lambda>b kvs.
       and_then (get_str ''sales_order_id'' kvs) (\<lambda>s. and_then (get_str ''beer_id'' kvs) (\<lambda>i.
         Inr (AllocationStepSucceeded b s i)))))
    (RegisterEvent ''warehouses.order_allocation_started'' (unmarshal_event U (\<lambda>b kvs.
       and_then (get_str ''sales_order_id'' kvs) (\<lambda>s. and_then (get_list unmarshal_row ''rows'' kvs) (\<lambda>rs.
         Inr (OrderAllocationStarted b s rs)))))
    (RegisterEvent ''warehouses.availability_compensated'' (unmarshal_event U (\<lambda>b kvs.
       and_then (beer_id_field U kvs) (\<lambda>i. and_then (beer_name_field kvs) (\<lambda>n.
       and_then (quantity_field ''quantity'' kvs) (\<lambda>q. and_then (get_str ''sales_order_id'' kvs) (\<lambda>s.
         Inr (AvailabilityCompensated b i n q s)))))))
    (RegisterEvent ''warehouses.quantity_not_found'' (unmarshal_event U (\<lambda>b kvs.
       and_then (beer_id_field U kvs) (\<lambda>i. and_then (get_str ''sales_order_id'' kvs) (\<lambda>s.
       and_then (quantity_field ''requested'' kvs) (\<lambda>q. and_then (quantity_field ''available'' kvs) (\<lambda>a.
         Inr (QuantityNotFound b i s q a)))))))
    (RegisterEvent ''warehouses.beer_availability_updated'' (unmarshal_event U (\<lambda>b kvs.
       and_then (beer_id_field U kvs) (\<lambda>i. and_then (beer_name_field kvs) (\<lambda>n.
       and_then (quantity_field ''quantity'' kvs) (\<lambda>q. and_then (get_str ''sales_order_id'' kvs) (\<lambda>s.
         Inr (BeerAvailabilityUpdated b i n q s)))))))
    (RegisterEvent ''warehouses.availability_updated_due_to_production_order'' (unmarshal_event U (\<lambda>b kvs.
       and_then (beer_id_field U kvs) (\<lambda>i. and_then (beer_name_field kvs) (\<lambda>n.
       and_then (quantity_field ''quantity'' kvs) (\<lambda>q. Inr (AvailabilityUpdatedDueToProductionOrder b i n q))))))
    NewEventRegistry)))))))))"

lemma find_append: "find P (xs @ ys) = (case find P xs of Some x \<Rightarrow> Some x | None \<Rightarrow> find P ys)"
  by (induction xs) simp_all

lemma json_field_simps [simp]:
  "json_field k [] = None"
  "json_field k ((k', v) # kvs) =
     (case json_field k kvs of Some x \<Rightarrow> Some x | None \<Rightarrow> if fold_name k' = k \<and> v \<noteq> JNull then Some v else None)"
  by (auto simp: json_field_def find_append split: option.splits)

text \<open>The tags are their own folded form.\<close>

lemma fold_tags [simp]:
  "fold_name ''value'' = ''value''" "fold_name ''unit_of_measure'' = ''unit_of_measure''"
  "fold_name ''aggregate_id'' = ''aggregate_id''" "fold_name ''commit_id'' = ''commit_id''"
  "fold_name ''beer_id'' = ''beer_id''" "fold_name ''beer_name'' = ''beer_name''" "fold_name ''quantity'' = ''quantity''"
  "fold_name ''sales_order_id'' = ''sales_order_id''" "fold_name ''requested'' = ''requested''"
  "fold_name ''available'' = ''available''" "fold_name ''rows'' = ''rows''" "fold_name ''reason'' = ''reason''"
  by code_simp+

declare fold_name.simps [simp del]

lemma unmarshal_Quantity_fields [simp]:
  "unmarshal_Quantity [(''value'', JNum (sint (qValue q))), (''unit_of_measure'', JStr (UnitOfMeasure q))] = Inr q"
  using of_int_sint_range [of "qValue q"]
  by (simp add: unmarshal_Quantity_def get_int_def get_str_def NewQuantity_def)

lemma unmarshal_base_fields [simp]:
  "uuid_ok U \<Longrightarrow> json_field ''aggregate_id'' kvs = Some (JStr (UString U (ev_AggregateId b))) \<Longrightarrow>
   json_field ''commit_id'' kvs = Some (JStr (UString U (ev_CommitId b))) \<Longrightarrow> unmarshal_base U kvs = Inr b"
  by (simp add: unmarshal_base_def get_uuid_def NewDomainEventBase_def)

lemma unmarshal_saga_row: "unmarshal_row (marshal_saga_row r) = Inr r"
  using of_int_sint_range [of "row_Quantity r"]
  by (simp add: unmarshal_row_def marshal_saga_row_def get_str_def get_int_def)

lemma unmarshal_saga_rows [simp]: "map_result unmarshal_row (map marshal_saga_row rows) = Inr rows"
  using map_result_map [of rows unmarshal_row marshal_saga_row "\<lambda>r. r"] by (simp add: unmarshal_saga_row)

lemmas decode_defs = unmarshal_event_def marshal_warehouse_event_def base_fields_def get_str_def get_list_def
  get_struct_def get_uuid_def marshal_Quantity_def

lemma registry_simps [simp]:
  "factories (RegisterEvent n f r) n' = (if n' = n then Some f else factories r n')"
  "upcasters (RegisterEvent n f r) = upcasters r"
  "upcasters NewEventRegistry = Map.empty"
  by (simp_all add: RegisterEvent_def NewEventRegistry_def)

lemma no_upcasters [simp]: "upcasters (warehouses_NewEventRegistry U) n = None"
  by (simp add: warehouses_NewEventRegistry_def)

lemma unmarshal_marshal:
  assumes "uuid_ok U"
  shows "map_option (\<lambda>f. f (marshal_warehouse_event U e)) (factories (warehouses_NewEventRegistry U) (warehouse_event_name e)) =
    Some (Inr e)"
  using assms by (cases e) (simp_all add: warehouses_NewEventRegistry_def decode_defs)

lemma deserialize_marshal:
  "uuid_ok U \<Longrightarrow> Deserialize (warehouses_NewEventRegistry U) (warehouse_event_name e) (marshal_warehouse_event U e) = Some (Inr e)"
  using unmarshal_marshal [of U e] by (auto simp: deserialize_direct)

text \<open>
  C31. Whatever the Warehouses module stores it can read back: for each of its ten event types
  the module's registry has a factory under the name the event is stored with, the registry
  returns, and decoding the stored JSON gives back exactly the event that was raised.
\<close>

theorem warehouse_events_roundtrip:
  assumes "uuid_ok U"
  shows "Deserialize (warehouses_NewEventRegistry U) (warehouse_event_name e) (marshal_warehouse_event U e) = Some (Inr e)"
  by (rule deserialize_marshal [OF assms])

theorem warehouse_events_roundtrip_witness:
  "Deserialize (warehouses_NewEventRegistry hex_uuid) ''warehouses.order_allocation_completed''
     (marshal_warehouse_event hex_uuid (NewOrderAllocationCompleted hex_uuid 1 2)) =
   Some (Inr (NewOrderAllocationCompleted hex_uuid 1 2))"
  using warehouse_events_roundtrip [OF hex_uuid_ok, of "NewOrderAllocationCompleted hex_uuid 1 2"] by (simp add: msg_defs)

end
