(* ===== verification/Postgres_Store.thy ===== *)
theory Postgres_Store
  imports Registry Service_Bus "HOL-Library.Multiset"
begin

text \<open>
  \<^verbatim>\<open>src/internal/muflone/postgres_eventstore.go\<close> on the tables \<^verbatim>\<open>events\<close> and \<^verbatim>\<open>outbox\<close> of
  \<^verbatim>\<open>src/migrations\<close>. The SQL statements are the source's: each is a function on the tables. What
  the database may do on its own is a parameter, the environment of a call: which statement
  fails and with which message (lost connection, a violated constraint other than the
  primary key, a failed commit), and what concurrent transactions commit between the read of
  the stream head and the inserts. A transaction that is not committed leaves no rows. A
  commit that reports an error is taken not to have happened: a commit that took effect
  while its reply was lost is not covered.
\<close>

section \<open>Tables and environment\<close>

record 'p event_row =
  er_stream_id :: string
  er_version :: int
  er_commit_id :: uuid
  er_event_type :: string
  er_payload :: 'p
  er_occurred_at :: instant

record 'p outbox_row =
  ob_id :: nat
  ob_topic :: string
  ob_payload :: 'p

record 'p pg_db =
  pg_events :: "'p event_row list"
  pg_outbox :: "'p outbox_row list"
  pg_outbox_seq :: nat
  pg_calls :: nat

datatype pg_stmt = BeginTx | SelectHead | InsertEvent nat | InsertOutbox nat | CommitTx
  | SelectStream | ScanRow nat | RowsErr | SelectStreams

record 'p pg_env =
  fault :: "pg_stmt \<Rightarrow> string option"
  others :: "'p pg_db \<Rightarrow> 'p pg_db"

text \<open>
  How a message type is written and read: its name, \<^verbatim>\<open>json.Marshal\<close> of its struct and the
  registry the store was built with.
\<close>

record ('p, 'e) event_codec =
  ec_name :: "'e \<Rightarrow> string"
  ec_marshal :: "'e \<Rightarrow> 'p result"
  ec_registry :: "('p, 'e) EventRegistry"

text \<open>
  The result type of a read has no room for a call that does not return; it is represented
  by a panic, which no caller can inspect either. Registries whose upcasters evolve never
  get there.
\<close>

definition pg_decode :: "('p, 'e) event_codec \<Rightarrow> 'p event_row \<Rightarrow> 'e result" where
  "pg_decode C row =
     (case Deserialize (ec_registry C) (er_event_type row) (er_payload row) of
        None \<Rightarrow> Inl (GoPanic ''upcasting does not end'') | Some r \<Rightarrow> r)"

section \<open>The store\<close>

definition rows_of :: "string \<Rightarrow> 'p pg_db \<Rightarrow> 'p event_row list" where
  "rows_of streamID db = sort_key er_version (filter (\<lambda>row. er_stream_id row = streamID) (pg_events db))"

fun pg_scan_loop ::
  "('p, 'e) event_codec \<Rightarrow> (pg_stmt \<Rightarrow> string option) \<Rightarrow> string \<Rightarrow> nat \<Rightarrow> 'p event_row list \<Rightarrow> 'e StoredEvent list
     \<Rightarrow> 'e StoredEvent list result" where
  "pg_scan_loop C flt streamID i [] stored =
     (case flt RowsErr of Some msg \<Rightarrow> Inl (ErrOther msg) | None \<Rightarrow> Inr stored)"
| "pg_scan_loop C flt streamID i (row # rows) stored =
     (case flt (ScanRow i) of
        Some msg \<Rightarrow> Inl (ErrOther msg)
      | None \<Rightarrow>
          (case pg_decode C row of
             Inl err \<Rightarrow> Inl err
           | Inr event \<Rightarrow>
               pg_scan_loop C flt streamID (Suc i) rows
                 (stored @ [\<lparr>StreamID = streamID, Version = er_version row, CommitID = er_commit_id row,
                             OccurredAt = er_occurred_at row, Event = event\<rparr>])))"

definition Postgres_ReadStream ::
  "('p, 'e) event_codec \<Rightarrow> (nat \<Rightarrow> 'p pg_env) \<Rightarrow> string \<Rightarrow> 'p pg_db \<Rightarrow> 'e StoredEvent list result" where
  "Postgres_ReadStream C envs streamID db =
     (let flt = fault (envs (pg_calls db)) in
      case flt SelectStream of
        Some msg \<Rightarrow> Inl (ErrOther msg)
      | None \<Rightarrow> pg_scan_loop C flt streamID 0 (rows_of streamID db) [])"

text \<open>Stream names compare bytewise, the collation under which \<^verbatim>\<open>ORDER BY\<close> sorts as the in-memory store does.\<close>

definition Postgres_ListStreams :: "(nat \<Rightarrow> 'p pg_env) \<Rightarrow> string \<Rightarrow> 'p pg_db \<Rightarrow> string list result" where
  "Postgres_ListStreams envs streamPrefix db =
     (let flt = fault (envs (pg_calls db)) in
      case flt SelectStreams of
        Some msg \<Rightarrow> Inl (ErrOther msg)
      | None \<Rightarrow>
          (case flt RowsErr of
             Some msg \<Rightarrow> Inl (ErrOther msg)
           | None \<Rightarrow> Inr (sort (remdups (filter (prefix (streamPrefix @ ''-'')) (map er_stream_id (pg_events db)))))))"

definition pg_head :: "string \<Rightarrow> 'p pg_db \<Rightarrow> int" where
  "pg_head streamID db = fold max (map er_version (rows_of streamID db)) 0"

text \<open>The loop of \<^verbatim>\<open>Append\<close>, inside the transaction: it works on the transaction's own view.\<close>

fun pg_insert_loop ::
  "('p, 'e) event_codec \<Rightarrow> (pg_stmt \<Rightarrow> string option) \<Rightarrow> instant \<Rightarrow> string \<Rightarrow> int \<Rightarrow> uuid \<Rightarrow> nat \<Rightarrow> 'e list
     \<Rightarrow> 'p pg_db \<Rightarrow> ('p pg_db, unit) outcome" where
  "pg_insert_loop C flt now streamID expectedVersion commitID i [] tx = (Inr (), tx)"
| "pg_insert_loop C flt now streamID expectedVersion commitID i (event # evs) tx =
     (case ec_marshal C event of
        Inl err \<Rightarrow> (Inl err, tx)
      | Inr payload \<Rightarrow>
          (case flt (InsertEvent i) of
             Some msg \<Rightarrow> (Inl (ErrOther msg), tx)
           | None \<Rightarrow>
               let version = expectedVersion + int i + 1 in
               if (streamID, version) \<in> set (map (\<lambda>row. (er_stream_id row, er_version row)) (pg_events tx))
               then (Inl ErrConcurrency, tx)
               else
                 let tx1 = tx\<lparr>pg_events := pg_events tx @ [\<lparr>er_stream_id = streamID, er_version = version,
                       er_commit_id = commitID, er_event_type = ec_name C event, er_payload = payload,
                       er_occurred_at = now\<rparr>]\<rparr> in
                 (case flt (InsertOutbox i) of
                    Some msg \<Rightarrow> (Inl (ErrOther msg), tx1)
                  | None \<Rightarrow>
                      pg_insert_loop C flt now streamID expectedVersion commitID (Suc i) evs
                        (tx1\<lparr>pg_outbox := pg_outbox tx1 @ [\<lparr>ob_id = Suc (pg_outbox_seq tx1),
                               ob_topic = domainEventTopicPrefix @ ec_name C event, ob_payload = payload\<rparr>],
                             pg_outbox_seq := Suc (pg_outbox_seq tx1)\<rparr>))))"

text \<open>A rollback undoes the rows of the transaction; the numbers its sequence drew stay drawn.\<close>

definition rollback :: "'p pg_db \<Rightarrow> 'p pg_db \<Rightarrow> 'p pg_db" where
  "rollback base tx = base\<lparr>pg_outbox_seq := pg_outbox_seq tx\<rparr>"

definition Postgres_Append ::
  "('p, 'e) event_codec \<Rightarrow> (nat \<Rightarrow> 'p pg_env) \<Rightarrow> instant \<Rightarrow> string \<Rightarrow> int \<Rightarrow> uuid \<Rightarrow> 'e list \<Rightarrow> 'p pg_db
     \<Rightarrow> ('p pg_db, unit) outcome" where
  "Postgres_Append C envs now streamID expectedVersion commitID evs db =
     (let env = envs (pg_calls db); flt = fault env; db0 = db\<lparr>pg_calls := Suc (pg_calls db)\<rparr>; base = others env db0 in
      case flt BeginTx of
        Some msg \<Rightarrow> (Inl (ErrOther msg), base)
      | None \<Rightarrow>
          (case flt SelectHead of
             Some msg \<Rightarrow> (Inl (ErrOther msg), base)
           | None \<Rightarrow>
               if pg_head streamID db0 \<noteq> expectedVersion then (Inl ErrConcurrency, base)
               else
                 (case pg_insert_loop C flt now streamID expectedVersion commitID 0 evs base of
                    (Inl err, tx) \<Rightarrow> (Inl err, rollback base tx)
                  | (Inr _, tx) \<Rightarrow>
                      (case flt CommitTx of
                         Some msg \<Rightarrow> (Inl (ErrOther msg), rollback base tx)
                       | None \<Rightarrow> (Inr (), tx)))))"

definition postgres_store :: "('p, 'e) event_codec \<Rightarrow> (nat \<Rightarrow> 'p pg_env) \<Rightarrow> ('p pg_db, 'e) EventStore" where
  "postgres_store C envs =
     \<lparr>es_ReadStream = Postgres_ReadStream C envs, es_Append = Postgres_Append C envs,
      es_ListStreams = Some (Postgres_ListStreams envs)\<rparr>"


section \<open>The transaction is atomic\<close>

text \<open>The rows a batch adds to the two tables.\<close>

fun inserted_rows ::
  "('p, 'e) event_codec \<Rightarrow> instant \<Rightarrow> string \<Rightarrow> int \<Rightarrow> uuid \<Rightarrow> nat \<Rightarrow> 'e list \<Rightarrow> 'p event_row list" where
  "inserted_rows C now sid ev cid i [] = []"
| "inserted_rows C now sid ev cid i (e # evs) =
     \<lparr>er_stream_id = sid, er_version = ev + int i + 1, er_commit_id = cid, er_event_type = ec_name C e,
      er_payload = projr (ec_marshal C e), er_occurred_at = now\<rparr> # inserted_rows C now sid ev cid (Suc i) evs"

fun enqueued :: "('p, 'e) event_codec \<Rightarrow> nat \<Rightarrow> 'e list \<Rightarrow> 'p outbox_row list" where
  "enqueued C n [] = []"
| "enqueued C n (e # evs) =
     \<lparr>ob_id = Suc n, ob_topic = domainEventTopicPrefix @ ec_name C e, ob_payload = projr (ec_marshal C e)\<rparr>
       # enqueued C (Suc n) evs"

abbreviation row_key :: "'p event_row \<Rightarrow> string \<times> int" where
  "row_key row \<equiv> (er_stream_id row, er_version row)"

lemma insert_loop_ok:
  "pg_insert_loop C flt now sid ev cid i evs tx = (Inr (), tx') \<Longrightarrow>
     (\<forall>e \<in> set evs. \<not> failed (ec_marshal C e)) \<and>
     tx' = tx\<lparr>pg_events := pg_events tx @ inserted_rows C now sid ev cid i evs,
              pg_outbox := pg_outbox tx @ enqueued C (pg_outbox_seq tx) evs,
              pg_outbox_seq := pg_outbox_seq tx + length evs\<rparr>"
proof (induction evs arbitrary: i tx)
  case (Cons e evs)
  from Cons.prems obtain p where "ec_marshal C e = Inr p" by (cases "ec_marshal C e") auto
  with Cons.prems Cons.IH show ?case by (fastforce simp: Let_def split: option.splits if_splits)
qed simp

lemma insert_loop_calls: "pg_calls (snd (pg_insert_loop C flt now sid ev cid i evs tx)) = pg_calls tx"
  by (induction evs arbitrary: i tx) (auto simp: Let_def split: option.splits sum.splits if_splits)

lemma rollback_fields [simp]:
  "pg_events (rollback b tx) = pg_events b" "pg_outbox (rollback b tx) = pg_outbox b" "pg_calls (rollback b tx) = pg_calls b"
  by (simp_all add: rollback_def)

definition append_base :: "(nat \<Rightarrow> 'p pg_env) \<Rightarrow> 'p pg_db \<Rightarrow> 'p pg_db" where
  "append_base envs db = others (envs (pg_calls db)) (db\<lparr>pg_calls := Suc (pg_calls db)\<rparr>)"

lemma append_cases:
  assumes "Postgres_Append C envs now sid ev cid evs db = (r, db')"
  shows "(\<exists>err tx. r = Inl err \<and> db' = rollback (append_base envs db) tx) \<or>
    (r = Inr () \<and> pg_head sid db = ev \<and>
     pg_insert_loop C (fault (envs (pg_calls db))) now sid ev cid 0 evs (append_base envs db) = (Inr (), db'))"
proof -
  have h: "pg_head sid (db\<lparr>pg_calls := n\<rparr>) = pg_head sid db" for n by (simp add: pg_head_def rows_of_def)
  have id: "\<exists>tx. append_base envs db = rollback (append_base envs db) tx"
    by (rule exI [of _ "append_base envs db"]) (simp add: rollback_def)
  let ?loop = "pg_insert_loop C (fault (envs (pg_calls db))) now sid ev cid 0 evs (append_base envs db)"
  obtain r' tx where l: "?loop = (r', tx)" by fastforce
  show ?thesis
    using assms id
    unfolding Postgres_Append_def Let_def append_base_def [symmetric] h l
    by (cases r') (auto split: option.splits if_splits)
qed

text \<open>
  C32. The transactional outbox closes the dual write: whatever statement of an append fails and
  whatever concurrent transactions do meanwhile, either the append succeeds and its events
  are stored under consecutive versions together with one outbox message per event, in
  order, on the event's topic and with the same payload, or it fails and neither table has
  a row of it.
\<close>

theorem append_with_outbox_atomic:
  assumes "Postgres_Append C envs now sid ev cid evs db = (r, db')"
  shows "(r = Inr () \<and> pg_events db' = pg_events (append_base envs db) @ inserted_rows C now sid ev cid 0 evs \<and>
      pg_outbox db' = pg_outbox (append_base envs db) @ enqueued C (pg_outbox_seq (append_base envs db)) evs) \<or>
    (failed r \<and> pg_events db' = pg_events (append_base envs db) \<and> pg_outbox db' = pg_outbox (append_base envs db))"
  using append_cases [OF assms]
proof (elim disjE exE conjE)
  assume "pg_insert_loop C (fault (envs (pg_calls db))) now sid ev cid 0 evs (append_base envs db) = (Inr (), db')" "r = Inr ()"
  with insert_loop_ok show ?thesis by fastforce
qed simp


text \<open>The codec of the Warehouses module, and an empty database that never fails.\<close>

definition warehouse_codec :: "uuid_pkg \<Rightarrow> (payload, warehouse_event) event_codec" where
  "warehouse_codec U = \<lparr>ec_name = warehouse_event_name, ec_marshal = (\<lambda>e. Inr (marshal_warehouse_event U e)),
     ec_registry = warehouses_NewEventRegistry U\<rparr>"

definition empty_db :: "'p pg_db" where
  "empty_db = \<lparr>pg_events = [], pg_outbox = [], pg_outbox_seq = 0, pg_calls = 0\<rparr>"

definition no_faults :: "nat \<Rightarrow> 'p pg_env" where
  "no_faults n = \<lparr>fault = (\<lambda>_. None), others = (\<lambda>db. db)\<rparr>"

theorem append_with_outbox_atomic_witness:
  "pg_outbox (snd (Postgres_Append (warehouse_codec hex_uuid) no_faults 7 ''OrderAllocation-1'' 0 2
     [NewOrderAllocationCompleted hex_uuid 1 2] empty_db)) =
   [\<lparr>ob_id = 1, ob_topic = ''events.warehouses.order_allocation_completed'',
     ob_payload = marshal_warehouse_event hex_uuid (NewOrderAllocationCompleted hex_uuid 1 2)\<rparr>]"
proof -
  obtain r db where run: "Postgres_Append (warehouse_codec hex_uuid) no_faults 7 ''OrderAllocation-1'' 0 2
     [NewOrderAllocationCompleted hex_uuid 1 2] empty_db = (r, db)" by fastforce
  then have "r = Inr ()"
    by (simp add: Postgres_Append_def no_faults_def empty_db_def pg_head_def rows_of_def warehouse_codec_def)
  with append_with_outbox_atomic [OF run] run show ?thesis
    by (simp add: append_base_def no_faults_def empty_db_def warehouse_codec_def msg_defs topic_defs)
qed

section \<open>The store keeps the contract of an event store\<close>

text \<open>
  The versions of each stream are 1, 2, ..., n. Both modules keep their streams in the one
  table, each reading it through its own registry.
\<close>

definition pg_wf :: "'p pg_db \<Rightarrow> bool" where
  "pg_wf db \<longleftrightarrow> (\<forall>sid. map er_version (rows_of sid db) = map int [1..<Suc (length (rows_of sid db))])"

definition pg_history :: "('p, 'e) event_codec \<Rightarrow> 'p pg_db \<Rightarrow> string \<Rightarrow> 'e list" where
  "pg_history C db sid = map (\<lambda>row. projr (pg_decode C row)) (rows_of sid db)"

definition codec_ok :: "('p, 'e) event_codec \<Rightarrow> bool" where
  "codec_ok C \<longleftrightarrow>
     (\<forall>e p. ec_marshal C e = Inr p \<longrightarrow> Deserialize (ec_registry C) (ec_name C e) p = Some (Inr e)) \<and>
     (\<forall>name p. Deserialize (ec_registry C) name p \<noteq> Some (Inl ErrAggregateNotFound))"

text \<open>The environment without concurrent transactions; statements may still fail.\<close>

definition quiet :: "(nat \<Rightarrow> 'p pg_env) \<Rightarrow> nat \<Rightarrow> 'p pg_env" where
  "quiet envs n = (envs n)\<lparr>others := (\<lambda>db. db)\<rparr>"

lemma rows_of_set: "row \<in> set (rows_of sid db) \<longleftrightarrow> row \<in> set (pg_events db) \<and> er_stream_id row = sid"
  by (auto simp: rows_of_def)

lemma rows_of_cong: "pg_events db = pg_events db' \<Longrightarrow> rows_of sid db = rows_of sid db'"
  by (simp add: rows_of_def)

lemma fold_max_upt: "fold max (map int [1..<Suc n]) 0 = int n"
  by (induction n) (auto simp: max_def)

lemma pg_head_length: "pg_wf db \<Longrightarrow> pg_head sid db = int (length (rows_of sid db))"
  by (simp only: pg_head_def pg_wf_def fold_max_upt)

lemma pg_wf_cong: "pg_events db = pg_events db' \<Longrightarrow> pg_wf db = pg_wf db'"
  unfolding pg_wf_def using rows_of_cong [of db db'] by simp

lemma pg_history_cong: "pg_events db = pg_events db' \<Longrightarrow> pg_history C db = pg_history C db'"
  by (rule ext) (simp add: pg_history_def rows_of_cong [of db db'])

lemma sort_key_append_later:
  assumes "sorted (map f ys)" and "\<forall>x \<in> set xs. \<forall>y \<in> set ys. f x < f y"
  shows "sort_key f (xs @ ys) = sort_key f xs @ ys"
proof (rule properties_for_sort_key)
  show "mset (sort_key f xs @ ys) = mset (xs @ ys)" by simp
  show "filter (\<lambda>x. f k = f x) (sort_key f xs @ ys) = filter (\<lambda>x. f k = f x) (xs @ ys)" for k
    using sort_key_stable [of f "f k" xs] by (simp add: eq_commute)
  show "sorted (map f (sort_key f xs @ ys))"
    using assms by (auto simp: sorted_append less_imp_le)
qed

lemma inserted_rows_stream: "row \<in> set (inserted_rows C now sid ev cid i evs) \<Longrightarrow> er_stream_id row = sid"
  by (induction evs arbitrary: i) auto

lemma inserted_rows_versions:
  "map er_version (inserted_rows C now sid ev cid i evs) = map (\<lambda>j. ev + int j + 1) [i..<i + length evs]"
proof (induction evs arbitrary: i)
  case (Cons e evs)
  then show ?case by (simp add: upt_rec [of i] del: upt_Suc)
qed simp

lemma length_inserted_rows [simp]: "length (inserted_rows C now sid ev cid i evs) = length evs"
  by (induction evs arbitrary: i) auto

lemma inserted_rows_decode:
  "codec_ok C \<Longrightarrow> \<forall>e \<in> set evs. \<not> failed (ec_marshal C e) \<Longrightarrow>
     map (pg_decode C) (inserted_rows C now sid ev cid i evs) = map Inr evs"
proof (induction evs arbitrary: i)
  case (Cons e evs)
  then obtain p where "ec_marshal C e = Inr p" by (cases "ec_marshal C e") auto
  with Cons show ?case by (simp add: codec_ok_def pg_decode_def)
qed simp

lemma rows_of_inserted:
  assumes "pg_wf db" and "pg_events db' = pg_events db @ inserted_rows C now sid (pg_head sid db) cid 0 evs"
  shows "rows_of sid' db' = rows_of sid' db @ (if sid' = sid then inserted_rows C now sid (pg_head sid db) cid 0 evs else [])"
proof (cases "sid' = sid")
  case True
  let ?new = "inserted_rows C now sid (pg_head sid db) cid 0 evs"
  let ?old = "filter (\<lambda>row. er_stream_id row = sid) (pg_events db)"
  have "filter (\<lambda>row. er_stream_id row = sid) ?new = ?new"
    using inserted_rows_stream by (fastforce intro: filter_True)
  moreover have "sort_key er_version (?old @ ?new) = sort_key er_version ?old @ ?new"
  proof (rule sort_key_append_later)
    show "sorted (map er_version ?new)"
      by (simp add: inserted_rows_versions sorted_map [of "\<lambda>j. pg_head sid db + int j + 1"] sorted_wrt_mono_rel [OF _ sorted_upt])
    have "er_version x \<le> pg_head sid db" if "x \<in> set ?old" for x
    proof -
      have "er_version x \<in> set (map er_version (rows_of sid db))" using that by (auto simp: rows_of_set)
      also have "map er_version (rows_of sid db) = map int [1..<Suc (length (rows_of sid db))]"
        using assms(1) by (simp add: pg_wf_def)
      finally show ?thesis using pg_head_length [OF assms(1)] by auto
    qed
    moreover have "pg_head sid db < er_version y" if "y \<in> set ?new" for y
    proof -
      have "er_version y \<in> set (map er_version ?new)" using that by simp
      then show ?thesis by (auto simp: inserted_rows_versions)
    qed
    ultimately show "\<forall>x \<in> set ?old. \<forall>y \<in> set ?new. er_version x < er_version y" by force
  qed
  ultimately show ?thesis using True assms(2) by (simp add: rows_of_def)
next
  case False
  have "filter (\<lambda>row. er_stream_id row = sid') (inserted_rows C now sid (pg_head sid db) cid 0 evs) = []"
    using False inserted_rows_stream by (fastforce simp: filter_empty_conv)
  with False assms(2) show ?thesis by (simp add: rows_of_def)
qed


lemma scan_loop_read:
  "pg_scan_loop C flt sid i rows acc = Inr recs \<Longrightarrow> map Event recs = map Event acc @ map (\<lambda>row. projr (pg_decode C row)) rows"
  by (induction rows arbitrary: i acc) (force split: option.splits sum.splits)+

lemma scan_loop_error:
  "codec_ok C \<Longrightarrow> pg_scan_loop C flt sid i rows acc = Inl err \<Longrightarrow> err \<noteq> ErrAggregateNotFound"
  by (induction rows arbitrary: i acc) (auto simp: pg_decode_def codec_ok_def split: option.splits sum.splits)

lemma quiet_base: "append_base (quiet envs) db = db\<lparr>pg_calls := Suc (pg_calls db)\<rparr>"
  by (simp add: append_base_def quiet_def)

lemma quiet_append:
  assumes "codec_ok C" and "pg_wf db" and "Postgres_Append C (quiet envs) now sid ev cid evs db = (r, db')"
  shows "case r of
      Inl _ \<Rightarrow> pg_events db' = pg_events db
    | Inr _ \<Rightarrow> ev = int (length (pg_history C db sid)) \<and> pg_history C db' = (pg_history C db)(sid := pg_history C db sid @ evs) \<and> pg_wf db'"
  using append_cases [OF assms(3)]
proof (elim disjE exE conjE)
  assume r: "r = Inr ()" and head: "pg_head sid db = ev"
    and "pg_insert_loop C (fault (quiet envs (pg_calls db))) now sid ev cid 0 evs (append_base (quiet envs) db) = (Inr (), db')"
  from insert_loop_ok [OF this(3)] have m: "\<forall>e \<in> set evs. \<not> failed (ec_marshal C e)"
    and new: "pg_events db' = pg_events db @ inserted_rows C now sid (pg_head sid db) cid 0 evs"
    by (simp_all add: quiet_base head)
  let ?new = "inserted_rows C now sid (pg_head sid db) cid 0 evs"
  note rows = rows_of_inserted [OF assms(2) new]
  note dec = inserted_rows_decode [OF assms(1) m, of now sid "pg_head sid db" cid 0]
  have "map (\<lambda>row. projr (pg_decode C row)) ?new = map projr (map (pg_decode C) ?new)" by simp
  also have "\<dots> = evs" unfolding dec by (simp add: comp_def)
  finally have "pg_history C db' = (pg_history C db)(sid := pg_history C db sid @ evs)"
    by (intro ext) (simp add: pg_history_def rows)
  moreover have "ev = int (length (pg_history C db sid))"
    using head pg_head_length [OF assms(2)] by (simp add: pg_history_def)
  moreover have "pg_wf db'"
  proof -
    have "map er_version (rows_of sid' db') = map int [1..<Suc (length (rows_of sid' db'))]" for sid'
    proof -
      have old: "map er_version (rows_of sid' db) = map int [1..<Suc (length (rows_of sid' db))]"
        using assms(2) by (simp add: pg_wf_def)
      show ?thesis
      proof (cases "sid' = sid")
        case True
        let ?n = "length (rows_of sid db)"
        have "map er_version ?new = map (\<lambda>j. int ?n + int j + 1) [0..<length evs]"
          by (simp add: inserted_rows_versions pg_head_length [OF assms(2)])
        also have "\<dots> = map int [Suc ?n..<Suc (?n + length evs)]"
          by (rule nth_equalityI) (simp_all del: upt_Suc)
        finally have "map er_version ?new = map int [Suc ?n..<Suc (?n + length evs)]" .
        moreover have "[Suc 0..<Suc (?n + length evs)] = [Suc 0..<Suc ?n] @ [Suc ?n..<Suc (?n + length evs)]"
          using upt_add_eq_append [of "Suc 0" "Suc ?n" "length evs"] by (simp del: upt_Suc)
        ultimately show ?thesis using old True by (simp add: rows del: upt_Suc)
      next
        case False
        with old show ?thesis by (simp add: rows del: upt_Suc)
      qed
    qed
    then show ?thesis unfolding pg_wf_def by blast
  qed
  ultimately show ?thesis using r by simp
next
  fix err tx
  assume "r = Inl err" and "db' = rollback (append_base (quiet envs) db) tx"
  then show ?thesis by (simp add: quiet_base)
qed

lemma postgres_event_store:
  assumes "codec_ok C"
  shows "event_store (postgres_store C (quiet envs)) (pg_history C) pg_wf"
proof
  note defs = postgres_store_def Postgres_ReadStream_def Let_def
  show "map Event recs = pg_history C s sid"
    if "es_ReadStream (postgres_store C (quiet envs)) sid s = Inr recs" for s sid recs
    using that scan_loop_read by (fastforce simp: defs pg_history_def split: option.splits)
  show "err \<noteq> ErrAggregateNotFound"
    if "pg_wf s" "es_ReadStream (postgres_store C (quiet envs)) sid s = Inl err" for s sid err
    using that scan_loop_error [OF assms, of _ sid 0 "rows_of sid s" "[]" err]
    by (auto simp: defs split: option.splits)
  note app = quiet_append [OF assms, of _ envs]
  show "ev = int (length (pg_history C s sid)) \<and> pg_history C s' = (pg_history C s)(sid := pg_history C s sid @ evs)"
    if "pg_wf s" "es_Append (postgres_store C (quiet envs)) now sid ev cid evs s = (Inr (), s')" for s now sid ev cid evs s'
    using app [OF that(1)] that(2) by (fastforce simp: postgres_store_def)
  show "pg_history C s' = pg_history C s"
    if "pg_wf s" "es_Append (postgres_store C (quiet envs)) now sid ev cid evs s = (Inl e, s')" for s now sid ev cid evs s' e
    using app [OF that(1)] that(2) pg_history_cong [of s' s C] by (fastforce simp: postgres_store_def)
  show "pg_wf (snd (es_Append (postgres_store C (quiet envs)) now sid ev cid evs s))"
    if "pg_wf s" for s now sid ev cid evs
  proof -
    obtain r s' where run: "Postgres_Append C (quiet envs) now sid ev cid evs s = (r, s')" by fastforce
    from app [OF that run] pg_wf_cong [of s' s] that run show ?thesis
      by (cases r) (simp_all add: postgres_store_def)
  qed
  show "sorted ids \<and> distinct ids \<and> set ids = {sid. pg_history C s sid \<noteq> [] \<and> prefix (p @ ''-'') sid}"
    if "es_ListStreams (postgres_store C (quiet envs)) = Some ls" "ls p s = Inr ids" for s ls p ids
  proof -
    have "pg_history C s sid \<noteq> [] \<longleftrightarrow> sid \<in> set (map er_stream_id (pg_events s))" for sid
    proof -
      have "pg_history C s sid \<noteq> [] \<longleftrightarrow> (\<exists>row. row \<in> set (rows_of sid s))"
        by (cases "rows_of sid s") (auto simp: pg_history_def)
      then show ?thesis by (auto simp: rows_of_set)
    qed
    with that show ?thesis
      by (auto simp: postgres_store_def Postgres_ListStreams_def Let_def split: option.splits)
  qed
qed


section \<open>The race the head check cannot see\<close>

text \<open>
  C33. Two writers that read the same head cannot both succeed: when a concurrent transaction
  commits the next version of the stream after this append has checked the head, the primary
  key turns this append into a concurrency conflict, the error the retry policy is patient
  with, and nothing of it is stored.
\<close>

theorem lost_race_is_conflict:
  assumes "\<forall>stmt. fault (envs (pg_calls db)) stmt = None"
    and "\<forall>e. \<not> failed (ec_marshal C e)" and "evs \<noteq> []"
    and "\<exists>row \<in> set (pg_events (append_base envs db)). er_stream_id row = sid \<and> er_version row = ev + 1"
  shows "fst (Postgres_Append C envs now sid ev cid evs db) = Inl ErrConcurrency \<and>
    pg_events (snd (Postgres_Append C envs now sid ev cid evs db)) = pg_events (append_base envs db) \<and>
    pg_outbox (snd (Postgres_Append C envs now sid ev cid evs db)) = pg_outbox (append_base envs db)"
proof -
  obtain e es where evs: "evs = e # es" using assms(3) by (cases evs) auto
  obtain p where p: "ec_marshal C e = Inr p" using assms(2) by (metis failed_simps(1) sum.exhaust)
  have "(sid, ev + 1) \<in> set (map row_key (pg_events (append_base envs db)))" using assms(4) by force
  then have "pg_insert_loop C (fault (envs (pg_calls db))) now sid ev cid 0 evs (append_base envs db) =
      (Inl ErrConcurrency, append_base envs db)"
    using assms(1) p by (simp add: evs)
  with assms(1) show ?thesis
    unfolding Postgres_Append_def Let_def append_base_def [symmetric] by simp
qed

text \<open>A rival that appends the first event of the stream meanwhile.\<close>

definition rival :: "nat \<Rightarrow> payload pg_env" where
  "rival n = \<lparr>fault = (\<lambda>_. None), others = (\<lambda>db. db\<lparr>pg_events := pg_events db @
     inserted_rows (warehouse_codec hex_uuid) 6 ''OrderAllocation-1'' 0 3 0 [NewOrderAllocationRejected hex_uuid 1 3 ''late'']\<rparr>)\<rparr>"

theorem lost_race_is_conflict_witness:
  "fst (Postgres_Append (warehouse_codec hex_uuid) rival 7 ''OrderAllocation-1'' 0 2
     [NewOrderAllocationCompleted hex_uuid 1 2] empty_db) = Inl ErrConcurrency"
proof -
  let ?db = "empty_db :: payload pg_db"
  have "\<forall>stmt. fault (rival (pg_calls ?db)) stmt = None" by (simp add: rival_def)
  moreover have "\<forall>e. \<not> failed (ec_marshal (warehouse_codec hex_uuid) e)" by (simp add: warehouse_codec_def)
  moreover have "\<exists>row \<in> set (pg_events (append_base rival ?db)). er_stream_id row = ''OrderAllocation-1'' \<and> er_version row = 0 + 1"
    by (simp add: append_base_def rival_def empty_db_def)
  ultimately show ?thesis
    using lost_race_is_conflict [of rival ?db "warehouse_codec hex_uuid" "[NewOrderAllocationCompleted hex_uuid 1 2]"] by blast
qed

section \<open>The durable store of the Warehouses module\<close>

text \<open>No decoder answers that an aggregate is missing: an unreadable event is never taken for a new stream.\<close>

definition not_missing :: "'a result \<Rightarrow> bool" where
  "not_missing r \<longleftrightarrow> r \<noteq> Inl ErrAggregateNotFound"

lemma not_missing_simps [simp]: "not_missing (Inr x)" "not_missing (decode_error :: 'a result)"
  by (simp_all add: not_missing_def decode_error_def)

lemma not_missing_get [simp]:
  "not_missing (object_of p)" "not_missing (get_str k kvs)" "not_missing (get_int k kvs)" "not_missing (get_uuid U k kvs)"
proof -
  show "not_missing (object_of p)" by (cases p rule: object_of.cases) simp_all
qed (simp_all add: get_str_def get_int_def get_uuid_def split: option.splits json.splits)

lemma not_missing_then [intro!]: "not_missing r \<Longrightarrow> (\<And>x. not_missing (f x)) \<Longrightarrow> not_missing (and_then r f)"
  by (cases r) (auto simp: not_missing_def)

lemma not_missing_list [intro!]: "(\<And>x. not_missing (f x)) \<Longrightarrow> not_missing (get_list f k kvs)"
proof -
  assume f: "\<And>x. not_missing (f x)"
  have "not_missing (map_result f xs)" for xs
    using f by (induction xs) (auto simp: not_missing_def split: sum.splits)
  then show ?thesis by (simp add: get_list_def split: option.splits json.splits)
qed

lemma not_missing_struct [intro!]: "(\<And>kvs. not_missing (f kvs)) \<Longrightarrow> not_missing (get_struct f k kvs)"
  by (simp add: get_struct_def split: option.splits json.splits)

lemma not_missing_quantity [simp]: "not_missing (unmarshal_Quantity kvs)"
  unfolding unmarshal_Quantity_def by auto

lemma not_missing_row [simp]: "not_missing (unmarshal_row j)"
  using not_missing_get by (auto simp: unmarshal_row_def not_missing_def split: sum.splits)

lemma not_missing_event [intro!]: "(\<And>b kvs. not_missing (f b kvs)) \<Longrightarrow> not_missing (unmarshal_event U f p)"
  unfolding unmarshal_event_def unmarshal_base_def by auto

lemma deserialize_not_missing:
  assumes "\<And>name. upcasters r name = None" and "\<And>name f p. factories r name = Some f \<Longrightarrow> not_missing (f p)"
  shows "Deserialize r name p \<noteq> Some (Inl ErrAggregateNotFound)"
  using assms by (subst Deserialize.simps) (auto simp: unknown_event_type_def not_missing_def split: option.splits)

lemma warehouse_codec_ok:
  assumes "uuid_ok U"
  shows "codec_ok (warehouse_codec U)"
proof -
  have "not_missing (f p)" if "factories (warehouses_NewEventRegistry U) name = Some f" for name f p
    using that unfolding warehouses_NewEventRegistry_def by (auto simp: NewEventRegistry_def split: if_splits)
  with deserialize_not_missing [of "warehouses_NewEventRegistry U"] assms show ?thesis
    by (simp add: codec_ok_def warehouse_codec_def deserialize_marshal)
qed

interpretation pg: event_store "postgres_store (warehouse_codec hex_uuid) (quiet envs)"
  "pg_history (warehouse_codec hex_uuid)" pg_wf for envs
  by (rule postgres_event_store [OF warehouse_codec_ok [OF hex_uuid_ok]])

end
