(* ===== verification/Sales_Registry.thy ===== *)
theory Sales_Registry
  imports Postgres_Store
begin

text \<open>
  The stored events of the Sales module: \<^verbatim>\<open>NewEventRegistry\<close> of \<^verbatim>\<open>src/internal/sales/module.go\<close>
  over the JSON encoding of the structs of \<^verbatim>\<open>src/internal/sales/sharedkernel/events\<close>, and the
  codec with which the module opens the Postgres store. How \<^verbatim>\<open>encoding/json\<close> writes and reads
  a \<^verbatim>\<open>time.Time\<close> (RFC 3339 text) and a \<^verbatim>\<open>float64\<close> (the shortest number that reads back) is the
  parameter \<open>json_scalars\<close>; writing may be refused (a year beyond 9999, an infinite price),
  and \<open>scalars_ok\<close> is what the two packages document: what was written is read back.
\<close>

section \<open>Sales events as JSON\<close>

record json_scalars =
  js_time :: "instant \<Rightarrow> string option"
  js_parse_time :: "string \<Rightarrow> instant option"
  js_float :: "64 word \<Rightarrow> json option"
  js_parse_float :: "json \<Rightarrow> 64 word option"

definition scalars_ok :: "json_scalars \<Rightarrow> bool" where
  "scalars_ok S \<longleftrightarrow> (\<forall>t s. js_time S t = Some s \<longrightarrow> js_parse_time S s = Some t) \<and>
     (\<forall>x j. js_float S x = Some j \<longrightarrow> j \<noteq> JNull \<and> js_parse_float S j = Some x)"

definition unsupported_value :: "'a result" where
  "unsupported_value = Inl (ErrOther ''json: unsupported value'')"

definition marshal_time :: "json_scalars \<Rightarrow> instant \<Rightarrow> json result" where
  "marshal_time S t = (case js_time S t of None \<Rightarrow> unsupported_value | Some s \<Rightarrow> Inr (JStr s))"

definition marshal_float :: "json_scalars \<Rightarrow> 64 word \<Rightarrow> json result" where
  "marshal_float S x = (case js_float S x of None \<Rightarrow> unsupported_value | Some j \<Rightarrow> Inr j)"

definition get_time :: "json_scalars \<Rightarrow> string \<Rightarrow> (string \<times> json) list \<Rightarrow> instant result" where
  "get_time S k kvs =
     (case json_field k kvs of
        None \<Rightarrow> Inr 0
      | Some (JStr s) \<Rightarrow> (case js_parse_time S s of None \<Rightarrow> decode_error | Some t \<Rightarrow> Inr t)
      | Some _ \<Rightarrow> decode_error)"

definition get_float :: "json_scalars \<Rightarrow> string \<Rightarrow> (string \<times> json) list \<Rightarrow> 64 word result" where
  "get_float S k kvs =
     (case json_field k kvs of
        None \<Rightarrow> Inr 0
      | Some j \<Rightarrow> (case js_parse_float S j of None \<Rightarrow> decode_error | Some x \<Rightarrow> Inr x))"

definition marshal_Price :: "json_scalars \<Rightarrow> Price \<Rightarrow> json result" where
  "marshal_Price S p =
     and_then (marshal_float S (pValue p)) (\<lambda>v. Inr (JObj [(''value'', v), (''currency'', JStr (Currency p))]))"

definition unmarshal_Price :: "json_scalars \<Rightarrow> (string \<times> json) list \<Rightarrow> Price result" where
  "unmarshal_Price S kvs =
     and_then (get_float S ''value'' kvs) (\<lambda>v. and_then (get_str ''currency'' kvs) (\<lambda>c. Inr (NewPrice v c)))"

definition marshal_order_row :: "uuid_pkg \<Rightarrow> json_scalars \<Rightarrow> SalesOrderRowDto \<Rightarrow> json result" where
  "marshal_order_row U S r =
     and_then (marshal_Price S (so_Price r)) (\<lambda>price.
       Inr (JObj [(''beer_id'', wrapped (JStr (UString U (so_BeerId r)))), (''beer_name'', wrapped (JStr (so_BeerName r))),
                  (''quantity'', marshal_Quantity (so_Quantity r)), (''price'', price)]))"

definition unmarshal_order_row :: "uuid_pkg \<Rightarrow> json_scalars \<Rightarrow> json \<Rightarrow> SalesOrderRowDto result" where
  "unmarshal_order_row U S j =
     and_then (object_of (Json j)) (\<lambda>kvs.
     and_then (get_struct (get_uuid U ''value'') ''beer_id'' kvs) (\<lambda>b.
     and_then (get_struct (get_str ''value'') ''beer_name'' kvs) (\<lambda>n.
     and_then (get_struct unmarshal_Quantity ''quantity'' kvs) (\<lambda>q.
     and_then (get_struct (unmarshal_Price S) ''price'' kvs) (\<lambda>p.
       Inr \<lparr>so_BeerId = b, so_BeerName = n, so_Quantity = q, so_Price = p\<rparr>)))))"

fun sales_event_fields :: "uuid_pkg \<Rightarrow> json_scalars \<Rightarrow> sales_event \<Rightarrow> (string \<times> json) list result" where
  "sales_event_fields U S (SalesOrderCreated b i number date customer name rows) =
     and_then (marshal_time S date) (\<lambda>d. and_then (map_result (marshal_order_row U S) rows) (\<lambda>rs.
       Inr [(''sales_order_id'', wrapped (JStr (UString U i))), (''sales_order_number'', wrapped (JStr number)),
            (''order_date'', wrapped d), (''customer_id'', wrapped (JStr (UString U customer))),
            (''customer_name'', wrapped (JStr name)), (''rows'', JArr rs)]))"
| "sales_event_fields U S (SalesOrderAllocated b i) = Inr [(''sales_order_id'', wrapped (JStr (UString U i)))]"
| "sales_event_fields U S (SalesOrderAllocationRejected b i reason) =
     Inr [(''sales_order_id'', wrapped (JStr (UString U i))), (''reason'', JStr reason)]"

definition marshal_sales_event :: "uuid_pkg \<Rightarrow> json_scalars \<Rightarrow> sales_event \<Rightarrow> payload result" where
  "marshal_sales_event U S e =
     and_then (sales_event_fields U S e) (\<lambda>fs. Inr (Json (JObj (base_fields U (se_base e) @ fs))))"

section \<open>The registry of the Sales module\<close>

abbreviation (input) order_id_field where "order_id_field U \<equiv> get_struct (get_uuid U ''value'') ''sales_order_id''"

definition sales_NewEventRegistry :: "uuid_pkg \<Rightarrow> json_scalars \<Rightarrow> (payload, sales_event) EventRegistry" where
  "sales_NewEventRegistry U S =
     RegisterEvent ''sales.sales_order_allocation_rejected'' (unmarshal_event U (\<lambda>b kvs.
       and_then (order_id_field U kvs) (\<lambda>i. and_then (get_str ''reason'' kvs) (\<lambda>r.
         Inr (SalesOrderAllocationRejected b i r)))))
    (RegisterEvent ''sales.sales_order_allocated'' (unmarshal_event U (\<lambda>b kvs.
       and_then (order_id_field U kvs) (\<lambda>i. Inr (SalesOrderAllocated b i))))
    (RegisterEvent ''sales.sales_order_created'' (unmarshal_event U (\<lambda>b kvs.
       and_then (order_id_field U kvs) (\<lambda>i. and_then (get_struct (get_str ''value'') ''sales_order_number'' kvs) (\<lambda>number.
       and_then (get_struct (get_time S ''value'') ''order_date'' kvs) (\<lambda>date.
       and_then (get_struct (get_uuid U ''value'') ''customer_id'' kvs) (\<lambda>customer.
       and_then (get_struct (get_str ''value'') ''customer_name'' kvs) (\<lambda>name.
       and_then (get_list (unmarshal_order_row U S) ''rows'' kvs) (\<lambda>rows.
         Inr (SalesOrderCreated b i number date customer name rows)))))))))
    NewEventRegistry))"

definition sales_codec :: "uuid_pkg \<Rightarrow> json_scalars \<Rightarrow> (payload, sales_event) event_codec" where
  "sales_codec U S = \<lparr>ec_name = sales_event_name, ec_marshal = marshal_sales_event U S,
     ec_registry = sales_NewEventRegistry U S\<rparr>"

section \<open>What is stored is read back\<close>

lemma fold_sales_tags [simp]:
  "fold_name ''currency'' = ''currency''" "fold_name ''price'' = ''price''" "fold_name ''sales_order_number'' = ''sales_order_number''"
  "fold_name ''order_date'' = ''order_date''" "fold_name ''customer_id'' = ''customer_id''" "fold_name ''customer_name'' = ''customer_name''"
  by code_simp+

declare fold_name.simps [simp del]

lemma and_then_Inr: "and_then r f = Inr y \<longleftrightarrow> (\<exists>x. r = Inr x \<and> f x = Inr y)"
  by (cases r) simp_all

lemma get_float_written:
  "scalars_ok S \<Longrightarrow> marshal_float S x = Inr v \<Longrightarrow> json_field k kvs = Some v \<Longrightarrow> get_float S k kvs = Inr x"
  by (auto simp: marshal_float_def get_float_def scalars_ok_def unsupported_value_def split: option.splits)

lemma written_not_null: "scalars_ok S \<Longrightarrow> marshal_float S x = Inr v \<Longrightarrow> v \<noteq> JNull"
  by (auto simp: marshal_float_def scalars_ok_def unsupported_value_def split: option.splits)

lemma get_time_written:
  "scalars_ok S \<Longrightarrow> marshal_time S t = Inr v \<Longrightarrow> json_field k kvs = Some v \<Longrightarrow> get_time S k kvs = Inr t"
  by (auto simp: marshal_time_def get_time_def scalars_ok_def unsupported_value_def split: option.splits)

lemma time_is_text: "marshal_time S t = Inr v \<Longrightarrow> v \<noteq> JNull"
  by (auto simp: marshal_time_def unsupported_value_def split: option.splits)

lemma unmarshal_marshal_order_row:
  assumes "uuid_ok U" and S: "scalars_ok S" and "marshal_order_row U S r = Inr j"
  shows "unmarshal_order_row U S j = Inr r"
proof -
  obtain v where v: "marshal_float S (pValue (so_Price r)) = Inr v"
    and j: "j = JObj [(''beer_id'', wrapped (JStr (UString U (so_BeerId r)))), (''beer_name'', wrapped (JStr (so_BeerName r))),
      (''quantity'', marshal_Quantity (so_Quantity r)),
      (''price'', JObj [(''value'', v), (''currency'', JStr (Currency (so_Price r)))])]"
    using assms(3) by (auto simp: marshal_order_row_def marshal_Price_def and_then_Inr)
  note n = written_not_null [OF S v]
  have "get_float S ''value'' [(''value'', v), (''currency'', JStr (Currency (so_Price r)))] = Inr (pValue (so_Price r))"
    by (rule get_float_written [OF S v]) (simp add: n)
  then have "unmarshal_Price S [(''value'', v), (''currency'', JStr (Currency (so_Price r)))] = Inr (so_Price r)"
    by (simp add: unmarshal_Price_def get_str_def NewPrice_def)
  with assms(1) show ?thesis
    by (simp add: j unmarshal_order_row_def get_struct_def get_uuid_def get_str_def marshal_Quantity_def)
qed

lemma unmarshal_order_rows:
  assumes "uuid_ok U" and "scalars_ok S"
  shows "map_result (marshal_order_row U S) rows = Inr js \<Longrightarrow> map_result (unmarshal_order_row U S) js = Inr rows"
  by (induction rows arbitrary: js) (auto simp: unmarshal_marshal_order_row [OF assms] split: sum.splits)

lemma no_sales_upcasters [simp]: "upcasters (sales_NewEventRegistry U S) n = None"
  by (simp add: sales_NewEventRegistry_def)

lemma deserialize_sales:
  assumes U: "uuid_ok U" and S: "scalars_ok S" and "marshal_sales_event U S e = Inr p"
  shows "Deserialize (sales_NewEventRegistry U S) (sales_event_name e) p = Some (Inr e)"
proof -
  note defs = unmarshal_event_def base_fields_def get_str_def get_list_def get_struct_def get_uuid_def
  obtain fs where fs: "sales_event_fields U S e = Inr fs" and p: "p = Json (JObj (base_fields U (se_base e) @ fs))"
    using assms(3) by (auto simp: marshal_sales_event_def and_then_Inr)
  have "\<exists>f. factories (sales_NewEventRegistry U S) (sales_event_name e) = Some f \<and> f p = Inr e"
  proof (cases e)
    case (SalesOrderCreated b i number date customer name rows)
    then obtain d rs where d: "marshal_time S date = Inr d" and rs: "map_result (marshal_order_row U S) rows = Inr rs"
      and fs': "fs = [(''sales_order_id'', wrapped (JStr (UString U i))), (''sales_order_number'', wrapped (JStr number)),
            (''order_date'', wrapped d), (''customer_id'', wrapped (JStr (UString U customer))),
            (''customer_name'', wrapped (JStr name)), (''rows'', JArr rs)]"
      using fs by (auto simp: and_then_Inr)
    have "get_time S ''value'' [(''value'', d)] = Inr date"
      by (rule get_time_written [OF S d]) (simp add: time_is_text [OF d])
    then show ?thesis
      using U unmarshal_order_rows [OF U S rs] unfolding p fs' SalesOrderCreated
      by (simp add: sales_NewEventRegistry_def defs)
  qed (use fs U in \<open>auto simp: p sales_NewEventRegistry_def defs\<close>)
  then show ?thesis by (auto simp: deserialize_direct)
qed

lemma not_missing_sales [simp]:
  "not_missing (get_time S k kvs)" "not_missing (get_float S k kvs)" "not_missing (unmarshal_Price S kvs)"
  "not_missing (unmarshal_order_row U S j)"
proof -
  show "not_missing (get_time S k kvs)" and f: "not_missing (get_float S k kvs)" for k kvs
    by (simp_all add: get_time_def get_float_def split: option.splits json.splits)
  then show p: "not_missing (unmarshal_Price S kvs)" for kvs unfolding unmarshal_Price_def by auto
  then show "not_missing (unmarshal_order_row U S j)" unfolding unmarshal_order_row_def by auto
qed

lemma sales_codec_ok:
  assumes "uuid_ok U" and "scalars_ok S"
  shows "codec_ok (sales_codec U S)"
proof -
  have "not_missing (f p)" if "factories (sales_NewEventRegistry U S) name = Some f" for name f p
    using that unfolding sales_NewEventRegistry_def by (auto simp: NewEventRegistry_def split: if_splits)
  with deserialize_not_missing [of "sales_NewEventRegistry U S"] deserialize_sales [OF assms] show ?thesis
    by (simp add: codec_ok_def sales_codec_def)
qed

text \<open>
  C40. Whatever the Sales module manages to store it can read back: for each of its three event
  types the module's registry has a factory under the name the event is stored with, the
  registry returns, and decoding the stored JSON gives exactly the event that was raised,
  its date, rows and prices included.
\<close>

theorem sales_events_roundtrip:
  assumes "uuid_ok U" and "scalars_ok S" and "marshal_sales_event U S e = Inr p"
  shows "Deserialize (sales_NewEventRegistry U S) (sales_event_name e) p = Some (Inr e)"
  by (rule deserialize_sales [OF assms])

text \<open>Scalars that are written as integers.\<close>

definition plain_scalars :: json_scalars where
  "plain_scalars = \<lparr>js_time = (\<lambda>t. if t < 0 then None else Some (replicate (nat t) CHR ''I'')),
     js_parse_time = (\<lambda>s. Some (int (length s))),
     js_float = (\<lambda>x. Some (JNum (uint x))),
     js_parse_float = (\<lambda>j. case j of JNum i \<Rightarrow> Some (word_of_int i) | _ \<Rightarrow> None)\<rparr>"

lemma plain_scalars_ok: "scalars_ok plain_scalars"
  by (auto simp: scalars_ok_def plain_scalars_def split: if_splits)

definition stored_order :: sales_event where
  "stored_order = NewSalesOrderCreated 1 2 ''S-1'' 4 3 ''Pub''
     [\<lparr>so_BeerId = 5, so_BeerName = ''IPA'', so_Quantity = NewQuantity 30 ''Lt'', so_Price = NewPrice 5 ''EUR''\<rparr>]"

theorem sales_events_roundtrip_witness:
  "\<exists>p. marshal_sales_event hex_uuid plain_scalars stored_order = Inr p \<and>
     Deserialize (sales_NewEventRegistry hex_uuid plain_scalars) ''sales.sales_order_created'' p = Some (Inr stored_order)"
proof -
  obtain p where p: "marshal_sales_event hex_uuid plain_scalars stored_order = Inr p"
    by (simp add: marshal_sales_event_def stored_order_def msg_defs marshal_time_def marshal_order_row_def marshal_Price_def
        marshal_float_def plain_scalars_def)
  from sales_events_roundtrip [OF hex_uuid_ok plain_scalars_ok p] p show ?thesis
    by (auto simp: stored_order_def msg_defs)
qed

interpretation sales_pg: event_store "postgres_store (sales_codec hex_uuid plain_scalars) (quiet envs)"
  "pg_history (sales_codec hex_uuid plain_scalars)" pg_wf for envs
  by (rule postgres_event_store [OF sales_codec_ok [OF hex_uuid_ok plain_scalars_ok]])

end
