(* ===== verification/Postgres_Read_Model.thy ===== *)
theory Postgres_Read_Model
  imports Sales_Read_Model Warehouse_Read_Model
begin

text \<open>
  The durable read models: \<^verbatim>\<open>postgres_sales_order_service.go\<close> and
  \<^verbatim>\<open>postgres_availability_service.go\<close> on the tables of \<^verbatim>\<open>src/migrations\<close>. Each SQL statement of the
  source is a function on the tables. Identifier columns hold identifiers, not text: the
  database parses what it is given and prints what it holds. The column types are enforced:
  a 32-bit quantity, lengths in characters, two decimals for a price, three characters for
  a currency, the precision of a timestamp. Failures of the database are the parameter \<open>flt\<close>, one message per statement
  that fails.
\<close>

section \<open>Columns\<close>

text \<open>The number of characters of a byte string in UTF-8.\<close>

definition char_count :: "string \<Rightarrow> nat" where
  "char_count s = length (filter (\<lambda>c. \<not> (0x80 \<le> (of_char c :: nat) \<and> (of_char c :: nat) < 0xC0)) s)"

definition fits_integer :: "go_int \<Rightarrow> bool" where
  "fits_integer q \<longleftrightarrow> - (2 ^ 31) \<le> sint q \<and> sint q < 2 ^ 31"

type_synonym db_faults = "nat \<Rightarrow> string option"

section \<open>Availabilities\<close>

record availability_row =
  ar_beer :: uuid
  ar_name :: string
  ar_qty :: go_int
  ar_unit :: string

type_synonym availability_table = "availability_row list"

definition availability_fits :: "uuid_pkg \<Rightarrow> AvailabilityDto \<Rightarrow> bool" where
  "availability_fits U d \<longleftrightarrow> Parse U (ad_BeerId d) \<noteq> None \<and> char_count (ad_BeerName d) \<le> 200 \<and>
     fits_integer (qValue (ad_Quantity d)) \<and> char_count (UnitOfMeasure (ad_Quantity d)) \<le> 10"

definition pg_UpsertAvailability ::
  "uuid_pkg \<Rightarrow> string option \<Rightarrow> AvailabilityDto \<Rightarrow> availability_table \<Rightarrow> (availability_table, unit) outcome" where
  "pg_UpsertAvailability U flt d table =
     (case flt of
        Some msg \<Rightarrow> (Inl (ErrOther msg), table)
      | None \<Rightarrow>
          (case Parse U (ad_BeerId d) of
             None \<Rightarrow> (Inl (ErrOther ''invalid input syntax for type uuid''), table)
           | Some b \<Rightarrow>
               if availability_fits U d then
                 let row = \<lparr>ar_beer = b, ar_name = ad_BeerName d, ar_qty = qValue (ad_Quantity d),
                            ar_unit = UnitOfMeasure (ad_Quantity d)\<rparr> in
                 (Inr (), if b \<in> set (map ar_beer table) then map (\<lambda>r. if ar_beer r = b then row else r) table
                          else table @ [row])
               else (Inl (ErrOther ''value out of range''), table)))"

definition pg_ResetAvailabilities :: "string option \<Rightarrow> availability_table \<Rightarrow> (availability_table, unit) outcome" where
  "pg_ResetAvailabilities flt table =
     (case flt of Some msg \<Rightarrow> (Inl (ErrOther msg), table) | None \<Rightarrow> (Inr (), []))"

definition availability_of_row :: "uuid_pkg \<Rightarrow> availability_row \<Rightarrow> AvailabilityDto" where
  "availability_of_row U r =
     \<lparr>ad_BeerId = UString U (ar_beer r), ad_BeerName = ar_name r, ad_Quantity = NewQuantity (ar_qty r) (ar_unit r)\<rparr>"

definition pg_GetAvailability :: "uuid_pkg \<Rightarrow> string option \<Rightarrow> string \<Rightarrow> availability_table \<Rightarrow> AvailabilityDto result" where
  "pg_GetAvailability U flt beerId table =
     (case flt of
        Some msg \<Rightarrow> Inl (ErrOther msg)
      | None \<Rightarrow>
          (case Parse U beerId of
             None \<Rightarrow> Inl (ErrOther ''invalid input syntax for type uuid'')
           | Some b \<Rightarrow>
               (case find (\<lambda>r. ar_beer r = b) table of
                  None \<Rightarrow> Inl ErrNotFound | Some r \<Rightarrow> Inr (availability_of_row U r))))"

text \<open>\<^verbatim>\<open>ORDER BY beer_name\<close> leaves the order of equal names open: \<open>arrange\<close> is the server's choice.\<close>

definition pg_GetAvailabilities ::
  "uuid_pkg \<Rightarrow> (AvailabilityDto list \<Rightarrow> AvailabilityDto list) \<Rightarrow> string option \<Rightarrow> Page \<Rightarrow> availability_table \<Rightarrow> AvailabilityDto list result" where
  "pg_GetAvailabilities U arrange flt page table =
     (case flt of
        Some msg \<Rightarrow> Inl (ErrOther msg)
      | None \<Rightarrow> Inr (take (nat (sint (Limit page))) (drop (nat (sint (Offset page))) (arrange (map (availability_of_row U) table)))))"

definition availability_view :: "uuid_pkg \<Rightarrow> availability_table \<Rightarrow> string \<rightharpoonup> AvailabilityDto" where
  "availability_view U table key =
     (case Parse U key of
        None \<Rightarrow> None
      | Some b \<Rightarrow> if UString U b = key then map_option (availability_of_row U) (find (\<lambda>r. ar_beer r = b) table) else None)"

lemma find_map_row:
  "ar_beer row = b \<Longrightarrow> find (\<lambda>r. ar_beer r = c) (map (\<lambda>r. if ar_beer r = b then row else r) table) =
     (if c = b \<and> b \<in> set (map ar_beer table) then Some row else find (\<lambda>r. ar_beer r = c) table)"
  by (induction table) auto

lemma find_append_row:
  "b \<notin> set (map ar_beer table) \<Longrightarrow> ar_beer row = b \<Longrightarrow>
     find (\<lambda>r. ar_beer r = c) (table @ [row]) = (if c = b then Some row else find (\<lambda>r. ar_beer r = c) table)"
  by (induction table) auto

text \<open>The durable adapter keeps the projector's contract, whichever of its statements fail.\<close>

lemma pg_availability_writer:
  assumes U: "uuid_ok U"
  shows "availability_writer (\<lambda>d v. pg_UpsertAvailability U (flt d v) d v) (availability_view U) (\<lambda>d. \<exists>b. ad_BeerId d = UString U b)"
proof
  fix d v v'
  assume "\<exists>b. ad_BeerId d = UString U b" and run: "pg_UpsertAvailability U (flt d v) d v = (Inr (), v')"
  then obtain b where b: "ad_BeerId d = UString U b" by blast
  then have parse: "Parse U (ad_BeerId d) = Some b" using U by simp
  let ?row = "\<lparr>ar_beer = b, ar_name = ad_BeerName d, ar_qty = qValue (ad_Quantity d), ar_unit = UnitOfMeasure (ad_Quantity d)\<rparr>"
  have v': "v' = (if b \<in> set (map ar_beer v) then map (\<lambda>r. if ar_beer r = b then ?row else r) v else v @ [?row])"
    using run parse by (auto simp: pg_UpsertAvailability_def Let_def split: option.splits if_splits)
  have row: "availability_of_row U ?row = d" by (simp add: availability_of_row_def NewQuantity_def b [symmetric])
  have found: "find (\<lambda>r. ar_beer r = c) v' = (if c = b then Some ?row else find (\<lambda>r. ar_beer r = c) v)" for c
    using find_map_row [of ?row b c v] find_append_row [of b v ?row c] by (cases "c = b") (simp_all add: v')
  show "availability_view U v' = (availability_view U v)(ad_BeerId d \<mapsto> d)"
  proof
    fix key
    show "availability_view U v' key = ((availability_view U v)(ad_BeerId d \<mapsto> d)) key"
      using found row by (cases "Parse U key") (auto simp: availability_view_def b U uuid_ok_inj)
  qed
next
  fix d v v' err
  assume "pg_UpsertAvailability U (flt d v) d v = (Inl err, v')"
  then show "availability_view U v' = availability_view U v"
    by (auto simp: pg_UpsertAvailability_def Let_def split: option.splits if_splits)
qed

interpretation pg_view: availability_writer "\<lambda>d v. pg_UpsertAvailability hex_uuid (flt d v) d v" "availability_view hex_uuid"
  "\<lambda>d. \<exists>b. ad_BeerId d = UString hex_uuid b" for flt
  by (rule pg_availability_writer [OF hex_uuid_ok])

text \<open>
  A stock of \<open>2\<^sup>3\<^sup>1\<close> or more is a valid stock of the write model and cannot be projected.
\<close>

lemma large_stock_not_projected:
  "sint (qValue q) \<ge> 2 ^ 31 \<Longrightarrow>
     fst (projector_upsert (pg_UpsertAvailability U None) (UString U b) n q table) \<noteq> Inr () \<and>
     snd (projector_upsert (pg_UpsertAvailability U None) (UString U b) n q table) = table"
  by (auto simp: projector_upsert_def pg_UpsertAvailability_def availability_fits_def fits_integer_def split: option.splits)


section \<open>Sales orders\<close>

record sales_order_rec =
  po_id :: uuid
  po_number :: string
  po_date :: instant
  po_customer :: uuid
  po_customer_name :: string
  po_status :: string
  po_reason :: string
  po_projected_at :: instant

record sales_row_rec =
  pr_order :: uuid
  pr_beer :: uuid
  pr_name :: string
  pr_quantity :: go_int
  pr_unit :: string
  pr_price :: "64 word"
  pr_currency :: string

record sales_tables =
  st_orders :: "sales_order_rec list"
  st_rows :: "sales_row_rec list"

text \<open>
  What the driver and the database do with a value: \<open>pe_uuid\<close> reads and prints identifiers,
  \<open>col_price\<close> rounds to the two decimals of \<^verbatim>\<open>numeric(12,2)\<close> or refuses, \<open>col_time\<close> brings an
  instant, which counts nanoseconds, to the microseconds of \<^verbatim>\<open>timestamptz\<close>, \<open>pe_now\<close> is the
  transaction's clock, \<open>pe_random\<close> the identifier that \<^verbatim>\<open>gen_random_uuid()\<close> draws, \<open>pe_flt\<close> the
  failures.
\<close>

record pg_columns =
  col_price :: "64 word \<Rightarrow> 64 word option"
  col_time :: "instant \<Rightarrow> instant"

record pg_sales_env =
  pe_uuid :: uuid_pkg
  pe_columns :: pg_columns
  pe_now :: instant
  pe_random :: uuid
  pe_flt :: db_faults

definition pg_error :: "string \<Rightarrow> 'a result" where
  "pg_error msg = Inl (ErrOther msg)"

definition insert_sales_row :: "pg_sales_env \<Rightarrow> uuid \<Rightarrow> SalesOrderRow \<Rightarrow> sales_tables \<Rightarrow> (sales_tables, unit) outcome" where
  "insert_sales_row E i row t =
     (case Parse (pe_uuid E) (dr_BeerId row) of
        None \<Rightarrow> (pg_error ''invalid input syntax for type uuid'', t)
      | Some b \<Rightarrow>
          if (i, b) \<in> set (map (\<lambda>r. (pr_order r, pr_beer r)) (st_rows t)) then (pg_error ''duplicate key value violates unique constraint'', t)
          else if char_count (dr_BeerName row) > 200 \<or> \<not> fits_integer (qValue (dr_Quantity row)) \<or>
                  char_count (UnitOfMeasure (dr_Quantity row)) > 10 \<or> char_count (Currency (dr_Price row)) > 3
          then (pg_error ''value out of range'', t)
          else (case col_price (pe_columns E) (pValue (dr_Price row)) of
             None \<Rightarrow> (pg_error ''numeric field overflow'', t)
           | Some p \<Rightarrow>
               (Inr (), t\<lparr>st_rows := st_rows t @ [\<lparr>pr_order = i, pr_beer = b, pr_name = dr_BeerName row,
                  pr_quantity = qValue (dr_Quantity row), pr_unit = UnitOfMeasure (dr_Quantity row), pr_price = p,
                  pr_currency = Currency (dr_Price row) @ replicate (3 - char_count (Currency (dr_Price row))) (CHR '' '')\<rparr>]\<rparr>)))"

definition upsert_order :: "sales_order_rec \<Rightarrow> (sales_order_rec \<Rightarrow> sales_order_rec) \<Rightarrow> sales_tables \<Rightarrow> sales_tables" where
  "upsert_order new change t =
     t\<lparr>st_orders := (if po_id new \<in> set (map po_id (st_orders t))
        then map (\<lambda>r. if po_id r = po_id new then change r else r) (st_orders t) else st_orders t @ [new])\<rparr>"

text \<open>The transaction of \<^verbatim>\<open>CreateSalesOrder\<close>; on any error the tables stay as they were.\<close>

definition pg_CreateSalesOrder :: "pg_sales_env \<Rightarrow> SalesOrderDto \<Rightarrow> sales_tables \<Rightarrow> (sales_tables, unit) outcome" where
  "pg_CreateSalesOrder E order t =
     (case (Parse (pe_uuid E) (d_Id order), Parse (pe_uuid E) (d_CustomerId order)) of
        (Some i, Some c) \<Rightarrow>
          (case pe_flt E 0 of Some msg \<Rightarrow> (pg_error msg, t) | None \<Rightarrow>
           if char_count (d_SalesOrderNumber order) > 50 \<or> char_count (d_CustomerName order) > 200
           then (pg_error ''value too long'', t)
           else
             let t1 = upsert_order
               \<lparr>po_id = i, po_number = d_SalesOrderNumber order, po_date = col_time (pe_columns E) (d_OrderDate order), po_customer = c,
                po_customer_name = d_CustomerName order, po_status = ''pending'', po_reason = [], po_projected_at = pe_now E\<rparr>
               (\<lambda>r. r\<lparr>po_number := d_SalesOrderNumber order, po_date := col_time (pe_columns E) (d_OrderDate order), po_customer := c,
                     po_customer_name := d_CustomerName order\<rparr>) t;
                 t2 = t1\<lparr>st_rows := filter (\<lambda>r. pr_order r \<noteq> i) (st_rows t1)\<rparr>
             in (case for_each (insert_sales_row E i) (d_Rows order) t2 of
                   (Inl err, _) \<Rightarrow> (Inl err, t)
                 | (Inr _, t3) \<Rightarrow> (case pe_flt E 1 of Some msg \<Rightarrow> (pg_error msg, t) | None \<Rightarrow> (Inr (), t3))))
      | _ \<Rightarrow> (pg_error ''invalid input syntax for type uuid'', t))"

definition pg_ResetSales :: "string option \<Rightarrow> sales_tables \<Rightarrow> (sales_tables, unit) outcome" where
  "pg_ResetSales flt t = (case flt of Some msg \<Rightarrow> (pg_error msg, t) | None \<Rightarrow> (Inr (), \<lparr>st_orders = [], st_rows = []\<rparr>))"

definition pg_UpdateAllocationStatus :: "pg_sales_env \<Rightarrow> string \<Rightarrow> string \<Rightarrow> string \<Rightarrow> sales_tables \<Rightarrow> (sales_tables, unit) outcome" where
  "pg_UpdateAllocationStatus E salesOrderId status reason t =
     (case pe_flt E 0 of Some msg \<Rightarrow> (pg_error msg, t) | None \<Rightarrow>
      (case Parse (pe_uuid E) salesOrderId of
        None \<Rightarrow> (pg_error ''invalid input syntax for type uuid'', t)
      | Some i \<Rightarrow>
          if char_count status > 20 then (pg_error ''value too long'', t)
          else (Inr (), upsert_order
             \<lparr>po_id = i, po_number = [], po_date = pe_now E, po_customer = pe_random E, po_customer_name = [],
              po_status = status, po_reason = reason, po_projected_at = pe_now E\<rparr>
             (\<lambda>r. r\<lparr>po_status := status, po_reason := reason\<rparr>) t)))"

definition rowsOf :: "pg_sales_env \<Rightarrow> uuid \<Rightarrow> sales_tables \<Rightarrow> SalesOrderRow list" where
  "rowsOf E i t = map (\<lambda>r. \<lparr>dr_BeerId = UString (pe_uuid E) (pr_beer r), dr_BeerName = pr_name r,
       dr_Quantity = NewQuantity (pr_quantity r) (pr_unit r), dr_Price = NewPrice (pr_price r) (pr_currency r)\<rparr>)
     (sort_key (\<lambda>r. uint (pr_beer r)) (filter (\<lambda>r. pr_order r = i) (st_rows t)))"

definition order_dto :: "pg_sales_env \<Rightarrow> sales_order_rec \<Rightarrow> sales_tables \<Rightarrow> SalesOrderDto" where
  "order_dto E r t = \<lparr>d_Id = UString (pe_uuid E) (po_id r), d_SalesOrderNumber = po_number r, d_OrderDate = po_date r,
     d_CustomerId = UString (pe_uuid E) (po_customer r), d_CustomerName = po_customer_name r, d_Rows = rowsOf E (po_id r) t,
     d_AllocationStatus = po_status r, d_RejectionReason = po_reason r\<rparr>"

definition pg_GetSalesOrder :: "pg_sales_env \<Rightarrow> string \<Rightarrow> sales_tables \<Rightarrow> SalesOrderDto result" where
  "pg_GetSalesOrder E key t =
     (case pe_flt E 0 of Some msg \<Rightarrow> pg_error msg | None \<Rightarrow>
      (case Parse (pe_uuid E) key of
        None \<Rightarrow> pg_error ''invalid input syntax for type uuid''
      | Some i \<Rightarrow>
          (case find (\<lambda>r. po_id r = i) (st_orders t) of
             None \<Rightarrow> Inl ErrNotFound
           | Some r \<Rightarrow> (case pe_flt E 1 of Some msg \<Rightarrow> pg_error msg | None \<Rightarrow> Inr (order_dto E r t)))))"

text \<open>\<^verbatim>\<open>ORDER BY projected_at, id\<close>: sorting by the second key first, stably.\<close>

definition pg_GetSalesOrders :: "pg_sales_env \<Rightarrow> Page \<Rightarrow> sales_tables \<Rightarrow> SalesOrderDto list result" where
  "pg_GetSalesOrders E page t =
     (case pe_flt E 0 of Some msg \<Rightarrow> pg_error msg | None \<Rightarrow>
      (case pe_flt E 1 of Some msg \<Rightarrow> pg_error msg | None \<Rightarrow>
      Inr (map (\<lambda>r. order_dto E r t)
        (take (nat (sint (Limit page))) (drop (nat (sint (Offset page)))
          (sort_key po_projected_at (sort_key (\<lambda>r. uint (po_id r)) (st_orders t))))))))"


section \<open>The durable read model shows what the in-memory one shows\<close>

text \<open>The projections of \<^verbatim>\<open>readmodel/eventhandlers\<close>, writing to the durable adapter.\<close>

fun pg_project_sales :: "pg_sales_env \<Rightarrow> sales_event \<Rightarrow> sales_tables \<Rightarrow> (sales_tables, unit) outcome" where
  "pg_project_sales E (SalesOrderCreated _ i n d ci cn rows) t =
     pg_CreateSalesOrder E \<lparr>d_Id = UString (pe_uuid E) i, d_SalesOrderNumber = n, d_OrderDate = d,
       d_CustomerId = UString (pe_uuid E) ci, d_CustomerName = cn, d_Rows = map (row_dto (pe_uuid E)) rows,
       d_AllocationStatus = [], d_RejectionReason = []\<rparr> t"
| "pg_project_sales E (SalesOrderAllocated _ i) t = pg_UpdateAllocationStatus E (UString (pe_uuid E) i) ''allocated'' [] t"
| "pg_project_sales E (SalesOrderAllocationRejected _ i reason) t =
     pg_UpdateAllocationStatus E (UString (pe_uuid E) i) ''rejected'' reason t"

text \<open>What the columns accept: the tables' limits, prices that can be rounded, and one row per beer.\<close>

definition row_fits :: "pg_sales_env \<Rightarrow> SalesOrderRowDto \<Rightarrow> bool" where
  "row_fits E row \<longleftrightarrow> char_count (so_BeerName row) \<le> 200 \<and> fits_integer (qValue (so_Quantity row)) \<and>
     char_count (UnitOfMeasure (so_Quantity row)) \<le> 10 \<and> char_count (Currency (so_Price row)) \<le> 3 \<and>
     col_price (pe_columns E) (pValue (so_Price row)) \<noteq> None"

fun event_fits :: "pg_sales_env \<Rightarrow> sales_event \<Rightarrow> bool" where
  "event_fits E (SalesOrderCreated _ i n d ci cn rows) \<longleftrightarrow>
     char_count n \<le> 50 \<and> char_count cn \<le> 200 \<and> (\<forall>row \<in> set rows. row_fits E row) \<and> distinct (map so_BeerId rows)"
| "event_fits E _ \<longleftrightarrow> True"

definition env_ok :: "uuid_pkg \<Rightarrow> pg_sales_env \<Rightarrow> bool" where
  "env_ok U E \<longleftrightarrow> pe_uuid E = U \<and> (\<forall>n. pe_flt E n = None)"

text \<open>
  What the tables keep of an order: the date in the precision of the column, prices rounded
  as the column \<^verbatim>\<open>numeric(12,2)\<close> does and currencies padded to three characters; a query lists
  the rows by beer.
\<close>

definition padded :: "string \<Rightarrow> string" where
  "padded c = c @ replicate (3 - char_count c) (CHR '' '')"

definition kept_price :: "pg_columns \<Rightarrow> Price \<Rightarrow> Price" where
  "kept_price C p = NewPrice (case col_price C (pValue p) of None \<Rightarrow> pValue p | Some v \<Rightarrow> v) (padded (Currency p))"

definition kept_row :: "pg_columns \<Rightarrow> SalesOrderRow \<Rightarrow> SalesOrderRow" where
  "kept_row C row = row\<lparr>dr_Price := kept_price C (dr_Price row)\<rparr>"

definition by_beer :: "uuid_pkg \<Rightarrow> SalesOrderRow list \<Rightarrow> SalesOrderRow list" where
  "by_beer U rows = sort_key (\<lambda>r. case Parse U (dr_BeerId r) of None \<Rightarrow> 0 | Some b \<Rightarrow> uint b) rows"

definition kept_order :: "uuid_pkg \<Rightarrow> pg_columns \<Rightarrow> SalesOrderDto \<Rightarrow> SalesOrderDto" where
  "kept_order U C d = d\<lparr>d_OrderDate := col_time C (d_OrderDate d), d_Rows := by_beer U (map (kept_row C) (d_Rows d))\<rparr>"

definition rows_in :: "sales_tables \<Rightarrow> SalesOrderId \<Rightarrow> sales_row_rec list" where
  "rows_in t i = filter (\<lambda>r. pr_order r = i) (st_rows t)"

definition kept_rec :: "pg_columns \<Rightarrow> SalesOrderId \<Rightarrow> SalesOrderRowDto \<Rightarrow> sales_row_rec" where
  "kept_rec C i row = \<lparr>pr_order = i, pr_beer = so_BeerId row, pr_name = so_BeerName row, pr_quantity = qValue (so_Quantity row),
     pr_unit = UnitOfMeasure (so_Quantity row), pr_price = pValue (kept_price C (so_Price row)),
     pr_currency = Currency (kept_price C (so_Price row))\<rparr>"

lemma insert_row_kept:
  assumes "uuid_ok U" and "pe_uuid E = U" and "pe_columns E = C"
    and "insert_sales_row E i (row_dto U row) t = (Inr (), t')"
  shows "t' = t\<lparr>st_rows := st_rows t @ [kept_rec C i row]\<rparr>"
  using assms
  by (auto simp: insert_sales_row_def row_dto_def kept_rec_def kept_price_def padded_def NewPrice_def pg_error_def
      split: option.splits if_splits)

lemma insert_rows_kept:
  assumes "uuid_ok U" and "pe_uuid E = U" and "pe_columns E = C"
    and "for_each (insert_sales_row E i) (map (row_dto U) rows) t = (Inr (), t')"
  shows "t' = t\<lparr>st_rows := st_rows t @ map (kept_rec C i) rows\<rparr>"
  using assms(4)
proof (induction rows arbitrary: t)
  case (Cons row rows)
  obtain r t1 where t1: "insert_sales_row E i (row_dto U row) t = (r, t1)" by fastforce
  with Cons.prems have "r = Inr ()" by (cases r) auto
  with t1 insert_row_kept [OF assms(1-3)] have "t1 = t\<lparr>st_rows := st_rows t @ [kept_rec C i row]\<rparr>" by blast
  moreover have "for_each (insert_sales_row E i) (map (row_dto U) rows) t1 = (Inr (), t')"
    using Cons.prems t1 \<open>r = Inr ()\<close> by simp
  from Cons.IH [OF this] have "t' = t1\<lparr>st_rows := st_rows t1 @ map (kept_rec C i) rows\<rparr>" .
  ultimately show ?case by simp
qed simp

lemma insert_row_fits:
  assumes "uuid_ok U" and "env_ok U E" and "row_fits E row"
    and "(i, so_BeerId row) \<notin> set (map (\<lambda>r. (pr_order r, pr_beer r)) (st_rows t))"
  shows "insert_sales_row E i (row_dto U row) t = (Inr (), t\<lparr>st_rows := st_rows t @ [kept_rec (pe_columns E) i row]\<rparr>)"
proof -
  have "fst (insert_sales_row E i (row_dto U row) t) = Inr ()"
    using assms by (auto simp: insert_sales_row_def row_dto_def env_ok_def row_fits_def)
  then obtain t' where t': "insert_sales_row E i (row_dto U row) t = (Inr (), t')" by (metis prod.collapse)
  with insert_row_kept [OF assms(1) _ refl this] assms(2) show ?thesis by (simp add: env_ok_def)
qed

lemma insert_rows_fit:
  assumes "uuid_ok U" and "env_ok U E" and "\<forall>row \<in> set rows. row_fits E row" and "distinct (map so_BeerId rows)"
    and "\<forall>row \<in> set rows. (i, so_BeerId row) \<notin> set (map (\<lambda>r. (pr_order r, pr_beer r)) (st_rows t))"
  shows "fst (for_each (insert_sales_row E i) (map (row_dto U) rows) t) = Inr ()"
  using assms(3-5)
proof (induction rows arbitrary: t)
  case (Cons row rows)
  let ?t = "t\<lparr>st_rows := st_rows t @ [kept_rec (pe_columns E) i row]\<rparr>"
  have "insert_sales_row E i (row_dto U row) t = (Inr (), ?t)"
    by (rule insert_row_fits [OF assms(1,2)]) (use Cons.prems in auto)
  moreover have "fst (for_each (insert_sales_row E i) (map (row_dto U) rows) ?t) = Inr ()"
    by (rule Cons.IH) (use Cons.prems in \<open>auto simp: kept_rec_def image_iff\<close>)
  ultimately show ?case by simp
qed simp

lemma project_fits:
  assumes U: "uuid_ok U" and E: "env_ok U E" and fits: "event_fits E e"
  shows "fst (pg_project_sales E e t) = Inr ()"
proof (cases e)
  case (SalesOrderCreated b i n d ci cn rows)
  let ?date = "col_time (pe_columns E) d"
  let ?t1 = "upsert_order \<lparr>po_id = i, po_number = n, po_date = ?date, po_customer = ci, po_customer_name = cn, po_status = ''pending'',
      po_reason = [], po_projected_at = pe_now E\<rparr> (\<lambda>r. r\<lparr>po_number := n, po_date := ?date, po_customer := ci, po_customer_name := cn\<rparr>) t"
  let ?t2 = "?t1\<lparr>st_rows := filter (\<lambda>r. pr_order r \<noteq> i) (st_rows ?t1)\<rparr>"
  have "fst (for_each (insert_sales_row E i) (map (row_dto U) rows) ?t2) = Inr ()"
    by (rule insert_rows_fit [OF U E]) (use fits in \<open>auto simp: SalesOrderCreated\<close>)
  then obtain t3 where "for_each (insert_sales_row E i) (map (row_dto U) rows) ?t2 = (Inr (), t3)" by (metis prod.collapse)
  with fits E U show ?thesis by (simp add: SalesOrderCreated env_ok_def pg_CreateSalesOrder_def Let_def)
qed (use U E in \<open>simp_all add: env_ok_def pg_UpdateAllocationStatus_def char_count_def\<close>)

lemma find_upsert:
  assumes "\<And>r. po_id (change r) = po_id r"
  shows "find (\<lambda>r. po_id r = j) (st_orders (upsert_order new change t)) =
    (if j = po_id new then Some (case find (\<lambda>r. po_id r = j) (st_orders t) of None \<Rightarrow> new | Some r \<Rightarrow> change r)
     else find (\<lambda>r. po_id r = j) (st_orders t))"
proof -
  have m: "find (\<lambda>r. po_id r = j) (map (\<lambda>r. if po_id r = po_id new then change r else r) xs) =
      map_option (\<lambda>r. if po_id r = po_id new then change r else r) (find (\<lambda>r. po_id r = j) xs)" for xs
    using assms by (induction xs) auto
  have f: "find (\<lambda>r. po_id r = j) xs = None \<longleftrightarrow> j \<notin> set (map po_id xs)" for xs by (induction xs) auto
  have a: "find (\<lambda>r. po_id r = j) (xs @ [new]) = (case find (\<lambda>r. po_id r = j) xs of None \<Rightarrow> if po_id new = j then Some new else None | Some r \<Rightarrow> Some r)" for xs
    by (induction xs) auto
  have k: "po_id r = j" if "find (\<lambda>r. po_id r = j) xs = Some r" for xs r using that by (auto simp: find_Some_iff)
  show ?thesis
  proof (cases "po_id new \<in> set (map po_id (st_orders t))")
    case True
    then have "st_orders (upsert_order new change t) = map (\<lambda>r. if po_id r = po_id new then change r else r) (st_orders t)"
      by (simp add: upsert_order_def)
    then have u: "find (\<lambda>r. po_id r = j) (st_orders (upsert_order new change t)) =
        map_option (\<lambda>r. if po_id r = po_id new then change r else r) (find (\<lambda>r. po_id r = j) (st_orders t))" by (simp add: m)
    show ?thesis
    proof (cases "find (\<lambda>r. po_id r = j) (st_orders t)")
      case None
      then have "j \<noteq> po_id new" using f True by blast
      with u None show ?thesis by simp
    next
      case (Some r)
      from k [OF this] u Some show ?thesis by (cases "j = po_id new") simp_all
    qed
  next
    case False
    then have "st_orders (upsert_order new change t) = st_orders t @ [new]" by (simp add: upsert_order_def)
    then have u: "find (\<lambda>r. po_id r = j) (st_orders (upsert_order new change t)) =
        (case find (\<lambda>r. po_id r = j) (st_orders t) of None \<Rightarrow> if po_id new = j then Some new else None | Some r \<Rightarrow> Some r)"
      by (simp only: a)
    show ?thesis
    proof (cases "find (\<lambda>r. po_id r = j) (st_orders t)")
      case None
      with u show ?thesis by (cases "j = po_id new") simp_all
    next
      case (Some r)
      then have "j \<noteq> po_id new" using f [of "st_orders t"] False by (metis option.distinct(1))
      with u Some show ?thesis by simp
    qed
  qed
qed

definition order_rec :: "sales_tables \<Rightarrow> uuid \<Rightarrow> sales_order_rec option" where
  "order_rec t i = find (\<lambda>r. po_id r = i) (st_orders t)"

lemma order_rec_id: "order_rec t i = Some r \<Longrightarrow> po_id r = i"
  by (auto simp: order_rec_def find_Some_iff)

lemma order_rec_upsert:
  assumes "\<And>r. po_id (change r) = po_id r"
  shows "order_rec (upsert_order new change t) j =
    (if j = po_id new then Some (case order_rec t j of None \<Rightarrow> new | Some r \<Rightarrow> change r) else order_rec t j)"
  unfolding order_rec_def by (rule find_upsert [OF assms])

lemma sort_key_map: "sort_key f (map g xs) = map g (sort_key (\<lambda>x. f (g x)) xs)"
proof -
  have "insort_key f (g x) (map g ys) = map g (insort_key (\<lambda>x. f (g x)) x ys)" for x ys by (induction ys) auto
  then show ?thesis by (induction xs) (auto simp: sort_key_def)
qed

lemma rowsOf_kept:
  assumes "uuid_ok U" and "pe_uuid E = U" and "rows_in t i = map (kept_rec C i) rows"
  shows "rowsOf E i t = by_beer U (map (kept_row C) (map (row_dto U) rows))"
  using assms
  by (simp add: rowsOf_def rows_in_def by_beer_def sort_key_map row_dto_def kept_rec_def kept_row_def NewQuantity_def
      kept_price_def NewPrice_def comp_def)

lemma rowsOf_cong: "rows_in t i = rows_in t' i \<Longrightarrow> rowsOf E i t = rowsOf E i t'"
  by (simp add: rowsOf_def rows_in_def)

text \<open>The exact effect of a projection that succeeds.\<close>

lemma created_kept:
  assumes "uuid_ok U" and "pe_uuid E = U" and "pe_columns E = C"
    and "pg_project_sales E (SalesOrderCreated b i n d ci cn rows) t = (Inr (), t')"
  shows "order_rec t' j = (if j = i then Some (case order_rec t i of
        None \<Rightarrow> \<lparr>po_id = i, po_number = n, po_date = col_time C d, po_customer = ci, po_customer_name = cn, po_status = ''pending'',
          po_reason = [], po_projected_at = pe_now E\<rparr>
      | Some r \<Rightarrow> r\<lparr>po_number := n, po_date := col_time C d, po_customer := ci, po_customer_name := cn\<rparr>) else order_rec t j)"
    and "rows_in t' j = (if j = i then map (kept_rec C i) rows else rows_in t j)"
proof -
  let ?new = "\<lparr>po_id = i, po_number = n, po_date = col_time C d, po_customer = ci, po_customer_name = cn, po_status = ''pending'',
      po_reason = [], po_projected_at = pe_now E\<rparr>"
  let ?ch = "\<lambda>r. r\<lparr>po_number := n, po_date := col_time C d, po_customer := ci, po_customer_name := cn\<rparr>"
  let ?t1 = "upsert_order ?new ?ch t"
  let ?t2 = "?t1\<lparr>st_rows := filter (\<lambda>r. pr_order r \<noteq> i) (st_rows ?t1)\<rparr>"
  obtain q t3 where loop: "for_each (insert_sales_row E i) (map (row_dto U) rows) ?t2 = (q, t3)" by fastforce
  have q: "q = Inr ()" and t3: "t' = t3"
    using assms loop
    by (cases q; auto simp: pg_CreateSalesOrder_def Let_def pg_error_def split: option.splits if_splits)+
  have t': "t' = ?t2\<lparr>st_rows := st_rows ?t2 @ map (kept_rec C i) rows\<rparr>"
    using insert_rows_kept [OF assms(1-3)] loop q t3 by blast
  show "order_rec t' j = (if j = i then Some (case order_rec t i of None \<Rightarrow> ?new | Some r \<Rightarrow> ?ch r) else order_rec t j)"
    using order_rec_upsert [of ?ch ?new t j] by (simp add: t' order_rec_def)
  have own: "filter (\<lambda>r. pr_order r = j) (map (kept_rec C i) rows) = (if j = i then map (kept_rec C i) rows else [])"
    by (auto simp: filter_empty_conv kept_rec_def)
  have old: "filter (\<lambda>r. pr_order r = j) (filter (\<lambda>r. pr_order r \<noteq> i) xs) = (if j = i then [] else filter (\<lambda>r. pr_order r = j) xs)" for xs
    by (induction xs) auto
  show "rows_in t' j = (if j = i then map (kept_rec C i) rows else rows_in t j)"
    using own old [of "st_rows t"] by (simp add: t' rows_in_def upsert_order_def)
qed

lemma status_kept:
  assumes "uuid_ok U" and "pe_uuid E = U"
    and "pg_UpdateAllocationStatus E (UString U i) status reason t = (Inr (), t')"
  shows "order_rec t i = Some r \<Longrightarrow> order_rec t' i = Some (r\<lparr>po_status := status, po_reason := reason\<rparr>)"
    and "j \<noteq> i \<Longrightarrow> order_rec t' j = order_rec t j" and "rows_in t' j = rows_in t j"
proof -
  let ?new = "\<lparr>po_id = i, po_number = [], po_date = pe_now E, po_customer = pe_random E, po_customer_name = [],
      po_status = status, po_reason = reason, po_projected_at = pe_now E\<rparr>"
  let ?ch = "\<lambda>r. r\<lparr>po_status := status, po_reason := reason\<rparr>"
  have t': "t' = upsert_order ?new ?ch t"
    using assms by (simp add: pg_UpdateAllocationStatus_def pg_error_def split: option.splits if_splits)
  show "order_rec t i = Some r \<Longrightarrow> order_rec t' i = Some (?ch r)" and "j \<noteq> i \<Longrightarrow> order_rec t' j = order_rec t j"
    using order_rec_upsert [of ?ch ?new t i] order_rec_upsert [of ?ch ?new t j] by (simp_all add: t')
  show "rows_in t' j = rows_in t j" by (simp add: t' rows_in_def upsert_order_def)
qed

lemma project_kept_other:
  assumes "uuid_ok U" and "pe_uuid E = U" and "pe_columns E = C" and "pg_project_sales E e t = (Inr (), t')" and "se_SalesOrderId e \<noteq> j"
  shows "order_rec t' j = order_rec t j \<and> rows_in t' j = rows_in t j"
proof (cases e)
  case (SalesOrderCreated b i n d ci cn rows)
  from created_kept [OF assms(1-3) assms(4) [unfolded this], of j] assms(5) show ?thesis by (simp add: SalesOrderCreated)
qed (use assms status_kept [OF assms(1,2)] in auto)


text \<open>
  The two read models agree on an order: both have it or neither, with the same status and
  the same rows up to what the columns keep of them, and with the same data once its
  creation was projected. Before that the stub of the durable one carries a made-up date and
  customer.
\<close>

definition same_view :: "uuid_pkg \<Rightarrow> pg_columns \<Rightarrow> bool \<Rightarrow> sales_order_rec \<Rightarrow> SalesOrderRow list \<Rightarrow> SalesOrderDto \<Rightarrow> bool" where
  "same_view U C created r rows d \<longleftrightarrow>
     d_Id d = UString U (po_id r) \<and> po_number r = d_SalesOrderNumber d \<and> po_customer_name r = d_CustomerName d \<and>
     po_status r = d_AllocationStatus d \<and> po_reason r = d_RejectionReason d \<and> rows = by_beer U (map (kept_row C) (d_Rows d)) \<and>
     d_AllocationStatus d \<noteq> [] \<and> (d_AllocationStatus d = ''pending'' \<longrightarrow> d_RejectionReason d = []) \<and>
     (created \<longrightarrow> po_date r = col_time C (d_OrderDate d) \<and> UString U (po_customer r) = d_CustomerId d)"

definition order_agrees ::
  "uuid_pkg \<Rightarrow> pg_columns \<Rightarrow> bool \<Rightarrow> sales_order_rec option \<Rightarrow> SalesOrderRow list \<Rightarrow> SalesOrderDto option \<Rightarrow> bool" where
  "order_agrees U C created ro rows do \<longleftrightarrow>
     (case (ro, do) of
        (None, None) \<Rightarrow> rows = [] \<and> \<not> created
      | (Some r, Some d) \<Rightarrow> same_view U C created r rows d
      | _ \<Rightarrow> False)"

definition agree :: "uuid_pkg \<Rightarrow> pg_columns \<Rightarrow> pg_sales_env \<Rightarrow> uuid set \<Rightarrow> sales_tables \<Rightarrow> SalesOrderService \<Rightarrow> bool" where
  "agree U C E created t s \<longleftrightarrow>
     (\<forall>i. order_agrees U C (i \<in> created) (order_rec t i) (rowsOf E i t) (sv_orders s (UString U i)))"

lemma agreeD: "agree U C E created t s \<Longrightarrow> order_agrees U C (i \<in> created) (order_rec t i) (rowsOf E i t) (sv_orders s (UString U i))"
  by (simp add: agree_def)

lemma rowsOf_env: "pe_uuid E = pe_uuid E' \<Longrightarrow> rowsOf E i t = rowsOf E' i t"
  by (simp add: rowsOf_def)

lemma agree_env: "pe_uuid E = pe_uuid E' \<Longrightarrow> agree U C E created t s \<Longrightarrow> agree U C E' created t s"
  unfolding agree_def using rowsOf_env [of E E'] by metis

lemma by_beer_Nil [simp]: "by_beer U [] = []"
  by (simp add: by_beer_def)

text \<open>To agree after a projection it is enough to agree on the projected order.\<close>

lemma agree_upd:
  assumes "agree U C E created t s"
    and "\<And>j. j \<noteq> i \<Longrightarrow> order_rec t' j = order_rec t j \<and> rows_in t' j = rows_in t j \<and>
           sv_orders s' (UString U j) = sv_orders s (UString U j) \<and> (j \<in> created' \<longleftrightarrow> j \<in> created)"
    and "order_agrees U C (i \<in> created') (order_rec t' i) (rowsOf E i t') (sv_orders s' (UString U i))"
  shows "agree U C E created' t' s'"
  unfolding agree_def
proof
  fix j
  show "order_agrees U C (j \<in> created') (order_rec t' j) (rowsOf E j t') (sv_orders s' (UString U j))"
    using assms(2) [of j] assms(3) agreeD [OF assms(1), of j] rowsOf_cong [of t' j t E] by (cases "j = i") auto
qed

lemma status_agrees:
  assumes "agree U C E created t s" and "uuid_ok U" and "pe_uuid E = U" and "status \<noteq> []" and "status \<noteq> ''pending''"
    and run: "pg_UpdateAllocationStatus E (UString U i) status reason t = (Inr (), t')"
  shows "agree U C E created t' (snd (UpdateAllocationStatus (UString U i) status reason s))"
proof -
  let ?new = "\<lparr>po_id = i, po_number = [], po_date = pe_now E, po_customer = pe_random E, po_customer_name = [],
      po_status = status, po_reason = reason, po_projected_at = pe_now E\<rparr>"
  let ?ch = "\<lambda>r. r\<lparr>po_status := status, po_reason := reason\<rparr>"
  let ?s = "snd (UpdateAllocationStatus (UString U i) status reason s)"
  have t': "t' = upsert_order ?new ?ch t"
    using run assms(2,3) by (simp add: pg_UpdateAllocationStatus_def pg_error_def split: option.splits if_splits)
  have rec: "order_rec t' j = (if j = i then Some (case order_rec t j of None \<Rightarrow> ?new | Some r \<Rightarrow> ?ch r) else order_rec t j)" for j
    using order_rec_upsert [of ?ch ?new t j] by (simp add: t')
  note rows = status_kept(3) [OF assms(2,3) run]
  have mem: "sv_orders ?s (UString U i) = Some ((case sv_orders s (UString U i) of None \<Rightarrow> zero_SalesOrderDto\<lparr>d_Id := UString U i\<rparr> | Some d \<Rightarrow> d)
      \<lparr>d_AllocationStatus := status, d_RejectionReason := reason\<rparr>)"
    by (simp add: UpdateAllocationStatus_def Let_def split: option.split)
  show ?thesis
  proof (rule agree_upd [OF assms(1), where i = i])
    show "order_rec t' j = order_rec t j \<and> rows_in t' j = rows_in t j \<and>
        sv_orders ?s (UString U j) = sv_orders s (UString U j) \<and> (j \<in> created \<longleftrightarrow> j \<in> created)" if "j \<noteq> i" for j
      using that by (simp add: rec rows UpdateAllocationStatus_def Let_def uuid_ok_inj [OF assms(2)] split: option.split)
    show "order_agrees U C (i \<in> created) (order_rec t' i) (rowsOf E i t') (sv_orders ?s (UString U i))"
      using agreeD [OF assms(1), of i] assms(4,5) rowsOf_cong [OF rows, of E i]
      by (cases "order_rec t i"; cases "sv_orders s (UString U i)")
        (simp_all add: order_agrees_def rec mem same_view_def zero_SalesOrderDto_def)
  qed
qed

lemma created_agrees:
  assumes "agree U C E created t s" and "uuid_ok U" and "pe_uuid E = U" and "pe_columns E = C"
    and run: "pg_project_sales E (SalesOrderCreated b i n d ci cn rows) t = (Inr (), t')"
  defines "dto \<equiv> \<lparr>d_Id = UString U i, d_SalesOrderNumber = n, d_OrderDate = d, d_CustomerId = UString U ci, d_CustomerName = cn,
      d_Rows = map (row_dto U) rows, d_AllocationStatus = [], d_RejectionReason = []\<rparr>"
  shows "agree U C E (insert i created) t' (snd (service_CreateSalesOrder dto s))"
proof -
  let ?s = "snd (service_CreateSalesOrder dto s)"
  note kept = created_kept [OF assms(2-4) run]
  have rows_i: "rowsOf E i t' = by_beer U (map (kept_row C) (map (row_dto U) rows))"
    by (rule rowsOf_kept [OF assms(2,3)]) (simp add: kept(2))
  show ?thesis
  proof (rule agree_upd [OF assms(1), where i = i])
    show "order_rec t' j = order_rec t j \<and> rows_in t' j = rows_in t j \<and>
        sv_orders ?s (UString U j) = sv_orders s (UString U j) \<and> (j \<in> insert i created \<longleftrightarrow> j \<in> created)" if "j \<noteq> i" for j
      using that by (simp add: kept dto_def service_CreateSalesOrder_def Let_def uuid_ok_inj [OF assms(2)])
    show "order_agrees U C (i \<in> insert i created) (order_rec t' i) (rowsOf E i t') (sv_orders ?s (UString U i))"
      using agreeD [OF assms(1), of i] order_rec_id [of t i]
      by (cases "order_rec t i"; cases "sv_orders s (UString U i)")
        (simp_all add: order_agrees_def kept(1) rows_i same_view_def dto_def service_CreateSalesOrder_def Let_def)
  qed
qed

definition created_in :: "sales_event list \<Rightarrow> uuid set" where
  "created_in es = se_SalesOrderId ` {e \<in> set es. is_created e}"

lemma event_agrees:
  assumes "agree U C E created t s" and "uuid_ok U" and "pe_uuid E = U" and "pe_columns E = C"
    and run: "pg_project_sales E e t = (Inr (), t')"
  shows "agree U C E (if is_created e then insert (se_SalesOrderId e) created else created) t' (snd (project_sales U e s))"
proof (cases e)
  case (SalesOrderCreated b i n d ci cn rows)
  with created_agrees [OF assms(1-4) run [unfolded SalesOrderCreated]] show ?thesis
    by (simp add: OnSalesOrderCreated_projection_def is_created_def)
next
  case (SalesOrderAllocated b i)
  with status_agrees [OF assms(1-3), of "''allocated''" i "[]" t'] run assms(3) show ?thesis
    by (simp add: is_created_def)
next
  case (SalesOrderAllocationRejected b i r)
  with status_agrees [OF assms(1-3), of "''rejected''" i r t'] run assms(3) show ?thesis
    by (simp add: is_created_def)
qed

lemma events_agree:
  assumes "uuid_ok U" and "\<forall>(E, e) \<in> set xs. pe_uuid E = U \<and> pe_columns E = C" and "pe_uuid E0 = U"
    and "agree U C E0 created t s" and "for_each (\<lambda>(E, e). pg_project_sales E e) xs t = (Inr (), t')"
  shows "agree U C E0 (created \<union> created_in (map snd xs)) t' (snd (project_all U (map snd xs) s))"
  using assms(2,4,5)
proof (induction xs arbitrary: created t s)
  case Nil
  then show ?case by (simp add: project_all_def created_in_def)
next
  case (Cons x xs)
  obtain E e where x: "x = (E, e)" by fastforce
  with Cons.prems(1) have E: "pe_uuid E = U" "pe_columns E = C" by auto
  then have same: "pe_uuid E0 = pe_uuid E" using assms(3) by simp
  let ?c = "if is_created e then insert (se_SalesOrderId e) created else created"
  obtain r t1 where t1: "pg_project_sales E e t = (r, t1)" by fastforce
  have "r = Inr ()" and rest: "for_each (\<lambda>(E, e). pg_project_sales E e) xs t1 = (Inr (), t')"
    using Cons.prems(3) t1 by (cases r; simp add: x)+
  with t1 have a: "agree U C E0 ?c t1 (snd (project_sales U e s))"
    using event_agrees [OF agree_env [OF same Cons.prems(2)] assms(1) E] agree_env [OF same [symmetric]] by blast
  have s': "snd (project_all U (map snd (x # xs)) s) = snd (project_all U (map snd xs) (snd (project_sales U e s)))"
  proof -
    obtain s1 where "project_sales U e s = (Inr (), s1)" using project_sales_ok [of U e s] by (metis prod.collapse)
    then show ?thesis by (simp add: project_all_def x)
  qed
  have "?c \<union> created_in (map snd xs) = created \<union> created_in (map snd (x # xs))"
    by (auto simp: created_in_def x)
  with Cons.IH [OF _ a rest] Cons.prems(1) s' show ?case by simp
qed

lemma events_fit:
  assumes "uuid_ok U" and "\<forall>(E, e) \<in> set xs. env_ok U E \<and> event_fits E e"
  shows "fst (for_each (\<lambda>(E, e). pg_project_sales E e) xs t) = Inr ()"
  using assms(2)
proof (induction xs arbitrary: t)
  case (Cons x xs)
  obtain E e where x: "x = (E, e)" by fastforce
  have "fst (pg_project_sales E e t) = Inr ()" by (rule project_fits [OF assms(1)]) (use Cons.prems x in auto)
  then obtain t1 where "pg_project_sales E e t = (Inr (), t1)" by (metis prod.collapse)
  with Cons x show ?case by simp
qed simp

text \<open>
  C39. The durable read model of Sales refines the in-memory one. Take any deliveries, in any
  order and with any repetitions, that the durable projections write without an error: a
  query for an order whose creation was among them returns the view that the in-memory read
  model has after the same deliveries, as the columns keep it. That is, the order date is
  in the precision of \<^verbatim>\<open>timestamptz\<close>, prices are rounded to two decimals, currencies padded to
  three characters and the rows sorted by beer; everything else is equal. The projections do
  write without an error when no statement fails and the values are within the limits of
  the columns.
\<close>

theorem durable_sales_view_agrees:
  assumes "uuid_ok U" and "\<forall>(E, e) \<in> set xs. pe_uuid E = U \<and> pe_columns E = C" and "env_ok U E0"
    and "i \<in> created_in (map snd xs)"
    and "for_each (\<lambda>(E, e). pg_project_sales E e) xs \<lparr>st_orders = [], st_rows = []\<rparr> = (r, t)"
  shows "(r = Inr () \<longrightarrow>
      (\<exists>d. GetSalesOrder (UString U i) (snd (project_all U (map snd xs) NewSalesOrderService)) = Inr d \<and>
         pg_GetSalesOrder E0 (UString U i) t = Inr (kept_order U C d))) \<and>
    ((\<forall>(E, e) \<in> set xs. env_ok U E \<and> event_fits E e) \<longrightarrow> r = Inr ())"
proof (intro conjI impI)
  let ?t0 = "\<lparr>st_orders = [], st_rows = []\<rparr>"
  let ?s = "snd (project_all U (map snd xs) NewSalesOrderService)"
  assume "r = Inr ()"
  have U: "pe_uuid E0 = U" and nof: "\<And>k. pe_flt E0 k = None" using assms(3) by (simp_all add: env_ok_def)
  have "agree U C E0 {} ?t0 NewSalesOrderService"
    by (simp add: agree_def order_agrees_def order_rec_def rowsOf_def NewSalesOrderService_def)
  from events_agree [OF assms(1,2) U this assms(5) [unfolded \<open>r = Inr ()\<close>]]
  have a: "agree U C E0 (created_in (map snd xs)) t ?s" by simp
  from agreeD [OF a, of i] assms(4) obtain q d where q: "order_rec t i = Some q"
    and d: "sv_orders ?s (UString U i) = Some d" and v: "same_view U C True q (rowsOf E0 i t) d"
    by (auto simp: order_agrees_def split: option.splits)
  have "order_dto E0 q t = kept_order U C d"
    using v order_rec_id [OF q] by (simp add: order_dto_def same_view_def kept_order_def U)
  then show "\<exists>d. GetSalesOrder (UString U i) ?s = Inr d \<and> pg_GetSalesOrder E0 (UString U i) t = Inr (kept_order U C d)"
    using d q by (simp add: GetSalesOrder_def pg_GetSalesOrder_def nof U assms(1) order_rec_def)
next
  assume "\<forall>(E, e) \<in> set xs. env_ok U E \<and> event_fits E e"
  from events_fit [OF assms(1) this] assms(5) show "r = Inr ()" by (metis fst_conv)
qed

definition demo_sales_env :: pg_sales_env where
  "demo_sales_env = \<lparr>pe_uuid = hex_uuid, pe_columns = \<lparr>col_price = Some, col_time = (\<lambda>t. t div 1000 * 1000)\<rparr>, pe_now = 7, pe_random = 99, pe_flt = (\<lambda>_. None)\<rparr>"

definition demo_deliveries :: "(pg_sales_env \<times> sales_event) list" where
  "demo_deliveries =
     [(demo_sales_env, NewSalesOrderAllocated 1 3),
      (demo_sales_env, NewSalesOrderCreated 1 2 ''20240001'' 1234567 8 ''Muflone Pub''
        [\<lparr>so_BeerId = 6, so_BeerName = ''Stout'', so_Quantity = NewQuantity 10 ''Lt'', so_Price = NewPrice 0 ''E''\<rparr>,
         \<lparr>so_BeerId = 5, so_BeerName = ''IPA'', so_Quantity = NewQuantity 30 ''Lt'', so_Price = NewPrice 0 ''EUR''\<rparr>])]"

theorem durable_sales_view_agrees_witness:
  "\<exists>t d. for_each (\<lambda>(E, e). pg_project_sales E e) demo_deliveries \<lparr>st_orders = [], st_rows = []\<rparr> = (Inr (), t) \<and>
     GetSalesOrder (UString hex_uuid 1) (snd (project_all hex_uuid (map snd demo_deliveries) NewSalesOrderService)) = Inr d \<and>
     pg_GetSalesOrder demo_sales_env (UString hex_uuid 1) t = Inr (kept_order hex_uuid (pe_columns demo_sales_env) d)"
proof -
  obtain r t where run: "for_each (\<lambda>(E, e). pg_project_sales E e) demo_deliveries \<lparr>st_orders = [], st_rows = []\<rparr> = (r, t)"
    by fastforce
  have "\<forall>(E, e) \<in> set demo_deliveries. env_ok hex_uuid E \<and> event_fits E e"
    by (simp add: demo_deliveries_def env_ok_def demo_sales_env_def msg_defs go_defs row_fits_def fits_integer_def char_count_def)
  moreover have "\<forall>(E, e) \<in> set demo_deliveries. pe_uuid E = hex_uuid \<and> pe_columns E = pe_columns demo_sales_env"
    by (simp add: demo_deliveries_def demo_sales_env_def)
  moreover have "env_ok hex_uuid demo_sales_env" by (simp add: env_ok_def demo_sales_env_def)
  moreover have "1 \<in> created_in (map snd demo_deliveries)"
    by (simp add: created_in_def demo_deliveries_def msg_defs is_created_def image_iff ex_disj_distrib conj_disj_distribR)
  ultimately show ?thesis using durable_sales_view_agrees [OF hex_uuid_ok _ _ _ run] run by blast
qed

text \<open>
  An order with two rows of one beer is stored and settled by the write model but cannot be
  projected: the primary key of the rows refuses it and the whole projection is rolled back.
\<close>

lemma duplicate_beer_not_projected:
  assumes "uuid_ok U" and "env_ok U E" and "row_fits E row" and "row_fits E row'" and "so_BeerId row = so_BeerId row'"
  shows "failed (fst (pg_project_sales E (SalesOrderCreated b i n d ci cn [row, row']) t)) \<and>
    snd (pg_project_sales E (SalesOrderCreated b i n d ci cn [row, row']) t) = t"
proof -
  have U: "pe_uuid E = U" and nof: "\<And>k. pe_flt E k = None" using assms(2) by (simp_all add: env_ok_def)
  define t2 where "t2 = (let t1 = upsert_order
      \<lparr>po_id = i, po_number = n, po_date = col_time (pe_columns E) d, po_customer = ci, po_customer_name = cn, po_status = ''pending'',
       po_reason = [], po_projected_at = pe_now E\<rparr>
      (\<lambda>r. r\<lparr>po_number := n, po_date := col_time (pe_columns E) d, po_customer := ci, po_customer_name := cn\<rparr>) t
    in t1\<lparr>st_rows := filter (\<lambda>r. pr_order r \<noteq> i) (st_rows t1)\<rparr>)"
  let ?t3 = "t2\<lparr>st_rows := st_rows t2 @ [kept_rec (pe_columns E) i row]\<rparr>"
  have "insert_sales_row E i (row_dto U row) t2 = (Inr (), ?t3)"
    by (rule insert_row_fits [OF assms(1-3)]) (auto simp: t2_def Let_def)
  moreover have "insert_sales_row E i (row_dto U row') ?t3 = (Inl (ErrOther ''duplicate key value violates unique constraint''), ?t3)"
    using assms(1,5) by (simp add: insert_sales_row_def row_dto_def kept_rec_def pg_error_def U)
  ultimately have "for_each (insert_sales_row E i) (map (row_dto U) [row, row']) t2 =
      (Inl (ErrOther ''duplicate key value violates unique constraint''), ?t3)" by simp
  then show ?thesis
    unfolding t2_def Let_def using assms(1) by (simp add: pg_CreateSalesOrder_def pg_error_def Let_def U nof)
qed

end
