(* ===== verification/Outbox.thy ===== *)
theory Outbox
  imports Postgres_Store
begin

text \<open>
  \<^verbatim>\<open>src/internal/muflone/outbox.go\<close>: the relay that publishes the outbox rows and deletes them.
  Its state is the database and the messages put on the wire. What the outside may do during
  one tick is a parameter: which statement of the transaction fails, which rows another
  relay holds locked (\<^verbatim>\<open>FOR UPDATE SKIP LOCKED\<close>) and which messages the publisher refuses.
  Deletes happen in the transaction and are undone when it does not commit; a published
  message cannot be taken back.
\<close>

section \<open>One dispatch\<close>

datatype relay_stmt = RelayBegin | RelaySelect | RelayScan nat | RelayDelete nat | RelayCommit

type_synonym 'p raw_wire = "string \<times> 'p"

record 'p relay_tick =
  tk_fault :: "relay_stmt \<Rightarrow> string option"
  tk_locked :: "nat \<Rightarrow> bool"
  tk_refuses :: "'p raw_wire list \<Rightarrow> 'p raw_wire \<Rightarrow> go_error option"

type_synonym 'p relay_state = "'p pg_db \<times> 'p raw_wire list"

abbreviation row_wire :: "'p outbox_row \<Rightarrow> 'p raw_wire" where
  "row_wire row \<equiv> (ob_topic row, ob_payload row)"

definition pending_rows :: "(nat \<Rightarrow> bool) \<Rightarrow> 'p pg_db \<Rightarrow> 'p outbox_row list" where
  "pending_rows locked db = take 100 (filter (\<lambda>row. \<not> locked (ob_id row)) (sort_key ob_id (pg_outbox db)))"

definition scan_fault :: "'p relay_tick \<Rightarrow> nat \<Rightarrow> string option" where
  "scan_fault tick n = (case filter (\<lambda>i. tk_fault tick (RelayScan i) \<noteq> None) [0..<n] of [] \<Rightarrow> None | i # _ \<Rightarrow> tk_fault tick (RelayScan i))"

definition delete_row :: "nat \<Rightarrow> 'p pg_db \<Rightarrow> 'p pg_db" where
  "delete_row i db = db\<lparr>pg_outbox := filter (\<lambda>row. ob_id row \<noteq> i) (pg_outbox db)\<rparr>"

definition dispatch_row :: "'p relay_tick \<Rightarrow> 'p outbox_row \<Rightarrow> 'p relay_state \<Rightarrow> ('p relay_state, unit) outcome" where
  "dispatch_row tick row w =
     (case w of (tx, sent) \<Rightarrow>
      case tk_refuses tick sent (row_wire row) of
        Some err \<Rightarrow> (Inl err, (tx, sent))
      | None \<Rightarrow>
          (case tk_fault tick (RelayDelete (ob_id row)) of
             Some msg \<Rightarrow> (Inl (ErrOther msg), (tx, sent @ [row_wire row]))
           | None \<Rightarrow> (Inr (), (delete_row (ob_id row) tx, sent @ [row_wire row]))))"

definition DispatchPending :: "'p relay_tick \<Rightarrow> 'p relay_state \<Rightarrow> ('p relay_state, nat) outcome" where
  "DispatchPending tick w =
     (case w of (db, sent) \<Rightarrow>
      case tk_fault tick RelayBegin of Some msg \<Rightarrow> (Inl (ErrOther msg), w) | None \<Rightarrow>
      case tk_fault tick RelaySelect of Some msg \<Rightarrow> (Inl (ErrOther msg), w) | None \<Rightarrow>
      let pending = pending_rows (tk_locked tick) db in
      case scan_fault tick (length pending) of Some msg \<Rightarrow> (Inl (ErrOther msg), w) | None \<Rightarrow>
      (case for_each (dispatch_row tick) pending (db, sent) of
         (Inl err, (tx, sent')) \<Rightarrow> (Inl err, (db, sent'))
       | (Inr _, (tx, sent')) \<Rightarrow>
           (case tk_fault tick RelayCommit of
              Some msg \<Rightarrow> (Inl (ErrOther msg), (db, sent'))
            | None \<Rightarrow> (Inr (length pending), (tx, sent')))))"

text \<open>\<^verbatim>\<open>Run\<close>: one dispatch per tick, errors only logged.\<close>

fun relay_Run :: "'p relay_tick list \<Rightarrow> 'p relay_state \<Rightarrow> 'p relay_state" where
  "relay_Run [] w = w"
| "relay_Run (tick # ticks) w = relay_Run ticks (snd (DispatchPending tick w))"

section \<open>Nothing is lost\<close>

lemma dispatch_rows_effect:
  "\<exists>k. snd (snd (for_each (dispatch_row tick) rows (db, sent))) = sent @ map row_wire (take k rows) \<and> k \<le> length rows \<and>
     (fst (for_each (dispatch_row tick) rows (db, sent)) = Inr () \<longrightarrow> k = length rows \<and>
        fst (snd (for_each (dispatch_row tick) rows (db, sent))) =
          db\<lparr>pg_outbox := filter (\<lambda>row. ob_id row \<notin> ob_id ` set rows) (pg_outbox db)\<rparr>)"
proof (induction rows arbitrary: db sent)
  case (Cons row rows)
  obtain r tx sent1 where d: "dispatch_row tick row (db, sent) = (r, (tx, sent1))" by (metis prod.collapse)
  show ?case
  proof (cases r)
    case (Inl err)
    then have "sent1 = sent @ map row_wire (take 0 (row # rows)) \<or> sent1 = sent @ map row_wire (take 1 (row # rows))"
      using d by (auto simp: dispatch_row_def split: option.splits)
    with d Inl show ?thesis by (auto intro: exI [of _ 0] exI [of _ 1])
  next
    case (Inr u)
    then have t: "tx = delete_row (ob_id row) db" "sent1 = sent @ [row_wire row]"
      using d by (auto simp: dispatch_row_def split: option.splits)
    from Cons.IH [of tx sent1] obtain k where
      k: "snd (snd (for_each (dispatch_row tick) rows (tx, sent1))) = sent1 @ map row_wire (take k rows)" "k \<le> length rows"
        "fst (for_each (dispatch_row tick) rows (tx, sent1)) = Inr () \<Longrightarrow> k = length rows \<and>
           fst (snd (for_each (dispatch_row tick) rows (tx, sent1))) =
             tx\<lparr>pg_outbox := filter (\<lambda>row. ob_id row \<notin> ob_id ` set rows) (pg_outbox tx)\<rparr>" by blast
    have f: "filter (\<lambda>r. ob_id r \<notin> ob_id ` set rows) (filter (\<lambda>r. ob_id r \<noteq> ob_id row) (pg_outbox db)) =
        filter (\<lambda>r. ob_id r \<notin> ob_id ` set (row # rows)) (pg_outbox db)"
      by (auto intro: filter_cong)
    show ?thesis using d Inr t k f by (intro exI [of _ "Suc k"]) (auto simp: delete_row_def)
  qed
qed simp

lemma dispatch_effect:
  assumes "DispatchPending tick (db, sent) = (r, (db', sent'))"
  shows "\<exists>k. sent' = sent @ map row_wire (take k (pending_rows (tk_locked tick) db)) \<and>
    (case r of Inl _ \<Rightarrow> db' = db
     | Inr n \<Rightarrow> n = length (pending_rows (tk_locked tick) db) \<and> k = n \<and>
         db' = db\<lparr>pg_outbox := filter (\<lambda>row. ob_id row \<notin> ob_id ` set (pending_rows (tk_locked tick) db)) (pg_outbox db)\<rparr>)"
proof -
  let ?rows = "pending_rows (tk_locked tick) db"
  obtain k where k: "snd (snd (for_each (dispatch_row tick) ?rows (db, sent))) = sent @ map row_wire (take k ?rows)"
    "fst (for_each (dispatch_row tick) ?rows (db, sent)) = Inr () \<Longrightarrow> k = length ?rows \<and>
       fst (snd (for_each (dispatch_row tick) ?rows (db, sent))) =
         db\<lparr>pg_outbox := filter (\<lambda>row. ob_id row \<notin> ob_id ` set ?rows) (pg_outbox db)\<rparr>"
    using dispatch_rows_effect [of tick ?rows db sent] by blast
  obtain q tx s1 where loop: "for_each (dispatch_row tick) ?rows (db, sent) = (q, (tx, s1))" by (metis prod.collapse)
  have early: "sent = sent @ map row_wire (take 0 ?rows)" by simp
  show ?thesis
    using assms k unfolding DispatchPending_def Let_def loop prod.case
    by (cases q) (auto split: option.splits intro: exI [of _ 0] exI [of _ k])
qed

lemma pending_subset: "set (pending_rows locked db) \<subseteq> set (pg_outbox db)"
  unfolding pending_rows_def using set_take_subset by fastforce

definition ids_unique :: "'p pg_db \<Rightarrow> bool" where
  "ids_unique db \<longleftrightarrow> distinct (map ob_id (pg_outbox db))"

lemma dispatch_keeps:
  assumes "DispatchPending tick (db, sent) = (r, (db', sent'))" and "ids_unique db"
  shows "ids_unique db'" and "set (pg_outbox db') \<subseteq> set (pg_outbox db)" and "prefix sent sent'"
    and "row \<in> set (pg_outbox db) \<Longrightarrow> row \<in> set (pg_outbox db') \<or> row_wire row \<in> set sent'"
    and "set sent' \<subseteq> set sent \<union> row_wire ` set (pg_outbox db)"
proof -
  let ?rows = "pending_rows (tk_locked tick) db"
  obtain k where k: "sent' = sent @ map row_wire (take k ?rows)"
    and r: "case r of Inl _ \<Rightarrow> db' = db | Inr n \<Rightarrow> n = length ?rows \<and> k = n \<and>
         db' = db\<lparr>pg_outbox := filter (\<lambda>row. ob_id row \<notin> ob_id ` set ?rows) (pg_outbox db)\<rparr>"
    using dispatch_effect [OF assms(1)] by blast
  have key: "x = y" if "x \<in> set (pg_outbox db)" "y \<in> set (pg_outbox db)" "ob_id x = ob_id y" for x y
    using assms(2) that by (auto simp: ids_unique_def distinct_map inj_on_def)
  show "ids_unique db'" and "set (pg_outbox db') \<subseteq> set (pg_outbox db)"
    using r assms(2) by (cases r; auto simp: ids_unique_def distinct_map_filter)+
  show "prefix sent sent'" by (simp add: k)
  show "row \<in> set (pg_outbox db') \<or> row_wire row \<in> set sent'" if "row \<in> set (pg_outbox db)"
  proof (cases r)
    case (Inr n)
    show ?thesis
    proof (cases "ob_id row \<in> ob_id ` set ?rows")
      case True
      then obtain y where y: "y \<in> set ?rows" "ob_id row = ob_id y" by blast
      then have "row = y" using key [OF that] pending_subset by blast
      with y(1) r Inr show ?thesis by (simp add: k)
    qed (use r Inr that in simp)
  qed (use r that in simp)
  show "set sent' \<subseteq> set sent \<union> row_wire ` set (pg_outbox db)"
    using pending_subset [of "tk_locked tick" db] set_take_subset [of k ?rows] by (auto simp: k)
qed


text \<open>
  C34. The outbox never loses a message and the relay never invents one: however many ticks run,
  whichever statements fail, rows are locked by other relays or messages are refused, every
  message that was in the outbox is still there or has been put on the wire, and everything
  the relay put on the wire came from the outbox.
\<close>

theorem relay_never_loses:
  assumes "ids_unique db" and "relay_Run ticks (db, sent) = (db', sent')"
  shows "(\<forall>row \<in> set (pg_outbox db). row \<in> set (pg_outbox db') \<or> row_wire row \<in> set sent') \<and>
    prefix sent sent' \<and> set sent' \<subseteq> set sent \<union> row_wire ` set (pg_outbox db)"
  using assms
proof (induction ticks arbitrary: db sent)
  case (Cons tick ticks)
  obtain r db1 sent1 where d: "DispatchPending tick (db, sent) = (r, (db1, sent1))" by (metis prod.collapse)
  note keep = dispatch_keeps [OF d Cons.prems(1)]
  have IH: "(\<forall>row \<in> set (pg_outbox db1). row \<in> set (pg_outbox db') \<or> row_wire row \<in> set sent') \<and>
      prefix sent1 sent' \<and> set sent' \<subseteq> set sent1 \<union> row_wire ` set (pg_outbox db1)"
    by (rule Cons.IH [OF keep(1)]) (use Cons.prems(2) d in simp)
  then have sub: "set sent1 \<subseteq> set sent'" by (auto simp: prefix_def)
  have "row \<in> set (pg_outbox db') \<or> row_wire row \<in> set sent'" if "row \<in> set (pg_outbox db)" for row
    using keep(4) [OF that] IH sub by blast
  moreover have "prefix sent sent'" using keep(3) IH prefix_order.trans by blast
  moreover have "set sent' \<subseteq> set sent \<union> row_wire ` set (pg_outbox db)" using IH keep(2,5) by blast
  ultimately show ?case by blast
qed simp

definition demo_outbox :: "nat pg_db" where
  "demo_outbox = \<lparr>pg_events = [], pg_outbox = [\<lparr>ob_id = 1, ob_topic = ''t'', ob_payload = 7\<rparr>], pg_outbox_seq = 1, pg_calls = 0\<rparr>"

definition refusing_tick :: "nat relay_tick" where
  "refusing_tick = \<lparr>tk_fault = (\<lambda>_. None), tk_locked = (\<lambda>_. False), tk_refuses = (\<lambda>_ _. Some (ErrOther ''broker down''))\<rparr>"

theorem relay_never_loses_witness:
  "\<lparr>ob_id = 1, ob_topic = ''t'', ob_payload = 7\<rparr> \<in> set (pg_outbox (fst (relay_Run [refusing_tick] (demo_outbox, [])))) \<or>
   (''t'', 7) \<in> set (snd (relay_Run [refusing_tick] (demo_outbox, [])))"
  using relay_never_loses [of demo_outbox "[refusing_tick]" "[]" "fst (relay_Run [refusing_tick] (demo_outbox, []))"
      "snd (relay_Run [refusing_tick] (demo_outbox, []))"]
  by (simp add: ids_unique_def demo_outbox_def)

section \<open>The relay catches up\<close>

definition clear_tick :: "'p relay_tick \<Rightarrow> bool" where
  "clear_tick tick \<longleftrightarrow> (\<forall>stmt. tk_fault tick stmt = None) \<and> (\<forall>i. \<not> tk_locked tick i) \<and> (\<forall>sent m. tk_refuses tick sent m = None)"

lemma clear_rows: "clear_tick tick \<Longrightarrow> fst (for_each (dispatch_row tick) rows w) = Inr ()"
proof (induction rows arbitrary: w)
  case (Cons row rows)
  obtain tx sent where "w = (tx, sent)" by fastforce
  with Cons show ?case by (simp add: dispatch_row_def clear_tick_def)
qed simp

lemma clear_dispatch:
  assumes "clear_tick tick"
  shows "DispatchPending tick (db, sent) =
    (Inr (length (pending_rows (tk_locked tick) db)),
     (db\<lparr>pg_outbox := filter (\<lambda>row. ob_id row \<notin> ob_id ` set (pending_rows (tk_locked tick) db)) (pg_outbox db)\<rparr>,
      sent @ map row_wire (pending_rows (tk_locked tick) db)))"
proof -
  let ?rows = "pending_rows (tk_locked tick) db"
  obtain r db' sent' where d: "DispatchPending tick (db, sent) = (r, (db', sent'))" by (metis prod.collapse)
  have nofault: "tk_fault tick stmt = None" for stmt using assms by (simp add: clear_tick_def)
  have "scan_fault tick n = None" for n by (simp add: scan_fault_def nofault)
  then have "r = Inr (length ?rows)"
    using d clear_rows [OF assms, of ?rows "(db, sent)"]
    by (auto simp: DispatchPending_def nofault Let_def split: prod.splits sum.splits)
  with dispatch_effect [OF d] d show ?thesis by auto
qed

lemma clear_pending: "clear_tick tick \<Longrightarrow> pending_rows (tk_locked tick) db = take 100 (sort_key ob_id (pg_outbox db))"
  by (simp add: pending_rows_def clear_tick_def)

lemma filter_after_take:
  assumes "distinct (map f xs)"
  shows "filter (\<lambda>x. f x \<notin> f ` set (take n xs)) xs = drop n xs"
proof -
  have "distinct (map f (take n xs @ drop n xs))" using assms by simp
  then have disj: "f ` set (take n xs) \<inter> f ` set (drop n xs) = {}" unfolding map_append distinct_append by simp
  have "filter (\<lambda>x. f x \<notin> f ` set (take n xs)) (take n xs @ drop n xs) = drop n xs"
    unfolding filter_append using disj by (auto simp: filter_empty_conv intro!: filter_True)
  then show ?thesis by simp
qed

text \<open>
  C35. The relay delivers: with the rows numbered as the sequence numbers them, once ticks run
  undisturbed every hundred rows take one tick, and the messages go out in the order of
  their numbers, that is in the order in which the transactions enqueued them, each exactly
  once; then the outbox is empty.
\<close>

theorem relay_delivers_in_order:
  assumes "ids_unique db" and "\<forall>tick \<in> set ticks. clear_tick tick" and "length (pg_outbox db) \<le> 100 * length ticks"
  shows "relay_Run ticks (db, sent) = (db\<lparr>pg_outbox := []\<rparr>, sent @ map row_wire (sort_key ob_id (pg_outbox db)))"
  using assms
proof (induction ticks arbitrary: db sent)
  case (Cons tick ticks)
  let ?S = "sort_key ob_id (pg_outbox db)"
  have c: "clear_tick tick" using Cons.prems(2) by simp
  let ?db1 = "db\<lparr>pg_outbox := filter (\<lambda>row. ob_id row \<notin> ob_id ` set (take 100 ?S)) (pg_outbox db)\<rparr>"
  have d: "DispatchPending tick (db, sent) = (Inr (length (take 100 ?S)), (?db1, sent @ map row_wire (take 100 ?S)))"
    by (simp only: clear_dispatch [OF c] clear_pending [OF c])
  have "distinct (map ob_id ?S)"
    using Cons.prems(1) unfolding ids_unique_def by (metis distinct_map distinct_sort set_sort)
  from filter_after_take [OF this, of 100] have rest: "sort_key ob_id (pg_outbox ?db1) = drop 100 ?S"
    by (simp add: filter_sort [symmetric])
  have "ids_unique ?db1" using Cons.prems(1) by (simp add: ids_unique_def distinct_map_filter)
  moreover have "length (pg_outbox ?db1) \<le> 100 * length ticks"
  proof -
    have "length (pg_outbox ?db1) = length (drop 100 ?S)" using rest by (metis length_sort)
    with Cons.prems(3) show ?thesis by simp
  qed
  ultimately have "relay_Run ticks (?db1, sent @ map row_wire (take 100 ?S)) =
      (?db1\<lparr>pg_outbox := []\<rparr>, (sent @ map row_wire (take 100 ?S)) @ map row_wire (sort_key ob_id (pg_outbox ?db1)))"
    by (intro Cons.IH) (use Cons.prems(2) in auto)
  also have "\<dots> = (db\<lparr>pg_outbox := []\<rparr>, sent @ map row_wire ?S)"
    unfolding rest by (simp flip: map_append)
  finally show ?case using d by simp
qed simp

theorem relay_delivers_in_order_witness:
  "relay_Run [\<lparr>tk_fault = (\<lambda>_. None), tk_locked = (\<lambda>_. False), tk_refuses = (\<lambda>_ _. None)\<rparr>] (demo_outbox, []) =
     (demo_outbox\<lparr>pg_outbox := []\<rparr>, [(''t'', 7)])"
  using relay_delivers_in_order [of demo_outbox "[\<lparr>tk_fault = (\<lambda>_. None), tk_locked = (\<lambda>_. False), tk_refuses = (\<lambda>_ _. None)\<rparr>]" "[]"]
  by (simp add: demo_outbox_def ids_unique_def clear_tick_def)

end
