(* ===== verification/Durable_System.thy ===== *)
theory Durable_System
  imports Brewery_Contract Sales_Registry Postgres_Read_Model Outbox
begin

text \<open>
  The two modules together in durable mode: \<^verbatim>\<open>src/internal/app/app.go\<close> with \<^verbatim>\<open>DB_URL\<close> set. Both
  modules keep their streams in the one \<^verbatim>\<open>events\<close> table, each through its own registry, and
  publish no domain event themselves: every append puts its messages into the \<^verbatim>\<open>outbox\<close> table
  and the relay publishes them. Commands and integration events go over the bus as before.
  Projections write to the Postgres read models. A step runs one handler on one message that
  was published at some time before, or one tick of the relay, or the supervision of the
  sagas; any statement of any transaction may fail and the network may refuse any
  publication. What a concurrent transaction does to an append is the subject of
  \<open>Postgres_Store\<close>; here transactions are serial.
\<close>

section \<open>The composed system\<close>

record durable =
  du_db :: "payload pg_db"
  du_orders :: sales_tables
  du_stock :: availability_table
  du_sent :: "wire list"
  du_relayed :: "payload raw_wire list"

definition new_durable :: durable where
  "new_durable = \<lparr>du_db = empty_db, du_orders = \<lparr>st_orders = [], st_rows = []\<rparr>, du_stock = [], du_sent = [], du_relayed = []\<rparr>"

text \<open>The outside of one step: network, database, clock and fresh identifiers.\<close>

record durable_env =
  dv_net :: network
  dv_pg :: "nat \<Rightarrow> payload pg_env"
  dv_sales :: pg_sales_env
  dv_stock :: "string option"
  dv_now :: instant
  dv_id :: uuid

definition in_db ::
  "(payload pg_db \<times> wire list \<Rightarrow> (payload pg_db \<times> wire list, 'a) outcome) \<Rightarrow> durable \<Rightarrow> (durable, 'a) outcome" where
  "in_db f st = (case f (du_db st, du_sent st) of (r, (s, b)) \<Rightarrow> (r, st\<lparr>du_db := s, du_sent := b\<rparr>))"

definition over_bus :: "(wire list \<Rightarrow> (wire list, 'a) outcome) \<Rightarrow> durable \<Rightarrow> (durable, 'a) outcome" where
  "over_bus f st = (case f (du_sent st) of (r, b) \<Rightarrow> (r, st\<lparr>du_sent := b\<rparr>))"

text \<open>
  A relayed message reaches the subscriptions of its topic; each unmarshals the payload into
  its own event struct before it calls the handler.
\<close>

definition received :: "('p, 'e) event_codec \<Rightarrow> 'p raw_wire \<Rightarrow> 'e result option" where
  "received C w =
     (if prefix domainEventTopicPrefix (fst w)
      then map_option (\<lambda>unmarshal. unmarshal (snd w))
             (factories (ec_registry C) (drop (length domainEventTopicPrefix) (fst w)))
      else None)"

definition on_received ::
  "('p, 'e) event_codec \<Rightarrow> 'p raw_wire \<Rightarrow> ('e \<Rightarrow> 's \<Rightarrow> ('s, unit) outcome) \<Rightarrow> 's \<Rightarrow> ('s, unit) outcome" where
  "on_received C w f st =
     (case received C w of None \<Rightarrow> (Inr (), st) | Some (Inl err) \<Rightarrow> (Inl err, st) | Some (Inr e) \<Rightarrow> f e st)"

datatype durable_message = Direct wire | Relayed "payload raw_wire"

datatype durable_subscription =
    DSalesCommands | DSalesProjection | DSalesIntegration | DSalesOutcomes
  | DWarehouseCommands | DWarehouseProjection | DSagaTrigger | DSagaSteps

abbreviation durable_sales_repo :: "uuid_pkg \<Rightarrow> json_scalars \<Rightarrow> durable_env \<Rightarrow> (payload pg_db, wire list) sales_repository" where
  "durable_sales_repo U S V \<equiv> sales_repo (postgres_store (sales_codec U S) (dv_pg V)) None"

abbreviation durable_warehouse_store :: "uuid_pkg \<Rightarrow> durable_env \<Rightarrow> (payload pg_db, warehouse_event) EventStore" where
  "durable_warehouse_store U V \<equiv> postgres_store (warehouse_codec U) (dv_pg V)"

fun durable_deliver ::
  "uuid_pkg \<Rightarrow> json_scalars \<Rightarrow> durable_env \<Rightarrow> durable_subscription \<Rightarrow> durable_message \<Rightarrow> durable \<Rightarrow> (durable, unit) outcome" where
  "durable_deliver U S V DSalesCommands (Direct (topic, Typed (SCommand c))) st =
     in_db (sales_handle U (durable_sales_repo U S V) (dv_now V) (dv_id V) c) st"
| "durable_deliver U S V DSalesProjection (Relayed w) st =
     on_received (sales_codec U S) w (\<lambda>e st. case pg_project_sales (dv_sales V) e (du_orders st) of (r, t) \<Rightarrow> (r, st\<lparr>du_orders := t\<rparr>)) st"
| "durable_deliver U S V DSalesIntegration (Relayed w) st =
     on_received (sales_codec U S) w (\<lambda>e. over_bus (publish_created U (dv_net V) e)) st"
| "durable_deliver U S V DSalesOutcomes (Direct w) st = over_bus (on_outcome U (dv_net V) w) st"
| "durable_deliver U S V DWarehouseCommands (Direct (topic, Typed (WCommand c))) st =
     in_db (warehouse_handle U (availability_repo (durable_warehouse_store U V) None) (dv_now V) (dv_id V) c) st"
| "durable_deliver U S V DWarehouseProjection (Relayed w) st =
     on_received (warehouse_codec U) w
       (\<lambda>e st. case project_availability U (pg_UpsertAvailability U (dv_stock V)) e (du_stock st) of (r, t) \<Rightarrow> (r, st\<lparr>du_stock := t\<rparr>)) st"
| "durable_deliver U S V DSagaTrigger (Direct (topic, Raw p)) st =
     (if topic = integrationEventTopicPrefix @ SalesOrderCreatedTopic
      then in_db (OnSalesOrderCreated U (dv_net V) (saga_repo (durable_warehouse_store U V) None) (dv_now V) (dv_id V) p) st
      else (Inr (), st))"
| "durable_deliver U S V DSagaSteps (Relayed w) st =
     on_received (warehouse_codec U) w
       (\<lambda>e. in_db (saga_on_event U (dv_net V) (saga_repo (durable_warehouse_store U V) None) (dv_now V) (dv_id V) e)) st"
| "durable_deliver U S V _ _ st = (Inr (), st)"

definition durable_resume :: "uuid_pkg \<Rightarrow> durable_env \<Rightarrow> (nat \<Rightarrow> uuid) \<Rightarrow> durable \<Rightarrow> (durable, unit) outcome" where
  "durable_resume U V ids st =
     in_db (ResumeInFlight U (dv_net V) (saga_repo (durable_warehouse_store U V) None) (durable_warehouse_store U V) ids) st"

definition durable_sweep ::
  "uuid_pkg \<Rightarrow> durable_env \<Rightarrow> instant \<Rightarrow> (nat \<Rightarrow> instant) \<Rightarrow> (nat \<Rightarrow> uuid) \<Rightarrow> (nat \<Rightarrow> uuid) \<Rightarrow> durable \<Rightarrow> (durable, unit) outcome" where
  "durable_sweep U V cutoff clock ids ids' st =
     in_db (TimeoutInFlight U (dv_net V) (saga_repo (durable_warehouse_store U V) None) (durable_warehouse_store U V) cutoff clock ids ids') st"

definition durable_relay :: "payload relay_tick \<Rightarrow> durable \<Rightarrow> durable" where
  "durable_relay tick st =
     (case relay_Run [tick] (du_db st, du_relayed st) of (db, sent) \<Rightarrow> st\<lparr>du_db := db, du_relayed := sent\<rparr>)"

definition published :: "durable \<Rightarrow> durable_message set" where
  "published st = Direct ` set (du_sent st) \<union> Relayed ` set (du_relayed st)"

definition serial :: "uuid_pkg \<Rightarrow> durable_env \<Rightarrow> bool" where
  "serial U V \<longleftrightarrow> (\<forall>n. others (dv_pg V n) = (\<lambda>db. db)) \<and> pe_uuid (dv_sales V) = U"

inductive durable_reach :: "uuid_pkg \<Rightarrow> json_scalars \<Rightarrow> durable \<Rightarrow> bool" for U S where
  boot: "durable_reach U S new_durable"
| place_order: "durable_reach U S st \<Longrightarrow>
    durable_reach U S (snd (over_bus (facade_CreateSalesOrder U net orderId customerId commitId now body) st))"
| declare_production: "durable_reach U S st \<Longrightarrow>
    durable_reach U S (snd (over_bus (facade_UpdateAvailabilityDueToProductionOrder U net commitId' body') st))"
| delivery: "durable_reach U S st \<Longrightarrow> serial U V \<Longrightarrow> m \<in> published st \<Longrightarrow>
    durable_reach U S (snd (durable_deliver U S V sub m st))"
| relay: "durable_reach U S st \<Longrightarrow> durable_reach U S (durable_relay tick st)"
| resume: "durable_reach U S st \<Longrightarrow> serial U V \<Longrightarrow> durable_reach U S (snd (durable_resume U V ids st))"
| sweep: "durable_reach U S st \<Longrightarrow> serial U V \<Longrightarrow> durable_reach U S (snd (durable_sweep U V cutoff clock ids ids' st))"

section \<open>One table for both modules\<close>

text \<open>A row written by a module: in one of its streams, under the name and with the encoding of one of its events.\<close>

definition coded_row :: "('p, 'e) event_codec \<Rightarrow> string set \<Rightarrow> 'p event_row \<Rightarrow> bool" where
  "coded_row C Q er \<longleftrightarrow> er_stream_id er \<in> Q \<and> (\<exists>e. er_event_type er = ec_name C e \<and> ec_marshal C e = Inr (er_payload er))"

definition wire_of_row :: "'p event_row \<Rightarrow> 'p raw_wire" where
  "wire_of_row er = (domainEventTopicPrefix @ er_event_type er, er_payload er)"

definition backed :: "'p pg_db \<Rightarrow> 'p raw_wire \<Rightarrow> bool" where
  "backed db w \<longleftrightarrow> (\<exists>er \<in> set (pg_events db). w = wire_of_row er)"

text \<open>How the database moves while a module appends to its own streams \<open>Q\<close>.\<close>

definition db_rel :: "('p, 'e) event_codec \<Rightarrow> string set \<Rightarrow> 'p pg_db \<Rightarrow> 'p pg_db \<Rightarrow> bool" where
  "db_rel C Q db db' \<longleftrightarrow> set (pg_events db) \<subseteq> set (pg_events db') \<and>
     (\<forall>er \<in> set (pg_events db'). er \<in> set (pg_events db) \<or> coded_row C Q er) \<and>
     (\<forall>ob \<in> set (pg_outbox db'). ob \<in> set (pg_outbox db) \<or> backed db' (row_wire ob)) \<and>
     (\<forall>sid. sid \<notin> Q \<longrightarrow> rows_of sid db' = rows_of sid db)"

lemma backed_mono: "backed db w \<Longrightarrow> set (pg_events db) \<subseteq> set (pg_events db') \<Longrightarrow> backed db' w"
  by (auto simp: backed_def)

lemma db_rel_refl: "db_rel C Q db db"
  by (simp add: db_rel_def)

lemma db_rel_trans: "db_rel C Q db db' \<Longrightarrow> db_rel C Q db' db'' \<Longrightarrow> db_rel C Q db db''"
  unfolding db_rel_def by (metis backed_mono subset_trans)

lemma enqueued_backed:
  "ob \<in> set (enqueued C n evs) \<Longrightarrow> \<exists>er \<in> set (inserted_rows C now sid ev cid i evs). row_wire ob = wire_of_row er"
  by (induction evs arbitrary: n i) (force simp: wire_of_row_def)+

lemma inserted_coded:
  "\<forall>e \<in> set evs. \<not> failed (ec_marshal C e) \<Longrightarrow> sid \<in> Q \<Longrightarrow> er \<in> set (inserted_rows C now sid ev cid i evs) \<Longrightarrow> coded_row C Q er"
proof (induction evs arbitrary: i)
  case (Cons e evs)
  obtain p where "ec_marshal C e = Inr p" using Cons.prems(1) by (cases "ec_marshal C e") auto
  with Cons show ?case by (auto simp: coded_row_def)
qed simp

lemma append_rel:
  assumes "sid \<in> Q"
  shows "db_rel C Q db (snd (Postgres_Append C (quiet envs) now sid ev cid evs db))"
proof -
  obtain r db' where run: "Postgres_Append C (quiet envs) now sid ev cid evs db = (r, db')" by fastforce
  from append_cases [OF run] show ?thesis
  proof (elim disjE exE conjE)
    fix err tx
    assume "db' = rollback (append_base (quiet envs) db) tx"
    then have e: "pg_events db' = pg_events db" "pg_outbox db' = pg_outbox db" by (simp_all add: quiet_base)
    with rows_of_cong [OF e(1)] run show ?thesis by (simp add: db_rel_def)
  next
    assume "pg_insert_loop C (fault (quiet envs (pg_calls db))) now sid ev cid 0 evs (append_base (quiet envs) db) = (Inr (), db')"
    from insert_loop_ok [OF this] have m: "\<forall>e \<in> set evs. \<not> failed (ec_marshal C e)"
      and ev: "pg_events db' = pg_events db @ inserted_rows C now sid ev cid 0 evs"
      and ob: "pg_outbox db' = pg_outbox db @ enqueued C (pg_outbox_seq db) evs"
      by (simp_all add: quiet_base)
    have "filter (\<lambda>row. er_stream_id row = sid') (inserted_rows C now sid ev cid 0 evs) = []" if "sid' \<noteq> sid" for sid'
      using that inserted_rows_stream by (fastforce simp: filter_empty_conv)
    then have "rows_of sid' db' = rows_of sid' db" if "sid' \<notin> Q" for sid'
      using that assms unfolding rows_of_def ev filter_append by (metis append_Nil2)
    moreover have "backed db' (row_wire ob)" if "ob \<in> set (enqueued C (pg_outbox_seq db) evs)" for ob
      using enqueued_backed [OF that, of now sid ev cid 0] ev by (auto simp: backed_def)
    ultimately show ?thesis
      using run ev ob inserted_coded [OF m assms] by (auto simp: db_rel_def)
  qed
qed

section \<open>The modules on the Postgres store\<close>

lemma durable_warehouse_side:
  assumes "uuid_ok U"
  shows "warehouse_side (postgres_store (warehouse_codec U) (quiet envs)) None (pg_history (warehouse_codec U)) pg_wf
    (\<lambda>U'. db_rel (warehouse_codec U) (warehouse_streams U'))"
proof -
  note es = postgres_event_store [OF warehouse_codec_ok [OF assms], of envs]
  show ?thesis
    by (intro warehouse_side.intro warehouse_side_axioms.intro availability_handlers.intro saga_runner.intro
        availability_repository saga_repository es)
      (auto simp: announces_def db_rel_refl postgres_store_def intro: db_rel_trans append_rel)
qed

lemma durable_sales_side:
  assumes "uuid_ok U" and "scalars_ok S"
  shows "sales_side (postgres_store (sales_codec U S) (quiet envs)) None (pg_history (sales_codec U S)) pg_wf
    (\<lambda>U'. db_rel (sales_codec U S) (range (order_stream U')))"
proof -
  note es = postgres_event_store [OF sales_codec_ok [OF assms], of envs]
  show ?thesis
    by (intro sales_side.intro sales_side_axioms.intro sales_handlers.intro sales_repository es)
      (auto simp: announces_def db_rel_refl postgres_store_def intro: append_rel)
qed

interpretation pg_ws: warehouse_side "postgres_store (warehouse_codec hex_uuid) (quiet envs)" None
  "pg_history (warehouse_codec hex_uuid)" pg_wf "\<lambda>U'. db_rel (warehouse_codec hex_uuid) (warehouse_streams U')" for envs
  by (rule durable_warehouse_side [OF hex_uuid_ok])

interpretation pg_ss: sales_side "postgres_store (sales_codec hex_uuid plain_scalars) (quiet envs)" None
  "pg_history (sales_codec hex_uuid plain_scalars)" pg_wf "\<lambda>U'. db_rel (sales_codec hex_uuid plain_scalars) (range (order_stream U'))" for envs
  by (rule durable_sales_side [OF hex_uuid_ok plain_scalars_ok])

section \<open>The invariant of the system\<close>

abbreviation w_hist :: "uuid_pkg \<Rightarrow> payload pg_db \<Rightarrow> w_histories" where
  "w_hist U \<equiv> pg_history (warehouse_codec U)"

abbreviation s_hist :: "uuid_pkg \<Rightarrow> json_scalars \<Rightarrow> payload pg_db \<Rightarrow> s_histories" where
  "s_hist U S \<equiv> pg_history (sales_codec U S)"

definition pg_view_ok :: "uuid_pkg \<Rightarrow> s_histories \<Rightarrow> sales_tables \<Rightarrow> bool" where
  "pg_view_ok U g t \<longleftrightarrow> (\<forall>i r. order_rec t i = Some r \<longrightarrow>
     (po_status r = ''allocated'' \<longrightarrow> (\<exists>base. SalesOrderAllocated base i \<in> set (g (order_stream U i)))) \<and>
     (po_status r = ''rejected'' \<longrightarrow> (\<exists>base. SalesOrderAllocationRejected base i (po_reason r) \<in> set (g (order_stream U i)))))"

definition rows_coded :: "uuid_pkg \<Rightarrow> json_scalars \<Rightarrow> payload pg_db \<Rightarrow> bool" where
  "rows_coded U S db \<longleftrightarrow> (\<forall>er \<in> set (pg_events db).
     coded_row (warehouse_codec U) (warehouse_streams U) er \<or> coded_row (sales_codec U S) (range (order_stream U)) er)"

definition durable_inv :: "uuid_pkg \<Rightarrow> json_scalars \<Rightarrow> durable \<Rightarrow> bool" where
  "durable_inv U S st \<longleftrightarrow> pg_wf (du_db st) \<and> rows_coded U S (du_db st) \<and>
     histories_ok U (w_hist U (du_db st)) (s_hist U S (du_db st)) \<and>
     (\<forall>w \<in> set (du_sent st). wire_ok U (w_hist U (du_db st)) (s_hist U S (du_db st)) w) \<and>
     (\<forall>ob \<in> set (pg_outbox (du_db st)). backed (du_db st) (row_wire ob)) \<and>
     (\<forall>w \<in> set (du_relayed st). backed (du_db st) w) \<and>
     pg_view_ok U (s_hist U S (du_db st)) (du_orders st)"

lemma durable_invD:
  assumes "durable_inv U S st"
  shows "pg_wf (du_db st)" and "rows_coded U S (du_db st)" and "histories_ok U (w_hist U (du_db st)) (s_hist U S (du_db st))"
    and "w \<in> set (du_sent st) \<Longrightarrow> wire_ok U (w_hist U (du_db st)) (s_hist U S (du_db st)) w"
    and "ob \<in> set (pg_outbox (du_db st)) \<Longrightarrow> backed (du_db st) (row_wire ob)"
    and "v \<in> set (du_relayed st) \<Longrightarrow> backed (du_db st) v"
    and "pg_view_ok U (s_hist U S (du_db st)) (du_orders st)"
  using assms by (auto simp: durable_inv_def)

text \<open>The facts about the histories only look at a module's own streams.\<close>

definition same_orders :: "uuid_pkg \<Rightarrow> s_histories \<Rightarrow> s_histories \<Rightarrow> bool" where
  "same_orders U g g' \<longleftrightarrow> (\<forall>sid. sid \<notin> warehouse_streams U \<longrightarrow> g' sid = g sid)"

definition same_warehouse :: "uuid_pkg \<Rightarrow> w_histories \<Rightarrow> w_histories \<Rightarrow> bool" where
  "same_warehouse U h h' \<longleftrightarrow> (\<forall>sid. sid \<notin> range (order_stream U) \<longrightarrow> h' sid = h sid)"

lemma order_not_warehouse: "prefix (SalesOrder_StreamName @ ''-'') sid \<Longrightarrow> sid \<notin> warehouse_streams U"
  by (auto simp: warehouse_streams_def availability_stream_def saga_stream_def SalesOrder_StreamName_def
      Availability_StreamName_def SagaStreamName_def)

lemma warehouse_not_order:
  "sid \<in> warehouse_streams U \<Longrightarrow> sid \<notin> range (order_stream V)"
  "prefix (Availability_StreamName @ ''-'') sid \<Longrightarrow> sid \<notin> range (order_stream V)"
  "prefix (SagaStreamName @ ''-'') sid \<Longrightarrow> sid \<notin> range (order_stream V)"
  by (auto simp: warehouse_streams_def availability_stream_def saga_stream_def order_stream_def SalesOrder_StreamName_def
      Availability_StreamName_def SagaStreamName_def)

lemma same_ordersD: "same_orders U g g' \<Longrightarrow> g' (order_stream U i) = g (order_stream U i)"
  using order_not_warehouse [of "order_stream U i" U] by (simp add: same_orders_def order_stream_def)

lemma same_warehouseD:
  "same_warehouse U h h' \<Longrightarrow> h' (availability_stream U b) = h (availability_stream U b)"
  "same_warehouse U h h' \<Longrightarrow> h' (saga_stream U i) = h (saga_stream U i)"
  unfolding same_warehouse_def using warehouse_not_order(1) [of _ U U] by blast+

lemma histories_ok_orders:
  assumes "same_orders U g g'" and "histories_ok U h g"
  shows "histories_ok U h g'"
proof -
  have "orders_ok U g'"
    using histories_okD(3) [OF assms(2)] order_not_warehouse assms(1)
    unfolding orders_ok_def same_ordersD [OF assms(1)] same_orders_def by metis
  then show ?thesis
    using assms(2) unfolding histories_ok_def saga_ok_def ordered_def same_ordersD [OF assms(1)] by blast
qed

lemma histories_ok_warehouse:
  assumes "same_warehouse U h h'" and "histories_ok U h g"
  shows "histories_ok U h' g"
proof -
  note eq = same_warehouseD [OF assms(1)]
  have "beer_streams_ok U h'" "saga_streams_ok U h'"
    using histories_okD(1,2) [OF assms(2)] assms(1) warehouse_not_order(2,3)
    unfolding beer_streams_ok_def saga_streams_ok_def eq same_warehouse_def by metis+
  moreover have "beer_event_ok U h' e = beer_event_ok U h e" "order_event_ok U h' f = order_event_ok U h f" for e f
    by (cases e; cases f; simp add: undone_id_def saga_is_def rejected_def eq)+
  moreover have "saga_ok U h' g i s = saga_ok U h g i s" for i s by (simp add: saga_ok_def took_def eq)
  ultimately show ?thesis using assms(2) unfolding histories_ok_def eq by simp
qed

lemma wire_ok_orders: "same_orders U g g' \<Longrightarrow> wire_ok U h g' w = wire_ok U h g w"
  by (cases "(U, h, g, w)" rule: wire_ok.cases) (simp_all add: ordered_def same_ordersD)

lemma wire_ok_warehouse:
  assumes "same_warehouse U h h'"
  shows "wire_ok U h' g w = wire_ok U h g w"
proof -
  note eq = same_warehouseD [OF assms]
  have "w_command_ok U h' c = w_command_ok U h c" "s_command_ok U h' d = s_command_ok U h d" for c d
    by (cases c; cases d; simp add: undone_id_def saga_is_def rejected_def eq)+
  then show ?thesis
    by (cases "(U, h, g, w)" rule: wire_ok.cases) (simp_all add: eq saga_is_def rejected_def)
qed

lemma pg_view_ok_orders: "same_orders U g g' \<Longrightarrow> pg_view_ok U g' t = pg_view_ok U g t"
  by (simp add: pg_view_ok_def same_ordersD)

lemma pg_view_ok_grown: "pg_view_ok U g t \<Longrightarrow> grown g g' \<Longrightarrow> pg_view_ok U g' t"
  unfolding pg_view_ok_def using grown_mem by blast

lemma rel_histories:
  "db_rel C (warehouse_streams U) db db' \<Longrightarrow> same_orders U (s_hist U S db) (s_hist U S db')"
  "db_rel C' (range (order_stream U)) db db' \<Longrightarrow> same_warehouse U (w_hist U db) (w_hist U db')"
  by (simp_all add: db_rel_def same_orders_def same_warehouse_def pg_history_def)

text \<open>A step of either module keeps what the database must satisfy for both.\<close>

lemma inv_in_db:
  assumes inv: "durable_inv U S st" and f: "f (du_db st, du_sent st) = (r, (db', b'))"
    and "pg_wf db'" and rows: "rows_coded U S db'" and "histories_ok U (w_hist U db') (s_hist U S db')"
    and "\<And>w. w \<in> set b' \<Longrightarrow> wire_ok U (w_hist U db') (s_hist U S db') w"
    and ev: "set (pg_events (du_db st)) \<subseteq> set (pg_events db')"
    and ob: "\<And>ob. ob \<in> set (pg_outbox db') \<Longrightarrow> ob \<in> set (pg_outbox (du_db st)) \<or> backed db' (row_wire ob)"
    and "pg_view_ok U (s_hist U S db') (du_orders st)"
  shows "durable_inv U S (snd (in_db f st))"
proof -
  have "backed db' (row_wire x)" if "x \<in> set (pg_outbox db')" for x
    using ob [OF that] backed_mono [OF durable_invD(5) [OF inv] ev] by blast
  moreover have "backed db' w" if "w \<in> set (du_relayed st)" for w
    by (rule backed_mono [OF durable_invD(6) [OF inv that] ev])
  ultimately show ?thesis using assms by (simp add: in_db_def durable_inv_def)
qed

lemma rows_coded_rel:
  assumes "rows_coded U S db"
  shows "db_rel (warehouse_codec U) (warehouse_streams U) db db' \<Longrightarrow> rows_coded U S db'"
    and "db_rel (sales_codec U S) (range (order_stream U)) db db' \<Longrightarrow> rows_coded U S db'"
  using assms unfolding rows_coded_def db_rel_def by blast+

abbreviation durable_w_step :: "uuid_pkg \<Rightarrow> s_histories \<Rightarrow> payload pg_db \<times> wire list \<Rightarrow> payload pg_db \<times> wire list \<Rightarrow> bool" where
  "durable_w_step U \<equiv> warehouse_side.w_step (w_hist U) pg_wf (\<lambda>U'. db_rel (warehouse_codec U) (warehouse_streams U')) U"

lemma inv_warehouse_step:
  assumes "uuid_ok U" and inv: "durable_inv U S st"
    and step: "durable_w_step U (s_hist U S (du_db st)) (du_db st, du_sent st) (snd (f (du_db st, du_sent st)))"
  shows "durable_inv U S (snd (in_db f st))"
proof -
  let ?h = "w_hist U (du_db st)" and ?g = "s_hist U S (du_db st)"
  obtain r db' b' where f: "f (du_db st, du_sent st) = (r, (db', b'))" by (metis prod.collapse)
  from step f have wf: "pg_wf db'" and rel: "db_rel (warehouse_codec U) (warehouse_streams U) (du_db st) db'"
    and ok: "histories_ok U (w_hist U db') ?g" and l: "later U ?h (w_hist U db')" and n: "new_ok U (w_hist U db') ?g (du_sent st) b'"
    by (simp_all add: warehouse_side.w_step_def [OF durable_warehouse_side [OF assms(1)]])
  note so = rel_histories(1) [OF rel, of S]
  have "wire_ok U (w_hist U db') (s_hist U S db') w" if "w \<in> set b'" for w
    using n that durable_invD(4) [OF inv] wire_ok_mono [OF _ l grown_refl] unfolding new_ok_def wire_ok_orders [OF so] by blast
  then show ?thesis
    using rel wf rows_coded_rel(1) [OF durable_invD(2) [OF inv] rel] histories_ok_orders [OF so ok] durable_invD(7) [OF inv]
    by (intro inv_in_db [where f = f, OF inv f]) (auto simp: db_rel_def pg_view_ok_orders [OF so])
qed

lemma inv_sales_step:
  assumes "uuid_ok U" and "scalars_ok S" and inv: "durable_inv U S st"
    and "sales_command_ok c" and "s_command_ok U (w_hist U (du_db st)) c"
  shows "durable_inv U S (snd (in_db (sales_handle U (sales_repo (postgres_store (sales_codec U S) (quiet envs)) None) now newid c) st))"
proof -
  let ?f = "sales_handle U (sales_repo (postgres_store (sales_codec U S) (quiet envs)) None) now newid c"
  let ?h = "w_hist U (du_db st)" and ?g = "s_hist U S (du_db st)"
  note side = durable_sales_side [OF assms(1,2), of envs]
  obtain r db' b' where f: "?f (du_db st, du_sent st) = (r, (db', b'))" by (metis prod.collapse)
  from sales_side.sales_step [OF side assms(1) durable_invD(1,3) [OF inv] assms(4,5), of "du_sent st" now newid] f
  have wf: "pg_wf db'" and rel: "db_rel (sales_codec U S) (range (order_stream U)) (du_db st) db'"
    and ok: "histories_ok U ?h (s_hist U S db')" and gr: "grown ?g (s_hist U S db')" and n: "new_ok U ?h (s_hist U S db') (du_sent st) b'"
    by (simp_all add: sales_side.s_step_def [OF side])
  note sw = rel_histories(2) [OF rel]
  have "wire_ok U (w_hist U db') (s_hist U S db') w" if "w \<in> set b'" for w
    using n that durable_invD(4) [OF inv] wire_ok_mono [OF _ later_refl gr] unfolding new_ok_def wire_ok_warehouse [OF sw] by blast
  then show ?thesis
    using rel wf rows_coded_rel(2) [OF durable_invD(2) [OF inv] rel] histories_ok_warehouse [OF sw ok]
      pg_view_ok_grown [OF durable_invD(7) [OF inv] gr]
    by (intro inv_in_db [where f = ?f, OF inv f]) (auto simp: db_rel_def)
qed

lemma inv_over_bus:
  assumes "durable_inv U S st"
    and "new_ok U (w_hist U (du_db st)) (s_hist U S (du_db st)) (du_sent st) (snd (f (du_sent st)))"
  shows "durable_inv U S (snd (over_bus f st))"
  using assms by (auto simp: over_bus_def durable_inv_def new_ok_def split: prod.splits)

text \<open>The relay publishes what the outbox holds, and the outbox holds only stored events.\<close>

lemma inv_relay:
  assumes inv: "durable_inv U S st"
  shows "durable_inv U S (durable_relay tick st)"
proof -
  let ?db = "du_db st"
  obtain r db' sent' where d: "DispatchPending tick (?db, du_relayed st) = (r, (db', sent'))" by (metis prod.collapse)
  from dispatch_effect [OF d] obtain k where k: "sent' = du_relayed st @ map row_wire (take k (pending_rows (tk_locked tick) ?db)) \<and>
      (case r of Inl _ \<Rightarrow> db' = ?db | Inr n \<Rightarrow> n = length (pending_rows (tk_locked tick) ?db) \<and> k = n \<and>
         db' = ?db\<lparr>pg_outbox := filter (\<lambda>row. ob_id row \<notin> ob_id ` set (pending_rows (tk_locked tick) ?db)) (pg_outbox ?db)\<rparr>)"
    by blast
  note s = k [THEN conjunct1] and db' = k [THEN conjunct2]
  from db' have ev: "pg_events db' = pg_events ?db" and ob: "set (pg_outbox db') \<subseteq> set (pg_outbox ?db)" by (cases r; auto)+
  have b: "backed db' w = backed ?db w" for w by (simp add: backed_def ev)
  have "backed ?db w" if "w \<in> set sent'" for w
    using that durable_invD(6) [OF inv] durable_invD(5) [OF inv] pending_subset [of "tk_locked tick" ?db] set_take_subset
    unfolding s by fastforce
  moreover have "backed ?db (row_wire x)" if "x \<in> set (pg_outbox db')" for x
    using that ob durable_invD(5) [OF inv] by blast
  moreover have "pg_wf db' = pg_wf ?db" "w_hist U db' = w_hist U ?db" "s_hist U S db' = s_hist U S ?db" "rows_coded U S db' = rows_coded U S ?db"
    using pg_wf_cong [OF ev] pg_history_cong [OF ev] by (simp_all add: rows_coded_def ev)
  ultimately show ?thesis
    using inv d by (simp add: durable_relay_def durable_inv_def b)
qed

text \<open>What a subscription unmarshals is an event of the history it was stored in.\<close>

lemma prefix_topic: "prefix domainEventTopicPrefix (domainEventTopicPrefix @ name)"
  by simp

lemma received_row:
  assumes "codec_ok C" and "\<And>name. upcasters (ec_registry C) name = None" and "coded_row C Q er"
    and "er \<in> set (pg_events db)" and "received C (wire_of_row er) = Some (Inr e)"
  shows "e \<in> set (pg_history C db (er_stream_id er))"
proof -
  obtain f where f: "factories (ec_registry C) (er_event_type er) = Some f" "f (er_payload er) = Inr e"
    using assms(5) by (auto simp: received_def wire_of_row_def)
  then have "pg_decode C er = Inr e" by (simp add: pg_decode_def deserialize_direct assms(2))
  moreover have "er \<in> set (rows_of (er_stream_id er) db)" using assms(4) by (simp add: rows_of_set)
  ultimately show ?thesis unfolding pg_history_def by force
qed

lemma foreign_names:
  "factories (warehouses_NewEventRegistry U) (sales_event_name e) = None"
  "factories (sales_NewEventRegistry U S) (warehouse_event_name f) = None"
proof -
  show "factories (warehouses_NewEventRegistry U) (sales_event_name e) = None"
    by (cases e) (simp_all add: warehouses_NewEventRegistry_def NewEventRegistry_def)
  show "factories (sales_NewEventRegistry U S) (warehouse_event_name f) = None"
    by (cases f) (simp_all add: sales_NewEventRegistry_def NewEventRegistry_def)
qed

lemma received_foreign:
  "coded_row (sales_codec U S) Q er \<Longrightarrow> received (warehouse_codec U) (wire_of_row er) = None"
  "coded_row (warehouse_codec U) Q er \<Longrightarrow> received (sales_codec U S) (wire_of_row er) = None"
  by (auto simp: coded_row_def received_def wire_of_row_def warehouse_codec_def sales_codec_def foreign_names)

lemma received_warehouse:
  assumes "uuid_ok U" and inv: "durable_inv U S st" and "w \<in> set (du_relayed st)" and r: "received (warehouse_codec U) w = Some (Inr e)"
  shows "wire_ok U (w_hist U (du_db st)) g (t, Typed (WEvent e))"
proof -
  obtain er where er: "er \<in> set (pg_events (du_db st))" "w = wire_of_row er"
    using durable_invD(6) [OF inv assms(3)] by (auto simp: backed_def)
  have c: "coded_row (warehouse_codec U) (warehouse_streams U) er"
    using durable_invD(2) [OF inv] er r received_foreign(1) [of U S] unfolding rows_coded_def by fastforce
  have e: "e \<in> set (w_hist U (du_db st) (er_stream_id er))"
    by (rule received_row [OF warehouse_codec_ok [OF assms(1)] _ c er(1)]) (use r er(2) in \<open>simp_all add: warehouse_codec_def\<close>)
  have "er_stream_id er \<in> warehouse_streams U" using c by (simp add: coded_row_def)
  then show ?thesis
    unfolding warehouse_streams_def
  proof (elim UnE rangeE)
    fix b assume "er_stream_id er = availability_stream U b"
    with e beer_streams_okD [OF histories_okD(1) [OF durable_invD(3) [OF inv]], of e b] show ?thesis by auto
  next
    fix i assume "er_stream_id er = saga_stream U i"
    with e histories_okD(7) [OF durable_invD(3) [OF inv], of e i] show ?thesis by simp
  qed
qed

lemma received_sales:
  assumes "uuid_ok U" and "scalars_ok S" and inv: "durable_inv U S st" and "w \<in> set (du_relayed st)"
    and r: "received (sales_codec U S) w = Some (Inr e)"
  shows "wire_ok U h (s_hist U S (du_db st)) (t, Typed (SEvent e))"
proof -
  obtain er where er: "er \<in> set (pg_events (du_db st))" "w = wire_of_row er"
    using durable_invD(6) [OF inv assms(4)] by (auto simp: backed_def)
  have c: "coded_row (sales_codec U S) (range (order_stream U)) er"
    using durable_invD(2) [OF inv] er r received_foreign(2) [of U _ _ S] unfolding rows_coded_def by fastforce
  have e: "e \<in> set (s_hist U S (du_db st) (er_stream_id er))"
    by (rule received_row [OF sales_codec_ok [OF assms(1,2)] _ c er(1)]) (use r er(2) in \<open>simp_all add: sales_codec_def\<close>)
  obtain i where i: "er_stream_id er = order_stream U i" using c by (auto simp: coded_row_def)
  have shape: "order_shape i (s_hist U S (du_db st) (order_stream U i))"
    by (rule orders_okD [OF histories_okD(3) [OF durable_invD(3) [OF inv]]])
  have "event_order e = i" using order_shape_id [OF shape, of e] e i by (cases e) simp_all
  with e i show ?thesis by simp
qed

section \<open>The durable view\<close>

lemma pg_view_ok_upd:
  assumes "pg_view_ok U g t" and "\<And>j. j \<noteq> i \<Longrightarrow> order_rec t' j = order_rec t j"
    and "\<And>r. order_rec t' i = Some r \<Longrightarrow>
      (po_status r = ''allocated'' \<longrightarrow> (\<exists>base. SalesOrderAllocated base i \<in> set (g (order_stream U i)))) \<and>
      (po_status r = ''rejected'' \<longrightarrow> (\<exists>base. SalesOrderAllocationRejected base i (po_reason r) \<in> set (g (order_stream U i))))"
  shows "pg_view_ok U g t'"
  unfolding pg_view_ok_def
proof (intro allI impI)
  fix j r assume r: "order_rec t' j = Some r"
  show "(po_status r = ''allocated'' \<longrightarrow> (\<exists>base. SalesOrderAllocated base j \<in> set (g (order_stream U j)))) \<and>
      (po_status r = ''rejected'' \<longrightarrow> (\<exists>base. SalesOrderAllocationRejected base j (po_reason r) \<in> set (g (order_stream U j))))"
  proof (cases "j = i")
    case False
    with assms(2) r have "order_rec t j = Some r" by simp
    with assms(1) show ?thesis unfolding pg_view_ok_def by blast
  qed (use assms(3) r in blast)
qed

lemma insert_rows_orders: "st_orders (snd (for_each (insert_sales_row E i) rows t)) = st_orders t"
proof (rule for_each_invariant)
  fix row and t' :: sales_tables assume "st_orders t' = st_orders t"
  then show "st_orders (snd (insert_sales_row E i row t')) = st_orders t"
    by (simp add: insert_sales_row_def split: option.splits)
qed simp

lemma pg_project_view_ok:
  assumes "uuid_ok U" and U: "pe_uuid E = U" and ok: "pg_view_ok U g t" and e: "e \<in> set (g (order_stream U (event_order e)))"
  shows "pg_view_ok U g (snd (pg_project_sales E e t))"
proof -
  have status: "pg_view_ok U g (snd (pg_UpdateAllocationStatus E (UString U i) status reason t))"
    if "(status = ''allocated'' \<longrightarrow> (\<exists>base. SalesOrderAllocated base i \<in> set (g (order_stream U i)))) \<and>
      (status = ''rejected'' \<longrightarrow> (\<exists>base. SalesOrderAllocationRejected base i reason \<in> set (g (order_stream U i))))" for i status reason
  proof (cases "fst (pg_UpdateAllocationStatus E (UString U i) status reason t) = Inr ()")
    case True
    let ?new = "\<lparr>po_id = i, po_number = [], po_date = pe_now E, po_customer = pe_random E, po_customer_name = [],
        po_status = status, po_reason = reason, po_projected_at = pe_now E\<rparr>"
    let ?ch = "\<lambda>r. r\<lparr>po_status := status, po_reason := reason\<rparr>"
    from True have t': "snd (pg_UpdateAllocationStatus E (UString U i) status reason t) = upsert_order ?new ?ch t"
      using assms(1) by (simp add: pg_UpdateAllocationStatus_def U pg_error_def split: option.splits if_splits)
    have rec: "order_rec (upsert_order ?new ?ch t) j =
        (if j = i then Some (case order_rec t j of None \<Rightarrow> ?new | Some r \<Rightarrow> ?ch r) else order_rec t j)" for j
      using order_rec_upsert [of ?ch ?new t j] by simp
    show ?thesis
      unfolding t' by (rule pg_view_ok_upd [OF ok, of i]) (use that rec in \<open>auto split: option.splits\<close>)
  next
    case False
    then have "snd (pg_UpdateAllocationStatus E (UString U i) status reason t) = t"
      by (auto simp: pg_UpdateAllocationStatus_def split: option.splits if_splits)
    with ok show ?thesis by simp
  qed
  show ?thesis
  proof (cases e)
    case (SalesOrderCreated base i n d ci cn rows)
    let ?run = "pg_project_sales E e t"
    let ?new = "\<lparr>po_id = i, po_number = n, po_date = col_time (pe_columns E) d, po_customer = ci, po_customer_name = cn, po_status = ''pending'',
        po_reason = [], po_projected_at = pe_now E\<rparr>"
    let ?ch = "\<lambda>r. r\<lparr>po_number := n, po_date := col_time (pe_columns E) d, po_customer := ci, po_customer_name := cn\<rparr>"
    let ?t1 = "upsert_order ?new ?ch t"
    let ?t2 = "?t1\<lparr>st_rows := filter (\<lambda>r. pr_order r \<noteq> i) (st_rows ?t1)\<rparr>"
    obtain q t3 where loop: "for_each (insert_sales_row E i) (map (row_dto U) rows) ?t2 = (q, t3)" by fastforce
    have t3: "order_rec t3 j = (if j = i then Some (case order_rec t j of None \<Rightarrow> ?new | Some r \<Rightarrow> ?ch r) else order_rec t j)" for j
      using order_rec_upsert [of ?ch ?new t j] insert_rows_orders [of E i "map (row_dto U) rows" ?t2] loop by (simp add: order_rec_def)
    have "snd ?run = t \<or> snd ?run = t3"
      using assms(1) loop
      by (cases q) (auto simp: SalesOrderCreated U pg_CreateSalesOrder_def Let_def split: option.splits)
    moreover have "pg_view_ok U g t3"
    proof (rule pg_view_ok_upd [OF ok, of i])
      fix r assume "order_rec t3 i = Some r"
      with t3 [of i] ok show "(po_status r = ''allocated'' \<longrightarrow> (\<exists>base. SalesOrderAllocated base i \<in> set (g (order_stream U i)))) \<and>
          (po_status r = ''rejected'' \<longrightarrow> (\<exists>base. SalesOrderAllocationRejected base i (po_reason r) \<in> set (g (order_stream U i))))"
        by (cases "order_rec t i") (auto simp: pg_view_ok_def)
    qed (simp add: t3)
    ultimately show ?thesis using ok by auto
  next
    case (SalesOrderAllocated base i)
    with e show ?thesis by (auto simp: U intro!: status)
  next
    case (SalesOrderAllocationRejected base i r)
    with e show ?thesis by (auto simp: U intro!: status)
  qed
qed

section \<open>Every step keeps the invariant\<close>

lemma serial_quiet:
  assumes "serial U V"
  obtains envs where "dv_pg V = quiet envs"
proof
  show "dv_pg V = quiet (dv_pg V)" by (rule ext) (use assms in \<open>simp add: serial_def quiet_def\<close>)
qed

lemma inv_received:
  assumes "durable_inv U S st" and "\<And>e. received C w = Some (Inr e) \<Longrightarrow> durable_inv U S (snd (f e st))"
  shows "durable_inv U S (snd (on_received C w f st))"
  using assms by (auto simp: on_received_def split: option.splits sum.splits)

lemma inv_orders:
  "durable_inv U S st \<Longrightarrow> pg_view_ok U (s_hist U S (du_db st)) (snd x) \<Longrightarrow>
     durable_inv U S (snd (case x of (r, t) \<Rightarrow> (r, st\<lparr>du_orders := t\<rparr>)))"
  by (cases x) (simp add: durable_inv_def)

lemma inv_stock: "durable_inv U S st \<Longrightarrow> durable_inv U S (snd (case x of (r, t) \<Rightarrow> (r, st\<lparr>du_stock := t\<rparr>)))"
  by (simp add: durable_inv_def split: prod.splits)

lemma published_simps [simp]: "Direct w \<in> published st \<longleftrightarrow> w \<in> set (du_sent st)" "Relayed v \<in> published st \<longleftrightarrow> v \<in> set (du_relayed st)"
  by (auto simp: published_def)

lemma durable_deliver_inv:
  assumes U: "uuid_ok U" and S: "scalars_ok S" and inv: "durable_inv U S st" and V: "serial U V" and m: "m \<in> published st"
  shows "durable_inv U S (snd (durable_deliver U S V sub m st))"
proof -
  let ?h = "w_hist U (du_db st)" and ?g = "s_hist U S (du_db st)" and ?D = "durable_deliver U S V"
  note sent = durable_invD(4) [OF inv] and wf = durable_invD(1,3) [OF inv]
  obtain envs where q: "dv_pg V = quiet envs" using serial_quiet [OF V] .
  note side = durable_warehouse_side [OF U, of envs]
  have sales_command: "durable_inv U S (snd (?D DSalesCommands (Direct (topic, Typed (SCommand c))) st))"
    if "(topic, Typed (SCommand c)) \<in> set (du_sent st)" for topic c
    unfolding durable_deliver.simps q using sent [OF that] by (intro inv_sales_step [OF U S inv]) simp_all
  have sales_projection: "durable_inv U S (snd (?D DSalesProjection (Relayed w) st))" if w: "w \<in> set (du_relayed st)" for w
  proof -
    have "pg_view_ok U ?g (snd (pg_project_sales (dv_sales V) e (du_orders st)))" if "received (sales_codec U S) w = Some (Inr e)" for e
      using received_sales [OF U S inv w that] V by (intro pg_project_view_ok [OF U _ durable_invD(7) [OF inv]]) (auto simp: serial_def)
    then show ?thesis unfolding durable_deliver.simps by (intro inv_received inv_orders inv)
  qed
  have sales_integration: "durable_inv U S (snd (?D DSalesIntegration (Relayed w) st))" if w: "w \<in> set (du_relayed st)" for w
    unfolding durable_deliver.simps
    by (intro inv_received inv_over_bus inv publish_created_ok received_sales [OF U S inv w])
  have outcomes: "durable_inv U S (snd (?D DSalesOutcomes (Direct w) st))" if "w \<in> set (du_sent st)" for w
    unfolding durable_deliver.simps by (intro inv_over_bus inv on_outcome_ok [OF U] sent that)
  have command: "durable_inv U S (snd (?D DWarehouseCommands (Direct (topic, Typed (WCommand c))) st))"
    if "(topic, Typed (WCommand c)) \<in> set (du_sent st)" for topic c
    unfolding durable_deliver.simps q
    using sent [OF that] by (intro inv_warehouse_step [OF U inv] warehouse_side.handle_step [OF side U wf]) simp_all
  have projection: "durable_inv U S (snd (?D DWarehouseProjection (Relayed w) st))" for w
    unfolding durable_deliver.simps by (intro inv_received inv_stock inv)
  have trigger: "durable_inv U S (snd (?D DSagaTrigger (Direct (topic, Raw p)) st))" if "(topic, Raw p) \<in> set (du_sent st)" for topic p
  proof (cases "topic = integrationEventTopicPrefix @ SalesOrderCreatedTopic")
    case True
    show ?thesis
      unfolding durable_deliver.simps q if_P [OF True]
      by (intro inv_warehouse_step [OF U inv] warehouse_side.trigger_ok [OF side U wf]) (use sent [OF that] True in blast)
  qed (simp add: inv)
  have steps: "durable_inv U S (snd (?D DSagaSteps (Relayed w) st))" if w: "w \<in> set (du_relayed st)" for w
    unfolding durable_deliver.simps q
    by (intro inv_received inv inv_warehouse_step [OF U inv] warehouse_side.step_event_ok [OF side U wf] received_warehouse [OF U inv w])
  show ?thesis
    by (cases "(U, S, V, sub, m, st)" rule: durable_deliver.cases)
      (use m inv sales_command sales_projection sales_integration outcomes command projection trigger steps in
        \<open>simp_all del: durable_deliver.simps(1-8)\<close>)
qed

lemma durable_inv_init: "durable_inv U S new_durable"
proof -
  have h: "pg_history C (empty_db :: payload pg_db) sid = []" for C :: "(payload, 'e) event_codec" and sid
    by (simp add: pg_history_def rows_of_def empty_db_def)
  show ?thesis
    by (simp add: durable_inv_def new_durable_def histories_ok_def beer_streams_ok_def saga_streams_ok_def orders_ok_def
        pg_view_ok_def order_rec_def h rows_coded_def pg_wf_def) (simp add: empty_db_def rows_of_def)
qed

lemma durable_reach_inv:
  assumes "durable_reach U S st" and U: "uuid_ok U" and S: "scalars_ok S"
  shows "durable_inv U S st"
  using assms(1)
proof (induction rule: durable_reach.induct)
  case boot
  show ?case by (rule durable_inv_init)
next
  case (place_order st net orderId customerId commitId now body)
  then show ?case by (intro inv_over_bus facades_ok)
next
  case (declare_production st net commitId' body')
  then show ?case by (intro inv_over_bus facades_ok)
next
  case (delivery st V m sub)
  then show ?case by (intro durable_deliver_inv [OF U S])
next
  case (relay st tick)
  then show ?case by (intro inv_relay)
next
  case (resume st V ids)
  obtain envs where q: "dv_pg V = quiet envs" using serial_quiet [OF resume.hyps(2)] .
  show ?case
    unfolding durable_resume_def q
    by (intro inv_warehouse_step [OF U resume.IH] warehouse_side.resume_ok [OF durable_warehouse_side [OF U] U durable_invD(1,3) [OF resume.IH]])
next
  case (sweep st V cutoff clock ids ids')
  obtain envs where q: "dv_pg V = quiet envs" using serial_quiet [OF sweep.hyps(2)] .
  show ?case
    unfolding durable_sweep_def q
    by (intro inv_warehouse_step [OF U sweep.IH] warehouse_side.sweep_ok [OF durable_warehouse_side [OF U] U durable_invD(1,3) [OF sweep.IH]])
qed

section \<open>The round trip\<close>

text \<open>
  A run from the first request to the settled order, on a database without faults: an entry
  is a delivery, by subscription and position of the message, or a tick of the relay. Identifiers are written as tallies, which
  keeps the texts short.
\<close>

definition tally_uuid :: uuid_pkg where
  "tally_uuid = \<lparr>Parse = (\<lambda>s. Some (of_nat (length s))), UString = (\<lambda>u. replicate (unat u) CHR ''x'')\<rparr>"

lemma tally_uuid_ok: "uuid_ok tally_uuid"
  by (simp add: uuid_ok_def tally_uuid_def)

definition tally_sales_env :: pg_sales_env where
  "tally_sales_env = \<lparr>pe_uuid = tally_uuid, pe_columns = \<lparr>col_price = Some, col_time = (\<lambda>t. t div 1000 * 1000)\<rparr>, pe_now = 7, pe_random = 99, pe_flt = (\<lambda>_. None)\<rparr>"

definition demo_env :: durable_env where
  "demo_env = \<lparr>dv_net = open_net, dv_pg = no_faults, dv_sales = tally_sales_env, dv_stock = None, dv_now = 10, dv_id = 9\<rparr>"

definition demo_tick :: "payload relay_tick" where
  "demo_tick = \<lparr>tk_fault = (\<lambda>_. None), tk_locked = (\<lambda>_. False), tk_refuses = (\<lambda>_ _. None)\<rparr>"

definition deliver_nth :: "durable_subscription \<Rightarrow> nat \<Rightarrow> durable \<Rightarrow> durable" where
  "deliver_nth sub k st =
     (if sub \<in> {DSalesProjection, DSalesIntegration, DWarehouseProjection, DSagaSteps}
      then if k < length (du_relayed st)
        then snd (durable_deliver tally_uuid plain_scalars demo_env sub (Relayed (du_relayed st ! k)) st) else st
      else if k < length (du_sent st)
        then snd (durable_deliver tally_uuid plain_scalars demo_env sub (Direct (du_sent st ! k)) st) else st)"

fun durable_run :: "(durable_subscription \<times> nat) option list \<Rightarrow> durable \<Rightarrow> durable" where
  "durable_run [] st = st"
| "durable_run (None # ds) st = durable_run ds (durable_relay demo_tick st)"
| "durable_run (Some (sub, k) # ds) st = durable_run ds (deliver_nth sub k st)"

lemma demo_env_serial: "serial tally_uuid demo_env"
  by (simp add: serial_def demo_env_def no_faults_def tally_sales_env_def)

lemma deliver_nth_reach:
  assumes "durable_reach tally_uuid plain_scalars st"
  shows "durable_reach tally_uuid plain_scalars (deliver_nth sub k st)"
  unfolding deliver_nth_def using assms
  by (auto simp del: durable_deliver.simps intro!: durable_reach.delivery [OF _ demo_env_serial])

lemma durable_run_reach: "durable_reach tally_uuid plain_scalars st \<Longrightarrow> durable_reach tally_uuid plain_scalars (durable_run ds st)"
  by (induction ds st rule: durable_run.induct)
    (simp_all add: durable_reach.relay deliver_nth_reach)

definition demo_durable :: durable where
  "demo_durable = durable_run
     [Some (DWarehouseCommands, 0), Some (DSalesCommands, 1), None, Some (DSalesProjection, 1), Some (DSalesIntegration, 1),
      Some (DSagaTrigger, 2), Some (DWarehouseCommands, 3), None, Some (DSagaSteps, 3), Some (DSalesOutcomes, 4),
      Some (DSalesCommands, 5), None, Some (DSalesProjection, 6)]
     (snd (over_bus (facade_CreateSalesOrder tally_uuid open_net 1 2 3 4
        \<lparr>oj_Id = [], oj_SalesOrderNumber = ''S-1'', oj_OrderDate = 4, oj_CustomerId = [], oj_CustomerName = ''Pub'',
         oj_Rows = [\<lparr>rj_BeerId = UString tally_uuid 5, rj_BeerName = ''IPA'', rj_Quantity = NewQuantity 30 ''Lt'',
           rj_Price = NewPrice 5 ''EUR''\<rparr>]\<rparr>)
       (snd (over_bus (facade_UpdateAvailabilityDueToProductionOrder tally_uuid open_net 8
          \<lparr>po_BeerId = UString tally_uuid 5, po_BeerName = ''IPA'', po_Quantity = NewQuantity 100 ''Lt''\<rparr>) new_durable))))"

lemma demo_durable_reach: "durable_reach tally_uuid plain_scalars demo_durable"
  unfolding demo_durable_def by (intro durable_run_reach durable_reach.intros)

text \<open>
  C2. In durable mode, whatever statements of whatever transactions fail, whatever the network
  and the relay refuse and however messages are delayed, repeated, reordered or lost: an
  order that the Postgres read model shows as allocated was created, and it holds stock of
  every beer it asked for; an order shown as rejected has a rejected saga with exactly the
  reason shown.
\<close>

theorem durable_allocated_order_holds_stock:
  assumes "uuid_ok U" and "scalars_ok S" and "durable_reach U S st" and "pe_uuid E = U"
    and "pg_GetSalesOrder E (UString U i) (du_orders st) = Inr d"
  shows "(d_AllocationStatus d = ''allocated'' \<longrightarrow>
      (\<exists>base n date ci cn rows.
         SalesOrderCreated base i n date ci cn rows \<in> set (pg_history (sales_codec U S) (du_db st) (order_stream U i)) \<and>
         (\<forall>row \<in> set rows. UString U i \<in>
            av_held (stock (pg_history (warehouse_codec U) (du_db st) (availability_stream U (so_BeerId row))))))) \<and>
    (d_AllocationStatus d = ''rejected'' \<longrightarrow>
      sg_status (saga_at U (pg_history (warehouse_codec U) (du_db st)) i) = SagaRejected \<and>
      sg_reason (saga_at U (pg_history (warehouse_codec U) (du_db st)) i) = d_RejectionReason d)"
proof -
  let ?h = "w_hist U (du_db st)" and ?g = "s_hist U S (du_db st)"
  note inv = durable_reach_inv [OF assms(3,1,2)]
  note ok = durable_invD(3) [OF inv] and v = durable_invD(7) [OF inv]
  obtain r where r: "order_rec (du_orders st) i = Some r" "po_status r = d_AllocationStatus d" "po_reason r = d_RejectionReason d"
    using assms(1,4,5) by (auto simp: pg_GetSalesOrder_def pg_error_def order_rec_def order_dto_def split: option.splits)
  have "completed U ?h i" if "SalesOrderAllocated base i \<in> set (?g (order_stream U i))" for base
    using histories_okD(6) [OF ok that] by simp
  moreover have "rejected U ?h i rs" if "SalesOrderAllocationRejected base i rs \<in> set (?g (order_stream U i))" for base rs
    using histories_okD(6) [OF ok that] by simp
  moreover have "\<exists>rows. ordered U ?g i rows" if "completed U ?h i"
    using histories_okD(5) [OF ok] that unfolding saga_is_def saga_ok_def by blast
  ultimately show ?thesis
    using v r completed_holds [OF assms(1) ok] unfolding pg_view_ok_def ordered_def rejected_def saga_is_def by (metis singletonD)
qed

theorem durable_allocated_order_holds_stock_witness:
  "\<exists>d. pg_GetSalesOrder tally_sales_env (UString tally_uuid 1) (du_orders demo_durable) = Inr d \<and> d_AllocationStatus d = ''allocated'' \<and>
     (\<exists>base n date ci cn rows.
       SalesOrderCreated base 1 n date ci cn rows \<in>
         set (pg_history (sales_codec tally_uuid plain_scalars) (du_db demo_durable) (order_stream tally_uuid 1)) \<and>
       (\<forall>row \<in> set rows. UString tally_uuid 1 \<in>
          av_held (stock (pg_history (warehouse_codec tally_uuid) (du_db demo_durable) (availability_stream tally_uuid (so_BeerId row))))))"
proof -
  have "case pg_GetSalesOrder tally_sales_env (UString tally_uuid 1) (du_orders demo_durable) of
      Inr d \<Rightarrow> d_AllocationStatus d = ''allocated'' | _ \<Rightarrow> False" by code_simp
  then obtain d where d: "pg_GetSalesOrder tally_sales_env (UString tally_uuid 1) (du_orders demo_durable) = Inr d"
    "d_AllocationStatus d = ''allocated''" by (auto split: sum.splits)
  have "pe_uuid tally_sales_env = tally_uuid" by (simp add: tally_sales_env_def)
  from durable_allocated_order_holds_stock [OF tally_uuid_ok plain_scalars_ok demo_durable_reach this d(1)] d show ?thesis by blast
qed

end
