(* ===== verification/Command_Wire.thy ===== *)
theory Command_Wire
  imports Sales_Registry
begin

text \<open>
  The commands of both modules as JSON: \<^verbatim>\<open>json.Marshal\<close> of the structs of
  \<^verbatim>\<open>sharedkernel/commands\<close> when they are sent, and \<^verbatim>\<open>json.Unmarshal\<close> into the struct of the
  handler when they are consumed (\<^verbatim>\<open>RegisterCommandHandler\<close> of
  \<^verbatim>\<open>src/internal/muflone/servicebus.go\<close>).
\<close>

section \<open>Writing\<close>

definition command_base_fields :: "uuid_pkg \<Rightarrow> CommandBase \<Rightarrow> (string \<times> json) list" where
  "command_base_fields U b =
     [(''aggregate_id'', JStr (UString U (cmd_AggregateId b))), (''commit_id'', JStr (UString U (cmd_CommitId b)))]"

fun warehouse_command_fields :: "uuid_pkg \<Rightarrow> warehouse_command \<Rightarrow> (string \<times> json) list" where
  "warehouse_command_fields U (UpdateAvailabilityDueToProductionOrder b beer n q) =
     [(''beer_id'', wrapped (JStr (UString U beer))), (''beer_name'', wrapped (JStr n)), (''quantity'', marshal_Quantity q)]"
| "warehouse_command_fields U (UpdateAvailabilityDueToSalesOrder b beer n q order) =
     [(''beer_id'', wrapped (JStr (UString U beer))), (''beer_name'', wrapped (JStr n)), (''quantity'', marshal_Quantity q),
      (''sales_order_id'', JStr order)]"
| "warehouse_command_fields U (CompensateAvailabilityDueToFailedAllocation b beer q order) =
     [(''beer_id'', wrapped (JStr (UString U beer))), (''quantity'', marshal_Quantity q), (''sales_order_id'', JStr order)]"

definition marshal_warehouse_command :: "uuid_pkg \<Rightarrow> warehouse_command \<Rightarrow> payload result" where
  "marshal_warehouse_command U c = Inr (Json (JObj (command_base_fields U (wc_base c) @ warehouse_command_fields U c)))"

fun sales_command_fields :: "uuid_pkg \<Rightarrow> json_scalars \<Rightarrow> sales_command \<Rightarrow> (string \<times> json) list result" where
  "sales_command_fields U S (CreateSalesOrder b i number date customer name rows) =
     and_then (marshal_time S date) (\<lambda>d. and_then (map_result (marshal_order_row U S) rows) (\<lambda>rs.
       Inr [(''sales_order_id'', wrapped (JStr (UString U i))), (''sales_order_number'', wrapped (JStr number)),
            (''order_date'', wrapped d), (''customer_id'', wrapped (JStr (UString U customer))),
            (''customer_name'', wrapped (JStr name)), (''rows'', JArr rs)]))"
| "sales_command_fields U S (MarkSalesOrderAllocated b i) = Inr [(''sales_order_id'', wrapped (JStr (UString U i)))]"
| "sales_command_fields U S (MarkSalesOrderAllocationRejected b i reason) =
     Inr [(''sales_order_id'', wrapped (JStr (UString U i))), (''reason'', JStr reason)]"

definition marshal_sales_command :: "uuid_pkg \<Rightarrow> json_scalars \<Rightarrow> sales_command \<Rightarrow> payload result" where
  "marshal_sales_command U S c =
     and_then (sales_command_fields U S c) (\<lambda>fs. Inr (Json (JObj (command_base_fields U (sc_base c) @ fs))))"

section \<open>Reading\<close>

definition unmarshal_command_base :: "uuid_pkg \<Rightarrow> (string \<times> json) list \<Rightarrow> CommandBase result" where
  "unmarshal_command_base U kvs =
     and_then (get_uuid U ''aggregate_id'' kvs) (\<lambda>a. and_then (get_uuid U ''commit_id'' kvs) (\<lambda>c. Inr (NewCommandBase a c)))"

definition unmarshal_command ::
  "uuid_pkg \<Rightarrow> (CommandBase \<Rightarrow> (string \<times> json) list \<Rightarrow> 'c result) \<Rightarrow> payload \<Rightarrow> 'c result" where
  "unmarshal_command U f p = and_then (object_of p) (\<lambda>kvs. and_then (unmarshal_command_base U kvs) (\<lambda>b. f b kvs))"

definition unmarshal_UpdateAvailabilityDueToProductionOrder :: "uuid_pkg \<Rightarrow> payload \<Rightarrow> warehouse_command result" where
  "unmarshal_UpdateAvailabilityDueToProductionOrder U = unmarshal_command U (\<lambda>b kvs.
     and_then (beer_id_field U kvs) (\<lambda>i. and_then (beer_name_field kvs) (\<lambda>n.
     and_then (quantity_field ''quantity'' kvs) (\<lambda>q. Inr (UpdateAvailabilityDueToProductionOrder b i n q)))))"

definition unmarshal_UpdateAvailabilityDueToSalesOrder :: "uuid_pkg \<Rightarrow> payload \<Rightarrow> warehouse_command result" where
  "unmarshal_UpdateAvailabilityDueToSalesOrder U = unmarshal_command U (\<lambda>b kvs.
     and_then (beer_id_field U kvs) (\<lambda>i. and_then (beer_name_field kvs) (\<lambda>n.
     and_then (quantity_field ''quantity'' kvs) (\<lambda>q. and_then (get_str ''sales_order_id'' kvs) (\<lambda>s.
       Inr (UpdateAvailabilityDueToSalesOrder b i n q s))))))"

definition unmarshal_CompensateAvailabilityDueToFailedAllocation :: "uuid_pkg \<Rightarrow> payload \<Rightarrow> warehouse_command result" where
  "unmarshal_CompensateAvailabilityDueToFailedAllocation U = unmarshal_command U (\<lambda>b kvs.
     and_then (beer_id_field U kvs) (\<lambda>i. and_then (quantity_field ''quantity'' kvs) (\<lambda>q.
     and_then (get_str ''sales_order_id'' kvs) (\<lambda>s. Inr (CompensateAvailabilityDueToFailedAllocation b i q s)))))"

definition unmarshal_CreateSalesOrder :: "uuid_pkg \<Rightarrow> json_scalars \<Rightarrow> payload \<Rightarrow> sales_command result" where
  "unmarshal_CreateSalesOrder U S = unmarshal_command U (\<lambda>b kvs.
     and_then (order_id_field U kvs) (\<lambda>i. and_then (get_struct (get_str ''value'') ''sales_order_number'' kvs) (\<lambda>number.
     and_then (get_struct (get_time S ''value'') ''order_date'' kvs) (\<lambda>date.
     and_then (get_struct (get_uuid U ''value'') ''customer_id'' kvs) (\<lambda>customer.
     and_then (get_struct (get_str ''value'') ''customer_name'' kvs) (\<lambda>name.
     and_then (get_list (unmarshal_order_row U S) ''rows'' kvs) (\<lambda>rows.
       Inr (CreateSalesOrder b i number date customer name rows))))))))"

definition unmarshal_MarkSalesOrderAllocated :: "uuid_pkg \<Rightarrow> payload \<Rightarrow> sales_command result" where
  "unmarshal_MarkSalesOrderAllocated U = unmarshal_command U (\<lambda>b kvs.
     and_then (order_id_field U kvs) (\<lambda>i. Inr (MarkSalesOrderAllocated b i)))"

definition unmarshal_MarkSalesOrderAllocationRejected :: "uuid_pkg \<Rightarrow> payload \<Rightarrow> sales_command result" where
  "unmarshal_MarkSalesOrderAllocationRejected U = unmarshal_command U (\<lambda>b kvs.
     and_then (order_id_field U kvs) (\<lambda>i. and_then (get_str ''reason'' kvs) (\<lambda>r.
       Inr (MarkSalesOrderAllocationRejected b i r))))"

text \<open>The decoder a command type brings to its registration.\<close>

fun unmarshal_warehouse_as :: "uuid_pkg \<Rightarrow> warehouse_command \<Rightarrow> payload \<Rightarrow> warehouse_command result" where
  "unmarshal_warehouse_as U (UpdateAvailabilityDueToProductionOrder _ _ _ _) = unmarshal_UpdateAvailabilityDueToProductionOrder U"
| "unmarshal_warehouse_as U (UpdateAvailabilityDueToSalesOrder _ _ _ _ _) = unmarshal_UpdateAvailabilityDueToSalesOrder U"
| "unmarshal_warehouse_as U (CompensateAvailabilityDueToFailedAllocation _ _ _ _) = unmarshal_CompensateAvailabilityDueToFailedAllocation U"

fun unmarshal_sales_as :: "uuid_pkg \<Rightarrow> json_scalars \<Rightarrow> sales_command \<Rightarrow> payload \<Rightarrow> sales_command result" where
  "unmarshal_sales_as U S (CreateSalesOrder _ _ _ _ _ _ _) = unmarshal_CreateSalesOrder U S"
| "unmarshal_sales_as U S (MarkSalesOrderAllocated _ _) = unmarshal_MarkSalesOrderAllocated U"
| "unmarshal_sales_as U S (MarkSalesOrderAllocationRejected _ _ _) = unmarshal_MarkSalesOrderAllocationRejected U"

section \<open>What is sent is received\<close>

lemma unmarshal_command_base_fields [simp]:
  "uuid_ok U \<Longrightarrow> json_field ''aggregate_id'' kvs = Some (JStr (UString U (cmd_AggregateId b))) \<Longrightarrow>
   json_field ''commit_id'' kvs = Some (JStr (UString U (cmd_CommitId b))) \<Longrightarrow> unmarshal_command_base U kvs = Inr b"
  by (simp add: unmarshal_command_base_def get_uuid_def NewCommandBase_def)

lemmas command_decode_defs = unmarshal_command_def command_base_fields_def get_str_def get_list_def get_struct_def get_uuid_def
  marshal_Quantity_def unmarshal_UpdateAvailabilityDueToProductionOrder_def unmarshal_UpdateAvailabilityDueToSalesOrder_def
  unmarshal_CompensateAvailabilityDueToFailedAllocation_def unmarshal_CreateSalesOrder_def unmarshal_MarkSalesOrderAllocated_def
  unmarshal_MarkSalesOrderAllocationRejected_def

lemma warehouse_command_received:
  assumes "uuid_ok U" and "marshal_warehouse_command U c = Inr p"
  shows "unmarshal_warehouse_as U c p = Inr c"
  using assms by (cases c) (auto simp: marshal_warehouse_command_def command_decode_defs)

lemma sales_command_received:
  assumes U: "uuid_ok U" and S: "scalars_ok S" and "marshal_sales_command U S c = Inr p"
  shows "unmarshal_sales_as U S c p = Inr c"
proof -
  obtain fs where fs: "sales_command_fields U S c = Inr fs" and p: "p = Json (JObj (command_base_fields U (sc_base c) @ fs))"
    using assms(3) by (auto simp: marshal_sales_command_def and_then_Inr)
  show ?thesis
  proof (cases c)
    case (CreateSalesOrder b i number date customer name rows)
    then obtain d rs where d: "marshal_time S date = Inr d" and rs: "map_result (marshal_order_row U S) rows = Inr rs"
      and fs': "fs = [(''sales_order_id'', wrapped (JStr (UString U i))), (''sales_order_number'', wrapped (JStr number)),
            (''order_date'', wrapped d), (''customer_id'', wrapped (JStr (UString U customer))),
            (''customer_name'', wrapped (JStr name)), (''rows'', JArr rs)]"
      using fs by (auto simp: and_then_Inr)
    have "get_time S ''value'' [(''value'', d)] = Inr date"
      by (rule get_time_written [OF S d]) (simp add: time_is_text [OF d])
    then show ?thesis
      using U unmarshal_order_rows [OF U S rs] unfolding p fs' CreateSalesOrder
      by (simp add: command_decode_defs)
  qed (use fs U in \<open>auto simp: p command_decode_defs\<close>)
qed

text \<open>
  C30. A command arrives as it was sent: for each of the six command types, decoding the JSON
  that the bus put on the wire into the struct of its handler gives back exactly the command,
  identifiers, quantities, rows, dates and prices included; the Warehouses commands can
  always be put on the wire.
\<close>

theorem commands_roundtrip:
  assumes "uuid_ok U" and "scalars_ok S"
  shows "(\<exists>p. marshal_warehouse_command U c = Inr p \<and> unmarshal_warehouse_as U c p = Inr c) \<and>
    (\<forall>p. marshal_sales_command U S d = Inr p \<longrightarrow> unmarshal_sales_as U S d p = Inr d)"
  using warehouse_command_received [OF assms(1)] sales_command_received [OF assms] by (simp add: marshal_warehouse_command_def)

theorem commands_roundtrip_witness:
  "\<exists>p. marshal_sales_command hex_uuid plain_scalars (NewMarkSalesOrderAllocationRejected 1 2 ''sold out'') = Inr p \<and>
     unmarshal_MarkSalesOrderAllocationRejected hex_uuid p = Inr (NewMarkSalesOrderAllocationRejected 1 2 ''sold out'')"
proof -
  obtain p where p: "marshal_sales_command hex_uuid plain_scalars (NewMarkSalesOrderAllocationRejected 1 2 ''sold out'') = Inr p"
    by (simp add: marshal_sales_command_def msg_defs)
  with commands_roundtrip [OF hex_uuid_ok plain_scalars_ok, of "NewCompensateAvailabilityDueToFailedAllocation 5 2 (NewQuantity 3 []) []" "NewMarkSalesOrderAllocationRejected 1 2 ''sold out''"]
  show ?thesis by (auto simp: msg_defs)
qed

end
