(* ===== verification/Retry.thy ===== *)
theory Retry
  imports Brew_Prelude
begin

text \<open>
  \<^verbatim>\<open>src/internal/muflone/retry.go\<close>: the retry middleware around every handler of the service
  bus and its exponential backoff on 64-bit durations. A handler acts on a state and
  returns an outcome; whether the message's context is done while the middleware waits
  after a given attempt is the parameter \<open>cancelled\<close>. A panic is no error value: it unwinds
  the loop.
\<close>

section \<open>The policy\<close>

definition genericRetries :: nat where
  [go_defs]: "genericRetries = 3"

definition concurrencyRetries :: nat where
  [go_defs]: "concurrencyRetries = 12"

text \<open>Durations count nanoseconds in a signed 64-bit integer.\<close>

definition baseRetryInterval :: go_int where
  "baseRetryInterval = 50 * 1000000"

definition maxRetryInterval :: go_int where
  "maxRetryInterval = 1000000000"

definition retryBackoff :: "nat \<Rightarrow> go_int" where
  "retryBackoff attempt =
     (let interval = push_bit attempt baseRetryInterval in
      if sint interval > sint maxRetryInterval \<or> sint interval \<le> 0 then maxRetryInterval else interval)"

fun is_panic :: "go_error \<Rightarrow> bool" where
  "is_panic (GoPanic _) = True"
| "is_panic _ = False"

definition retry_budget :: "go_error \<Rightarrow> nat" where
  "retry_budget err = (if err = ErrConcurrency then concurrencyRetries else genericRetries)"

lemma retry_budget_bound: "retry_budget err \<le> 12"
  by (simp add: retry_budget_def go_defs)

lemma retry_budget_less: "\<not> retry_budget err \<le> attempt \<Longrightarrow> attempt < 12"
  using retry_budget_bound [of err] by linarith

type_synonym ('s, 'a) handler = "'s \<Rightarrow> ('s, 'a) outcome"

function retry_loop :: "('s, 'a) handler \<Rightarrow> (nat \<Rightarrow> bool) \<Rightarrow> nat \<Rightarrow> ('s, 'a) handler" where
  "retry_loop h cancelled attempt s =
     (case h s of
        (Inr produced, s') \<Rightarrow> (Inr produced, s')
      | (Inl err, s') \<Rightarrow>
          if is_panic err then (Inl err, s')
          else if attempt \<ge> retry_budget err then (Inl err, s')
          else if cancelled attempt then (Inl err, s')
          else retry_loop h cancelled (Suc attempt) s')"
  by pat_completeness auto
termination
  by (relation "measure (\<lambda>(h, cancelled, attempt, s). 12 - attempt)") (auto dest: retry_budget_less)

declare retry_loop.simps [simp del]

definition retryMiddleware :: "(nat \<Rightarrow> bool) \<Rightarrow> ('s, 'a) handler \<Rightarrow> ('s, 'a) handler" where
  "retryMiddleware cancelled h = retry_loop h cancelled 0"

section \<open>The backoff never overflows into a short wait\<close>

lemma shifted_small: "attempt < 30 \<Longrightarrow> sint (push_bit attempt baseRetryInterval) = 50000000 * 2 ^ attempt"
proof -
  assume a: "attempt < 30"
  then have "(2 :: int) ^ attempt \<le> 2 ^ 30" by (intro power_increasing) auto
  then have "(50000000 :: int) * 2 ^ attempt < 2 ^ 63" by simp
  then have "signed_take_bit 63 ((50000000 :: int) * 2 ^ attempt) = 50000000 * 2 ^ attempt"
    by (subst signed_take_bit_int_eq_self_iff) (auto intro: order_trans [of _ 0])
  moreover have "push_bit attempt baseRetryInterval = word_of_int (50000000 * 2 ^ attempt)"
    by (simp add: baseRetryInterval_def push_bit_eq_mult)
  ultimately show ?thesis by (simp only: signed_of_int) simp
qed

lemma shifted_large:
  fixes x :: go_int
  assumes "30 \<le> attempt"
  shows "sint (push_bit attempt x) \<le> 0 \<or> sint (push_bit attempt x) > 10 ^ 9"
proof -
  have e: "push_bit attempt x = of_int (sint x * 2 ^ attempt)"
    by (simp add: push_bit_eq_mult)
  have "2 ^ 30 dvd sint x * (2 :: int) ^ attempt"
    using assms by (meson dvd_mult le_imp_power_dvd)
  then have "2 ^ 30 dvd signed_take_bit 63 (sint x * 2 ^ attempt)"
    unfolding signed_take_bit_eq_take_bit_shift take_bit_eq_mod
    by (intro dvd_diff dvd_mod dvd_add) (simp_all add: le_imp_power_dvd)
  then have "2 ^ 30 dvd sint (push_bit attempt x)" unfolding e signed_of_int by simp
  then obtain k where "sint (push_bit attempt x) = 2 ^ 30 * k" by (elim dvdE)
  then show ?thesis by auto
qed


text \<open>
  C25. For every number of attempts, however large, the wait before the next attempt is
  exactly the smaller of 50 ms doubled that many times and one second: the 64-bit shift
  that computes it may overflow to any value, but never to a positive one below the cap.
\<close>

theorem retry_backoff_exact:
  "sint (retryBackoff attempt) = min (50000000 * 2 ^ attempt) (10 ^ 9)"
proof (cases "attempt < 30")
  case True
  then show ?thesis by (auto simp: retryBackoff_def shifted_small Let_def maxRetryInterval_def)
next
  case False
  then have "30 \<le> attempt" by simp
  then have "(2 :: int) ^ 30 \<le> 2 ^ attempt" by (intro power_increasing) auto
  then have "(10 :: int) ^ 9 \<le> 50000000 * 2 ^ attempt" by simp
  moreover have "sint maxRetryInterval = 10 ^ 9" by (simp add: maxRetryInterval_def)
  ultimately show ?thesis
    using shifted_large [OF \<open>30 \<le> attempt\<close>, of baseRetryInterval] by (auto simp: retryBackoff_def Let_def)
qed

section \<open>What the middleware returns\<close>

text \<open>The state in which the \<open>k\<close>-th retry finds the world.\<close>

primrec attempt_state :: "('s, 'a) handler \<Rightarrow> nat \<Rightarrow> 's \<Rightarrow> 's" where
  "attempt_state h 0 s = s"
| "attempt_state h (Suc k) s = attempt_state h k (snd (h s))"

text \<open>An attempt that is retried, and one after which the middleware gives up.\<close>

definition retried :: "(nat \<Rightarrow> bool) \<Rightarrow> nat \<Rightarrow> 'a result \<Rightarrow> bool" where
  "retried cancelled attempt r \<longleftrightarrow>
     (case r of Inr _ \<Rightarrow> False | Inl err \<Rightarrow> \<not> is_panic err \<and> attempt < retry_budget err \<and> \<not> cancelled attempt)"

lemma retried_less: "retried cancelled attempt r \<Longrightarrow> attempt < 12"
  by (auto simp: retried_def intro: less_le_trans [OF _ retry_budget_bound] split: sum.splits)

lemma retry_loop_step:
  "retry_loop h cancelled attempt s =
     (if retried cancelled attempt (fst (h s)) then retry_loop h cancelled (Suc attempt) (snd (h s)) else h s)"
  by (subst retry_loop.simps) (auto simp: retried_def split: prod.splits sum.splits)

lemma retry_loop_outcome:
  "attempt \<le> 12 \<Longrightarrow> \<exists>k. attempt + k \<le> 12 \<and> retry_loop h cancelled attempt s = h (attempt_state h k s) \<and>
     (\<forall>j < k. retried cancelled (attempt + j) (fst (h (attempt_state h j s)))) \<and>
     \<not> retried cancelled (attempt + k) (fst (h (attempt_state h k s)))"
proof (induction h cancelled attempt s rule: retry_loop.induct)
  case (1 h cancelled attempt s)
  show ?case
  proof (cases "retried cancelled attempt (fst (h s))")
    case True
    then obtain err s' where r: "h s = (Inl err, s')" "\<not> is_panic err" "\<not> retry_budget err \<le> attempt" "\<not> cancelled attempt"
      by (cases "h s") (auto simp: retried_def split: sum.splits)
    have "Suc attempt \<le> 12" using retried_less [OF True] by simp
    then obtain k where k: "Suc attempt + k \<le> 12" "retry_loop h cancelled (Suc attempt) s' = h (attempt_state h k s')"
      "\<forall>j < k. retried cancelled (Suc attempt + j) (fst (h (attempt_state h j s')))"
      "\<not> retried cancelled (Suc attempt + k) (fst (h (attempt_state h k s')))"
      using "1.IH" [OF r(1) [symmetric] refl r(2-4)] by blast
    have "\<forall>j < Suc k. retried cancelled (attempt + j) (fst (h (attempt_state h j s)))"
      using k(3) True r(1) by (auto simp: less_Suc_eq_0_disj)
    then show ?thesis
      using k(1,2,4) r(1) True by (intro exI [of _ "Suc k"]) (simp add: retry_loop_step [of h cancelled attempt s])
  next
    case False
    with "1.prems" show ?thesis by (intro exI [of _ 0]) (simp add: retry_loop_step [of h cancelled attempt s])
  qed
qed

text \<open>
  C26. The middleware always returns, after at most twelve retries, and what it returns is the
  outcome of the first attempt that need not be retried: one that succeeded, that panicked,
  that exhausted the budget of its own error (twelve retries for a concurrency conflict,
  three otherwise), or after which the context was done. Each earlier attempt failed with
  budget left.
\<close>

theorem retry_returns:
  "\<exists>k \<le> 12. retryMiddleware cancelled h s = h (attempt_state h k s) \<and>
     (\<forall>j < k. retried cancelled j (fst (h (attempt_state h j s)))) \<and>
     \<not> retried cancelled k (fst (h (attempt_state h k s)))"
  using retry_loop_outcome [of 0 h cancelled s] by (auto simp: retryMiddleware_def)


text \<open>A handler that fails with a concurrency conflict six times before it succeeds.\<close>

definition contended :: "(nat, unit) handler" where
  "contended n = (if n < 6 then (Inl ErrConcurrency, Suc n) else (Inr (), n))"

theorem retry_returns_witness:
  "retryMiddleware (\<lambda>_. False) contended 0 = (Inr (), 6)"
proof -
  have st: "attempt_state contended k 0 = min k 6" for k
  proof -
    have "attempt_state contended k n = min (n + k) 6" if "n \<le> 6" for n
      using that by (induction k arbitrary: n) (auto simp: contended_def min_def)
    then show ?thesis by simp
  qed
  obtain k where "retryMiddleware (\<lambda>_. False) contended 0 = contended (min k 6)"
    and "\<not> retried (\<lambda>_. False) k (fst (contended (min k 6)))"
    using retry_returns [of "\<lambda>_. False" contended 0] unfolding st by blast
  moreover have "retried (\<lambda>_. False) k (fst (contended (min k 6)))" if "k < 6"
    using that by (simp add: retried_def contended_def retry_budget_def go_defs)
  ultimately show ?thesis by (cases "k < 6") (auto simp: contended_def)
qed

end
