(* ===== verification/Delivery.thy ===== *)
theory Delivery
  imports Retry Service_Bus
begin

text \<open>
  The consuming side of the service bus: subscriptions and their attachment
  (\<^verbatim>\<open>src/internal/muflone/servicebus.go\<close>), the transports (\<^verbatim>\<open>transport.go\<close>,
  \<^verbatim>\<open>amqp_transport.go\<close>), the middleware chain around a handler, and the archive of dead
  letters with its redrive (\<^verbatim>\<open>deadletters.go\<close>). Watermill is not part of the repository: its
  poison-queue middleware is a parameter, with the behaviour its documentation promises as
  the named hypothesis \<open>poison_spec\<close>.
\<close>

section \<open>Messages, subscriptions and the bus\<close>

record wmsg =
  wm_payload :: payload
  wm_meta :: "string \<rightharpoonup> string"

definition meta_get :: "string \<Rightarrow> wmsg \<Rightarrow> string" where
  "meta_get k msg = (case wm_meta msg k of None \<Rightarrow> [] | Some v \<Rightarrow> v)"

type_synonym 's consumer = "wmsg \<Rightarrow> ('s, unit) handler"

record 's pendingSubscription =
  ps_name :: string
  ps_topic :: string
  ps_handler :: "'s consumer"

text \<open>\<open>sb_attached\<close> is \<open>None\<close> until the first \<^verbatim>\<open>attach.Do\<close>, then the error it kept, if any.\<close>

record 's ServiceBus =
  sb_pending :: "'s pendingSubscription list"
  sb_router :: "'s pendingSubscription list"
  sb_attached :: "go_error option option"

definition subscribe :: "string \<Rightarrow> string \<Rightarrow> 's consumer \<Rightarrow> 's ServiceBus \<Rightarrow> 's ServiceBus" where
  "subscribe name topic h b = b\<lparr>sb_pending := sb_pending b @ [\<lparr>ps_name = name, ps_topic = topic, ps_handler = h\<rparr>]\<rparr>"

definition dead_letter_monitor :: "'s consumer" where
  "dead_letter_monitor msg s = (Inr (), s)"

definition NewServiceBusWithTransport :: "'s ServiceBus" where
  "NewServiceBusWithTransport =
     subscribe ''muflone.dead_letter_monitor'' DeadLetterTopic dead_letter_monitor
       \<lparr>sb_pending = [], sb_router = [], sb_attached = None\<rparr>"

text \<open>The type argument of a registration supplies the message's name and its JSON decoder.\<close>

definition RegisterCommandHandler ::
  "string \<Rightarrow> (payload \<Rightarrow> 'c result) \<Rightarrow> ('c \<Rightarrow> ('s, unit) handler) \<Rightarrow> 's ServiceBus \<Rightarrow> 's ServiceBus" where
  "RegisterCommandHandler messageName unmarshal handle bus =
     subscribe (''handler.'' @ messageName) (commandTopicPrefix @ messageName)
       (\<lambda>msg s. case unmarshal (wm_payload msg) of Inl err \<Rightarrow> (Inl err, s) | Inr command \<Rightarrow> handle command s) bus"

definition RegisterDomainEventHandler ::
  "string \<Rightarrow> (payload \<Rightarrow> 'e result) \<Rightarrow> string \<Rightarrow> ('e \<Rightarrow> ('s, unit) handler) \<Rightarrow> 's ServiceBus \<Rightarrow> 's ServiceBus" where
  "RegisterDomainEventHandler messageName unmarshal name handle bus =
     subscribe name (domainEventTopicPrefix @ messageName)
       (\<lambda>msg s. case unmarshal (wm_payload msg) of Inl err \<Rightarrow> (Inl err, s) | Inr event \<Rightarrow> handle event s) bus"

definition SubscribeIntegrationEvent ::
  "string \<Rightarrow> string \<Rightarrow> (payload \<Rightarrow> ('s, unit) handler) \<Rightarrow> 's ServiceBus \<Rightarrow> 's ServiceBus" where
  "SubscribeIntegrationEvent name messageName handle bus =
     subscribe name (integrationEventTopicPrefix @ messageName) (\<lambda>msg. handle (wm_payload msg)) bus"

text \<open>The metadata keys of Watermill's poison queue.\<close>

definition ReasonForPoisonedKey :: string where
  "ReasonForPoisonedKey = ''reason_poisoned''"

definition PoisonedTopicKey :: string where
  "PoisonedTopicKey = ''topic_poisoned''"

definition OnDeadLetter ::
  "string \<Rightarrow> (string \<Rightarrow> payload \<Rightarrow> string \<Rightarrow> ('s, unit) handler) \<Rightarrow> 's ServiceBus \<Rightarrow> 's ServiceBus" where
  "OnDeadLetter name handle bus =
     subscribe name DeadLetterTopic
       (\<lambda>msg. handle (meta_get PoisonedTopicKey msg) (wm_payload msg) (meta_get ReasonForPoisonedKey msg)) bus"

section \<open>Transports and attachment\<close>

text \<open>\<^verbatim>\<open>InMemoryTransport.SubscriberFor\<close> hands out the shared channel; the AMQP one connects.\<close>

definition InMemory_SubscriberFor :: "string \<Rightarrow> 't \<Rightarrow> ('t, unit) outcome" where
  "InMemory_SubscriberFor handlerName t = (Inr (), t)"

record AMQPTransport =
  tr_subscribers :: "string list"

definition AMQP_SubscriberFor ::
  "(string \<Rightarrow> go_error option) \<Rightarrow> string \<Rightarrow> AMQPTransport \<Rightarrow> (AMQPTransport, unit) outcome" where
  "AMQP_SubscriberFor newSubscriber handlerName t =
     (case newSubscriber handlerName of
        Some err \<Rightarrow> (Inl err, t)
      | None \<Rightarrow> (Inr (), t\<lparr>tr_subscribers := tr_subscribers t @ [handlerName]\<rparr>))"

text \<open>\<^verbatim>\<open>closeAll\<close> closes every closer and joins the errors; \<^verbatim>\<open>errors.Join\<close> of none is nil.\<close>

definition closeAll :: "go_error option list \<Rightarrow> go_error list" where
  "closeAll closed = List.map_filter (\<lambda>err. err) closed"

fun attach_loop ::
  "(string \<Rightarrow> 't \<Rightarrow> ('t, unit) outcome) \<Rightarrow> 's pendingSubscription list \<Rightarrow> 's ServiceBus \<times> 't \<Rightarrow> 's ServiceBus \<times> 't" where
  "attach_loop subscriberFor [] (b, t) = (b, t)"
| "attach_loop subscriberFor (p # ps) (b, t) =
     (case subscriberFor (ps_name p) t of
        (Inl err, t') \<Rightarrow> (b\<lparr>sb_attached := Some (Some err)\<rparr>, t')
      | (Inr _, t') \<Rightarrow> attach_loop subscriberFor ps (b\<lparr>sb_router := sb_router b @ [p]\<rparr>, t'))"

definition attachHandlers ::
  "(string \<Rightarrow> 't \<Rightarrow> ('t, unit) outcome) \<Rightarrow> 's ServiceBus \<times> 't \<Rightarrow> ('s ServiceBus \<times> 't, unit) outcome" where
  "attachHandlers subscriberFor w =
     (let (b, t) = (case sb_attached (fst w) of
          None \<Rightarrow> attach_loop subscriberFor (sb_pending (fst w)) ((fst w)\<lparr>sb_attached := Some None\<rparr>, snd w)
        | Some _ \<Rightarrow> w)
      in case sb_attached b of Some (Some err) \<Rightarrow> (Inl err, (b, t)) | _ \<Rightarrow> (Inr (), (b, t)))"

section \<open>Handling one message\<close>

type_synonym 's publisher = "string \<Rightarrow> wmsg \<Rightarrow> ('s, unit) handler"
type_synonym 's poison = "'s publisher \<Rightarrow> string \<Rightarrow> string \<Rightarrow> 's consumer \<Rightarrow> 's consumer"

text \<open>
  \<^verbatim>\<open>middleware.PoisonQueue(pub, topic)\<close>, as far as the program relies on it: a message whose
  handler succeeded is handled; one whose handler returned an error is published to the
  poison topic, with its payload and with the topic it was consumed from under
  \<^verbatim>\<open>PoisonedTopicKey\<close> in its metadata, and counts as handled if it could be published. What else
  the library writes into the metadata, and which error it returns when it cannot publish,
  is left open.
\<close>

definition dead_letter :: "string \<Rightarrow> wmsg \<Rightarrow> wmsg \<Rightarrow> bool" where
  "dead_letter topic msg letter \<longleftrightarrow> wm_payload letter = wm_payload msg \<and> meta_get PoisonedTopicKey letter = topic"

definition poison_spec :: "'s poison \<Rightarrow> bool" where
  "poison_spec poison \<longleftrightarrow> (\<forall>pub pt topic h msg s.
     (\<forall>s'. h msg s = (Inr (), s') \<longrightarrow> poison pub pt topic h msg s = (Inr (), s')) \<and>
     (\<forall>err s'. h msg s = (Inl err, s') \<longrightarrow> \<not> is_panic err \<longrightarrow>
        (\<exists>letter. dead_letter topic msg letter \<and>
           (case pub pt letter s' of
              (Inr _, s'') \<Rightarrow> poison pub pt topic h msg s = (Inr (), s'')
            | (Inl _, s'') \<Rightarrow> (\<exists>err'. poison pub pt topic h msg s = (Inl err', s''))))))"

text \<open>The poison queue is the outermost middleware, the retries run inside it.\<close>

definition consume ::
  "'s poison \<Rightarrow> 's publisher \<Rightarrow> (nat \<Rightarrow> bool) \<Rightarrow> 's pendingSubscription \<Rightarrow> 's consumer" where
  "consume poison pub cancelled p =
     poison pub DeadLetterTopic (ps_topic p) (\<lambda>msg. retryMiddleware cancelled (ps_handler p msg))"

section \<open>Every subscription is attached, or the bus does not start\<close>

lemma attach_loop_ok:
  "sb_attached (fst (attach_loop subscriberFor ps (b, t))) = Some None \<Longrightarrow>
     sb_router (fst (attach_loop subscriberFor ps (b, t))) = sb_router b @ ps"
  by (induction ps arbitrary: b t) (auto split: prod.splits sum.splits)

lemma attach_loop_unset: "sb_attached b \<noteq> None \<Longrightarrow> sb_attached (fst (attach_loop subscriberFor ps (b, t))) \<noteq> None"
  by (induction ps arbitrary: b t) (auto split: prod.splits sum.splits)

lemma attach_complete:
  assumes "sb_attached b = None" and "sb_router b = []"
    and "attachHandlers subscriberFor (b, t) = (Inr (), (b', t'))"
  shows "sb_router b' = sb_pending b"
proof -
  let ?b = "b\<lparr>sb_attached := Some None\<rparr>"
  have run: "attach_loop subscriberFor (sb_pending b) (?b, t) = (b', t')"
    and ok: "\<forall>err. sb_attached b' \<noteq> Some (Some err)"
    using assms by (auto simp: attachHandlers_def split: prod.splits option.splits)
  moreover have "sb_attached b' \<noteq> None" using attach_loop_unset [of ?b subscriberFor "sb_pending b" t] run by simp
  ultimately have "sb_attached b' = Some None" by (metis option.exhaust)
  with attach_loop_ok [of subscriberFor "sb_pending b" ?b t] run assms(2) show ?thesis by simp
qed

lemma closeAll_nil: "closeAll closed = [] \<longleftrightarrow> (\<forall>err \<in> set closed. err = None)"
  by (auto simp: closeAll_def List.map_filter_def filter_empty_conv)


section \<open>The archive of dead letters\<close>

text \<open>The table \<^verbatim>\<open>dead_letters\<close>; its payload column has the type \<^verbatim>\<open>jsonb\<close> and takes only JSON.\<close>

record dead_letter_row =
  dl_id :: nat
  dl_topic :: string
  dl_payload :: payload
  dl_reason :: string
  dl_redriven_at :: "instant option"

record archive_db =
  da_rows :: "dead_letter_row list"
  da_seq :: nat

type_synonym archive_state = "archive_db \<times> (string \<times> wmsg) list"

text \<open>\<open>flt\<close> is the error of the database for this insert, if any.\<close>

definition DeadLetterStore_Save ::
  "string option \<Rightarrow> string \<Rightarrow> payload \<Rightarrow> string \<Rightarrow> (archive_state, unit) handler" where
  "DeadLetterStore_Save flt topic payload reason w =
     (case flt of
        Some msg \<Rightarrow> (Inl (ErrOther msg), w)
      | None \<Rightarrow>
          (case payload of
             NotJson \<Rightarrow> (Inl (ErrOther ''invalid input syntax for type json''), w)
           | Json _ \<Rightarrow>
               (Inr (), ((fst w)\<lparr>da_rows := da_rows (fst w) @ [\<lparr>dl_id = Suc (da_seq (fst w)), dl_topic = topic,
                    dl_payload = payload, dl_reason = reason, dl_redriven_at = None\<rparr>],
                  da_seq := Suc (da_seq (fst w))\<rparr>, snd w))))"

text \<open>The subscription \<^verbatim>\<open>muflone.dead_letter_archive\<close> of the composition root.\<close>

definition archive_subscription :: "string option \<Rightarrow> archive_state pendingSubscription" where
  "archive_subscription flt = last (sb_pending (OnDeadLetter ''muflone.dead_letter_archive'' (DeadLetterStore_Save flt)
     NewServiceBusWithTransport))"

record redrive_env =
  rd_fault :: "nat option \<Rightarrow> string option"
  rd_commit_fault :: "string option"
  rd_locked :: "nat \<Rightarrow> bool"
  rd_refuses :: "(string \<times> wmsg) list \<Rightarrow> string \<times> wmsg \<Rightarrow> go_error option"

definition parked_letters :: "redrive_env \<Rightarrow> archive_db \<Rightarrow> dead_letter_row list" where
  "parked_letters env db =
     sort_key dl_id (filter (\<lambda>row. dl_redriven_at row = None \<and> \<not> rd_locked env (dl_id row)) (da_rows db))"

definition stamp :: "instant \<Rightarrow> nat \<Rightarrow> archive_db \<Rightarrow> archive_db" where
  "stamp now i db = db\<lparr>da_rows := map (\<lambda>row. if dl_id row = i then row\<lparr>dl_redriven_at := Some now\<rparr> else row) (da_rows db)\<rparr>"

definition redrive_one :: "redrive_env \<Rightarrow> instant \<Rightarrow> dead_letter_row \<Rightarrow> (archive_state, unit) handler" where
  "redrive_one env now letter w =
     (let m = (dl_topic letter, \<lparr>wm_payload = dl_payload letter, wm_meta = Map.empty\<rparr>) in
      case rd_refuses env (snd w) m of
        Some err \<Rightarrow> (Inl err, w)
      | None \<Rightarrow>
          (case rd_fault env (Some (dl_id letter)) of
             Some msg \<Rightarrow> (Inl (ErrOther msg), (fst w, snd w @ [m]))
           | None \<Rightarrow> (Inr (), (stamp now (dl_id letter) (fst w), snd w @ [m]))))"

text \<open>\<open>rd_fault env None\<close> is a failure to begin the transaction or to read the letters.\<close>

definition RedriveDeadLetters :: "redrive_env \<Rightarrow> instant \<Rightarrow> archive_state \<Rightarrow> (archive_state, nat) outcome" where
  "RedriveDeadLetters env now w =
     (case rd_fault env None of
        Some msg \<Rightarrow> (Inl (ErrOther msg), w)
      | None \<Rightarrow>
          let parked = parked_letters env (fst w) in
          case for_each (redrive_one env now) parked w of
            (Inl err, w') \<Rightarrow> (Inl err, (fst w, snd w'))
          | (Inr _, w') \<Rightarrow>
              (case rd_commit_fault env of
                 Some msg \<Rightarrow> (Inl (ErrOther msg), (fst w, snd w'))
               | None \<Rightarrow> (Inr (length parked), w')))"

definition accepts :: "archive_state publisher" where
  "accepts topic msg w = (Inr (), (fst w, snd w @ [(topic, msg)]))"

definition clear_redrive :: redrive_env where
  "clear_redrive = \<lparr>rd_fault = (\<lambda>_. None), rd_commit_fault = None, rd_locked = (\<lambda>_. False), rd_refuses = (\<lambda>_ _. None)\<rparr>"

section \<open>From failure to redrive\<close>

lemma archive_fields [simp]:
  "ps_topic (archive_subscription flt) = DeadLetterTopic"
  "ps_handler (archive_subscription flt) msg =
     DeadLetterStore_Save flt (meta_get PoisonedTopicKey msg) (wm_payload msg) (meta_get ReasonForPoisonedKey msg)"
  by (simp_all add: archive_subscription_def OnDeadLetter_def subscribe_def NewServiceBusWithTransport_def)

lemma retry_success: "h s = (Inr x, s') \<Longrightarrow> retryMiddleware cancelled h s = (Inr x, s')"
  by (simp add: retryMiddleware_def retry_loop_step retried_def)

text \<open>A handler that fails the same way without effect, every time.\<close>

lemma retry_stuck:
  assumes "h s = (Inl err, s)"
  shows "retryMiddleware cancelled h s = (Inl err, s)"
proof -
  have "attempt_state h k s = s" for k by (induction k) (simp_all add: assms)
  then show ?thesis using retry_loop_outcome [of 0 h cancelled s] assms by (auto simp: retryMiddleware_def)
qed

lemma poison_failedD:
  assumes "poison_spec poison" and "h msg s = (Inl err, s')" and "\<not> is_panic err"
  shows "\<exists>letter. dead_letter topic msg letter \<and>
    (case pub pt letter s' of
       (Inr _, s'') \<Rightarrow> poison pub pt topic h msg s = (Inr (), s'')
     | (Inl _, s'') \<Rightarrow> (\<exists>err'. poison pub pt topic h msg s = (Inl err', s'')))"
proof -
  note law = assms(1) [unfolded poison_spec_def, THEN spec [of _ pub], THEN spec [of _ pt], THEN spec [of _ topic],
      THEN spec [of _ h], THEN spec [of _ msg], THEN spec [of _ s], THEN conjunct2]
  from law [THEN spec [of _ err], THEN spec [of _ s'], THEN mp, OF assms(2), THEN mp, OF assms(3)] show ?thesis .
qed

lemma poison_okD:
  assumes "poison_spec poison" and "h msg s = (Inr (), s')"
  shows "poison pub pt topic h msg s = (Inr (), s')"
proof -
  note law = assms(1) [unfolded poison_spec_def, THEN spec [of _ pub], THEN spec [of _ pt], THEN spec [of _ topic],
      THEN spec [of _ h], THEN spec [of _ msg], THEN spec [of _ s], THEN conjunct1]
  from law [THEN spec [of _ s'], THEN mp, OF assms(2)] show ?thesis .
qed

lemma consume_failed:
  assumes "poison_spec poison" and "retryMiddleware cancelled (ps_handler p msg) w = (Inl err, w')" and "\<not> is_panic err"
  obtains letter where "dead_letter (ps_topic p) msg letter"
    and "consume poison accepts cancelled p msg w = (Inr (), (fst w', snd w' @ [(DeadLetterTopic, letter)]))"
proof -
  let ?h = "\<lambda>msg. retryMiddleware cancelled (ps_handler p msg)"
  obtain letter where letter: "dead_letter (ps_topic p) msg letter"
    and "case accepts DeadLetterTopic letter w' of
        (Inr _, s'') \<Rightarrow> poison accepts DeadLetterTopic (ps_topic p) ?h msg w = (Inr (), s'')
      | (Inl _, s'') \<Rightarrow> (\<exists>err'. poison accepts DeadLetterTopic (ps_topic p) ?h msg w = (Inl err', s''))"
    using poison_failedD [where h = ?h and pub = accepts and pt = DeadLetterTopic and topic = "ps_topic p", OF assms] by (elim exE conjE)
  then have "poison accepts DeadLetterTopic (ps_topic p) ?h msg w = (Inr (), (fst w', snd w' @ [(DeadLetterTopic, letter)]))"
    by (simp add: accepts_def)
  with letter show thesis by (intro that [of letter]) (simp_all only: consume_def)
qed

lemma consume_ok:
  assumes "poison_spec poison" and "retryMiddleware cancelled (ps_handler p msg) w = (Inr (), w')"
  shows "consume poison accepts cancelled p msg w = (Inr (), w')"
  unfolding consume_def by (rule poison_okD [where h = "\<lambda>msg. retryMiddleware cancelled (ps_handler p msg)", OF assms])

lemma archive_save:
  assumes "poison_spec poison" and "wm_payload msg = Json j"
  shows "consume poison accepts cancelled (archive_subscription None) msg (db, sent) =
    (Inr (), (db\<lparr>da_rows := da_rows db @ [\<lparr>dl_id = Suc (da_seq db), dl_topic = meta_get PoisonedTopicKey msg,
         dl_payload = Json j, dl_reason = meta_get ReasonForPoisonedKey msg, dl_redriven_at = None\<rparr>],
       da_seq := Suc (da_seq db)\<rparr>, sent))"
  by (rule consume_ok [OF assms(1)], rule retry_success) (simp add: DeadLetterStore_Save_def assms(2))

lemma redrive_all:
  "snd (snd (for_each (redrive_one clear_redrive now) rows w)) =
     snd w @ map (\<lambda>r. (dl_topic r, \<lparr>wm_payload = dl_payload r, wm_meta = Map.empty\<rparr>)) rows \<and>
   fst (for_each (redrive_one clear_redrive now) rows w) = Inr () \<and>
   da_rows (fst (snd (for_each (redrive_one clear_redrive now) rows w))) =
     map (\<lambda>r. if dl_id r \<in> dl_id ` set rows then r\<lparr>dl_redriven_at := Some now\<rparr> else r) (da_rows (fst w))"
  by (induction rows arbitrary: w) (auto simp: redrive_one_def clear_redrive_def Let_def stamp_def)

lemma redrive_clear:
  "fst (RedriveDeadLetters clear_redrive now w) = Inr (length (parked_letters clear_redrive (fst w)))"
  "snd (snd (RedriveDeadLetters clear_redrive now w)) =
     snd w @ map (\<lambda>r. (dl_topic r, \<lparr>wm_payload = dl_payload r, wm_meta = Map.empty\<rparr>)) (parked_letters clear_redrive (fst w))"
  "da_rows (fst (snd (RedriveDeadLetters clear_redrive now w))) =
     map (\<lambda>r. if dl_id r \<in> dl_id ` set (parked_letters clear_redrive (fst w)) then r\<lparr>dl_redriven_at := Some now\<rparr> else r) (da_rows (fst w))"
  using redrive_all [of now "parked_letters clear_redrive (fst w)" w]
  by (auto simp: RedriveDeadLetters_def Let_def clear_redrive_def split: prod.splits)


lemma redrive_stamps:
  assumes "row \<in> set (da_rows (fst (snd (RedriveDeadLetters clear_redrive now w))))"
  shows "dl_redriven_at row \<noteq> None"
proof -
  let ?P = "parked_letters clear_redrive (fst w)"
  obtain r where r: "r \<in> set (da_rows (fst w))"
    and row: "row = (if dl_id r \<in> dl_id ` set ?P then r\<lparr>dl_redriven_at := Some now\<rparr> else r)"
    using assms unfolding redrive_clear(3) by auto
  have "r \<in> set ?P" if "dl_redriven_at r = None" using r that by (simp add: parked_letters_def clear_redrive_def)
  with row show ?thesis by (cases "dl_redriven_at r = None") auto
qed

text \<open>A letter that is archived is redriven to the topic it names.\<close>

lemma archived_and_redriven:
  assumes "poison_spec poison" and "wm_payload letter = Json j" and "meta_get PoisonedTopicKey letter = topic"
  shows "\<exists>row db'. consume poison accepts cancelled (archive_subscription None) letter (db, sent) = (Inr (), (db', sent)) \<and>
    da_rows db' = da_rows db @ [row] \<and> dl_topic row = topic \<and>
    (topic, Json j) \<in> (\<lambda>(t, m). (t, wm_payload m)) ` set (snd (snd (RedriveDeadLetters clear_redrive now (db', sent))))"
proof -
  let ?row = "\<lparr>dl_id = Suc (da_seq db), dl_topic = topic, dl_payload = Json j, dl_reason = meta_get ReasonForPoisonedKey letter,
      dl_redriven_at = None\<rparr>"
  let ?db = "db\<lparr>da_rows := da_rows db @ [?row], da_seq := Suc (da_seq db)\<rparr>"
  have saved: "consume poison accepts cancelled (archive_subscription None) letter (db, sent) = (Inr (), (?db, sent))"
    using archive_save [OF assms(1,2)] assms(3) by simp
  have "?row \<in> set (parked_letters clear_redrive (fst (?db, sent)))"
    by (simp add: parked_letters_def clear_redrive_def)
  then have "(topic, Json j) \<in> (\<lambda>(t, m). (t, wm_payload m)) ` set (snd (snd (RedriveDeadLetters clear_redrive now (?db, sent))))"
    unfolding redrive_clear(2) by (force simp: image_iff)
  with saved show ?thesis by (intro exI [of _ ?row] exI [of _ ?db]) simp
qed

text \<open>
  C36. A message that keeps failing is parked and can be brought back: when its handler still
  fails after the retries, the message goes to the dead-letter topic and counts as
  handled; consuming it there archives it under the topic it failed on; and redriving then
  publishes the same payload to that topic again and leaves no letter unredriven.
\<close>

theorem failed_message_redriven:
  assumes "poison_spec poison" and "wm_payload msg = Json j"
    and "retryMiddleware cancelled (ps_handler p msg) (db, sent) = (Inl err, (db, sent))" and "\<not> is_panic err"
  shows "\<exists>letter w1 w2.
    consume poison accepts cancelled p msg (db, sent) = (Inr (), w1) \<and> snd w1 = sent @ [(DeadLetterTopic, letter)] \<and>
    consume poison accepts cancelled (archive_subscription None) letter w1 = (Inr (), w2) \<and>
    (ps_topic p, Json j) \<in> (\<lambda>(t, m). (t, wm_payload m)) ` set (snd (snd (RedriveDeadLetters clear_redrive now w2))) \<and>
    (\<forall>row \<in> set (da_rows (fst (snd (RedriveDeadLetters clear_redrive now w2)))). dl_redriven_at row \<noteq> None)"
proof -
  obtain letter where letter: "wm_payload letter = Json j" "meta_get PoisonedTopicKey letter = ps_topic p"
    and one: "consume poison accepts cancelled p msg (db, sent) = (Inr (), (db, sent @ [(DeadLetterTopic, letter)]))"
    using consume_failed [OF assms(1,3,4)] assms(2) by (auto simp: dead_letter_def)
  let ?sent = "sent @ [(DeadLetterTopic, letter)]"
  obtain db' where two: "consume poison accepts cancelled (archive_subscription None) letter (db, ?sent) = (Inr (), (db', ?sent))"
    and home: "(ps_topic p, Json j) \<in> (\<lambda>(t, m). (t, wm_payload m)) ` set (snd (snd (RedriveDeadLetters clear_redrive now (db', ?sent))))"
    using archived_and_redriven [OF assms(1) letter, of cancelled db ?sent now] by (elim exE conjE)
  have "\<forall>row \<in> set (da_rows (fst (snd (RedriveDeadLetters clear_redrive now (db', ?sent))))). dl_redriven_at row \<noteq> None"
    using redrive_stamps by blast
  with one two home show ?thesis
    by (intro exI [of _ letter] exI [of _ "(db, ?sent)"] exI [of _ "(db', ?sent)"]) simp
qed

definition refusing_handler :: "archive_state pendingSubscription" where
  "refusing_handler = \<lparr>ps_name = ''handler.x'', ps_topic = ''commands.x'', ps_handler = (\<lambda>msg w. (Inl (ErrInvalid ''no''), w))\<rparr>"

text \<open>
  A poison queue that meets the hypothesis: it writes four metadata keys and, when it cannot
  publish, returns an error of its own.
\<close>

definition poisoned :: "string \<Rightarrow> wmsg \<Rightarrow> wmsg" where
  "poisoned topic msg = msg\<lparr>wm_meta := (wm_meta msg)(ReasonForPoisonedKey \<mapsto> ''failed'', PoisonedTopicKey \<mapsto> topic,
     ''handler_poisoned'' \<mapsto> ''h'', ''subscriber_poisoned'' \<mapsto> ''s'')\<rparr>"

definition four_key_poison :: "'s poison" where
  "four_key_poison pub poisonTopic topic h msg s =
     (case h msg s of
        (Inr _, s') \<Rightarrow> (Inr (), s')
      | (Inl err, s') \<Rightarrow>
          if is_panic err then (Inl err, s')
          else (case pub poisonTopic (poisoned topic msg) s' of
                  (Inr _, s'') \<Rightarrow> (Inr (), s'')
                | (Inl _, s'') \<Rightarrow> (Inl (ErrOther ''cannot publish message to poison queue''), s'')))"

lemma poisoned_letter: "dead_letter topic msg (poisoned topic msg)"
  by (simp add: dead_letter_def poisoned_def meta_get_def PoisonedTopicKey_def ReasonForPoisonedKey_def)

lemma four_key_poison_ok: "poison_spec (four_key_poison :: 's poison)"
  unfolding poison_spec_def
proof (intro allI conjI impI)
  fix pub :: "'s publisher" and pt topic h msg and s :: 's
  show "four_key_poison pub pt topic h msg s = (Inr (), s')" if "h msg s = (Inr (), s')" for s'
    using that by (simp add: four_key_poison_def)
  show "\<exists>letter. dead_letter topic msg letter \<and>
      (case pub pt letter s' of
         (Inr _, s'') \<Rightarrow> four_key_poison pub pt topic h msg s = (Inr (), s'')
       | (Inl _, s'') \<Rightarrow> (\<exists>err'. four_key_poison pub pt topic h msg s = (Inl err', s'')))"
    if "h msg s = (Inl err, s')" "\<not> is_panic err" for err s'
    by (rule exI [of _ "poisoned topic msg"]) (use that in \<open>simp add: four_key_poison_def poisoned_letter split: prod.splits sum.splits\<close>)
qed

theorem failed_message_redriven_witness:
  "\<exists>letter w1 w2.
    consume four_key_poison accepts (\<lambda>_. False) refusing_handler \<lparr>wm_payload = Json JNull, wm_meta = Map.empty\<rparr>
      (\<lparr>da_rows = [], da_seq = 0\<rparr>, []) = (Inr (), w1) \<and> snd w1 = [] @ [(DeadLetterTopic, letter)] \<and>
    consume four_key_poison accepts (\<lambda>_. False) (archive_subscription None) letter w1 = (Inr (), w2) \<and>
    (''commands.x'', Json JNull) \<in> (\<lambda>(t, m). (t, wm_payload m)) ` set (snd (snd (RedriveDeadLetters clear_redrive 9 w2))) \<and>
    (\<forall>row \<in> set (da_rows (fst (snd (RedriveDeadLetters clear_redrive 9 w2)))). dl_redriven_at row \<noteq> None)"
proof -
  let ?m = "\<lparr>wm_payload = Json JNull, wm_meta = Map.empty\<rparr>"
  have "retryMiddleware (\<lambda>_. False) (ps_handler refusing_handler ?m) (\<lparr>da_rows = [], da_seq = 0\<rparr>, []) =
      (Inl (ErrInvalid ''no''), (\<lparr>da_rows = [], da_seq = 0\<rparr>, []))"
    by (rule retry_stuck) (simp add: refusing_handler_def)
  from failed_message_redriven [OF four_key_poison_ok _ this, of JNull 9]
  show ?thesis by (simp add: refusing_handler_def)
qed

text \<open>
  C28. A dead letter that cannot be archived loses its way: when the archive's insert fails,
  because the database is down or because the message is not JSON, which the column type
  excludes, the message is poisoned again and comes back on the dead-letter topic with that
  topic recorded as the one it failed on. Once the archive accepts it, the row names the
  dead-letter topic, and redriving sends the payload there.
\<close>

theorem unarchivable_letter_misrouted:
  assumes "poison_spec poison" and "flt \<noteq> None \<or> wm_payload letter = NotJson"
  shows "\<exists>letter'. consume poison accepts cancelled (archive_subscription flt) letter (db, sent) =
      (Inr (), (db, sent @ [(DeadLetterTopic, letter')])) \<and>
    wm_payload letter' = wm_payload letter \<and> meta_get PoisonedTopicKey letter' = DeadLetterTopic \<and>
    (\<forall>j. wm_payload letter = Json j \<longrightarrow>
       (\<exists>row db'. consume poison accepts cancelled' (archive_subscription None) letter' (db, sent') = (Inr (), (db', sent')) \<and>
         da_rows db' = da_rows db @ [row] \<and> dl_topic row = DeadLetterTopic \<and>
         (DeadLetterTopic, Json j) \<in> (\<lambda>(t, m). (t, wm_payload m)) ` set (snd (snd (RedriveDeadLetters clear_redrive now (db', sent'))))))"
proof -
  let ?h = "ps_handler (archive_subscription flt) letter"
  obtain e where e: "?h (db, sent) = (Inl (ErrOther e), (db, sent))"
    using assms(2) by (cases flt) (auto simp: DeadLetterStore_Save_def)
  obtain again where again: "wm_payload again = wm_payload letter" "meta_get PoisonedTopicKey again = DeadLetterTopic"
    and one: "consume poison accepts cancelled (archive_subscription flt) letter (db, sent) =
      (Inr (), (db, sent @ [(DeadLetterTopic, again)]))"
    using consume_failed [OF assms(1) retry_stuck [where h = ?h, OF e]] by (auto simp: dead_letter_def)
  have "\<exists>row db'. consume poison accepts cancelled' (archive_subscription None) again (db, sent') = (Inr (), (db', sent')) \<and>
         da_rows db' = da_rows db @ [row] \<and> dl_topic row = DeadLetterTopic \<and>
         (DeadLetterTopic, Json j) \<in> (\<lambda>(t, m). (t, wm_payload m)) ` set (snd (snd (RedriveDeadLetters clear_redrive now (db', sent'))))"
    if "wm_payload letter = Json j" for j
    by (rule archived_and_redriven [OF assms(1)]) (simp_all add: again that)
  with one again show ?thesis by (intro exI [of _ again]) simp
qed

theorem unarchivable_letter_misrouted_witness:
  "\<exists>letter'. consume four_key_poison accepts (\<lambda>_. False) (archive_subscription (Some ''connection refused''))
      (poisoned ''commands.x'' \<lparr>wm_payload = Json JNull, wm_meta = Map.empty\<rparr>) (\<lparr>da_rows = [], da_seq = 0\<rparr>, []) =
      (Inr (), (\<lparr>da_rows = [], da_seq = 0\<rparr>, [] @ [(DeadLetterTopic, letter')])) \<and>
    meta_get PoisonedTopicKey letter' = DeadLetterTopic \<and>
    (\<exists>row db'. consume four_key_poison accepts (\<lambda>_. False) (archive_subscription None) letter' (\<lparr>da_rows = [], da_seq = 0\<rparr>, []) =
        (Inr (), (db', [])) \<and> da_rows db' = [row] \<and>
      (DeadLetterTopic, Json JNull) \<in> (\<lambda>(t, m). (t, wm_payload m)) ` set (snd (snd (RedriveDeadLetters clear_redrive 9 (db', [])))))"
proof -
  let ?m = "poisoned ''commands.x'' \<lparr>wm_payload = Json JNull, wm_meta = Map.empty\<rparr>"
  have j: "wm_payload ?m = Json JNull" by (simp add: poisoned_def)
  have "Some ''connection refused'' \<noteq> None \<or> wm_payload ?m = NotJson" by simp
  from unarchivable_letter_misrouted [OF four_key_poison_ok this, of "\<lambda>_. False"
      "\<lparr>da_rows = [], da_seq = 0\<rparr>" "[]" "\<lambda>_. False" "[]" 9]
  obtain letter' where l: "consume four_key_poison accepts (\<lambda>_. False) (archive_subscription (Some ''connection refused'')) ?m
        (\<lparr>da_rows = [], da_seq = 0\<rparr>, []) = (Inr (), (\<lparr>da_rows = [], da_seq = 0\<rparr>, [] @ [(DeadLetterTopic, letter')]))"
      "meta_get PoisonedTopicKey letter' = DeadLetterTopic"
    and r: "\<exists>row db'. consume four_key_poison accepts (\<lambda>_. False) (archive_subscription None) letter' (\<lparr>da_rows = [], da_seq = 0\<rparr>, []) =
          (Inr (), (db', [])) \<and> da_rows db' = da_rows \<lparr>da_rows = [], da_seq = 0\<rparr> @ [row] \<and> dl_topic row = DeadLetterTopic \<and>
        (DeadLetterTopic, Json JNull) \<in> (\<lambda>(t, m). (t, wm_payload m)) ` set (snd (snd (RedriveDeadLetters clear_redrive 9 (db', []))))"
    using j by (elim exE conjE) blast
  from r have "\<exists>row db'. consume four_key_poison accepts (\<lambda>_. False) (archive_subscription None) letter' (\<lparr>da_rows = [], da_seq = 0\<rparr>, []) =
          (Inr (), (db', [])) \<and> da_rows db' = [row] \<and>
        (DeadLetterTopic, Json JNull) \<in> (\<lambda>(t, m). (t, wm_payload m)) ` set (snd (snd (RedriveDeadLetters clear_redrive 9 (db', []))))"
    by auto
  with l show ?thesis by blast
qed

end
