(* ===== verification/Modules.thy ===== *)
theory Modules
  imports Durable_System Command_Wire Delivery
begin

text \<open>
  The subscriptions of the program: \<^verbatim>\<open>Register\<close> of \<^verbatim>\<open>src/internal/sales/module.go\<close> and of
  \<^verbatim>\<open>src/internal/warehouses/module.go\<close> in durable mode, and the archive of dead letters of
  \<^verbatim>\<open>src/internal/app/app.go\<close>, on the service bus of \<open>Delivery\<close>. Handlers take the JSON of a
  message, as the bus delivers it, and act on the state of the composed system; the
  environment of the delivery (clock, fresh identifiers, database and network) is the
  parameter \<open>V\<close>. \<open>Durable_System\<close> delivers messages to a kind of subscription; here it is shown
  that what the bus runs is such a delivery.
\<close>

section \<open>Registrations\<close>

text \<open>The decoder of a domain event type, by the name of the type.\<close>

definition event_unmarshal :: "('p, 'e) event_codec \<Rightarrow> string \<Rightarrow> 'p \<Rightarrow> 'e result" where
  "event_unmarshal C name p = (case factories (ec_registry C) name of None \<Rightarrow> Inl (ErrOther ''no such event'') | Some unmarshal \<Rightarrow> unmarshal p)"

definition sales_handler :: "uuid_pkg \<Rightarrow> json_scalars \<Rightarrow> durable_env \<Rightarrow> sales_command \<Rightarrow> (durable, unit) handler" where
  "sales_handler U S V c = in_db (sales_handle U (durable_sales_repo U S V) (dv_now V) (dv_id V) c)"

definition sales_projection :: "durable_env \<Rightarrow> sales_event \<Rightarrow> (durable, unit) handler" where
  "sales_projection V e st = (case pg_project_sales (dv_sales V) e (du_orders st) of (r, t) \<Rightarrow> (r, st\<lparr>du_orders := t\<rparr>))"

definition sales_Register :: "uuid_pkg \<Rightarrow> json_scalars \<Rightarrow> durable_env \<Rightarrow> durable ServiceBus \<Rightarrow> durable ServiceBus" where
  "sales_Register U S V bus =
     (let event = event_unmarshal (sales_codec U S);
          b1 = RegisterCommandHandler ''sales.create_sales_order'' (unmarshal_CreateSalesOrder U S) (sales_handler U S V) bus;
          b2 = RegisterCommandHandler ''sales.mark_sales_order_allocated'' (unmarshal_MarkSalesOrderAllocated U) (sales_handler U S V) b1;
          b3 = RegisterCommandHandler ''sales.mark_sales_order_allocation_rejected'' (unmarshal_MarkSalesOrderAllocationRejected U)
                 (sales_handler U S V) b2;
          b4 = RegisterDomainEventHandler ''sales.sales_order_created'' (event ''sales.sales_order_created'')
                 ''sales.readmodel.sales_order_created'' (sales_projection V) b3;
          b5 = RegisterDomainEventHandler ''sales.sales_order_allocated'' (event ''sales.sales_order_allocated'')
                 ''sales.readmodel.sales_order_allocated'' (sales_projection V) b4;
          b6 = RegisterDomainEventHandler ''sales.sales_order_allocation_rejected'' (event ''sales.sales_order_allocation_rejected'')
                 ''sales.readmodel.sales_order_allocation_rejected'' (sales_projection V) b5;
          b7 = RegisterDomainEventHandler ''sales.sales_order_created'' (event ''sales.sales_order_created'')
                 ''sales.integration.sales_order_created'' (\<lambda>e. over_bus (publish_created U (dv_net V) e)) b6;
          b8 = SubscribeIntegrationEvent ''sales.on_order_allocation_completed'' OrderAllocationCompletedTopic
                 (\<lambda>p. over_bus (OnAllocationCompleted U (dv_net V) p)) b7
      in SubscribeIntegrationEvent ''sales.on_order_allocation_rejected'' OrderAllocationRejectedTopic
           (\<lambda>p. over_bus (OnAllocationRejected U (dv_net V) p)) b8)"

definition warehouse_handler :: "uuid_pkg \<Rightarrow> durable_env \<Rightarrow> warehouse_command \<Rightarrow> (durable, unit) handler" where
  "warehouse_handler U V c =
     in_db (warehouse_handle U (availability_repo (durable_warehouse_store U V) None) (dv_now V) (dv_id V) c)"

definition availability_projection :: "uuid_pkg \<Rightarrow> durable_env \<Rightarrow> warehouse_event \<Rightarrow> (durable, unit) handler" where
  "availability_projection U V e st =
     (case project_availability U (pg_UpsertAvailability U (dv_stock V)) e (du_stock st) of (r, t) \<Rightarrow> (r, st\<lparr>du_stock := t\<rparr>))"

definition saga_step :: "uuid_pkg \<Rightarrow> durable_env \<Rightarrow> warehouse_event \<Rightarrow> (durable, unit) handler" where
  "saga_step U V e = in_db (saga_on_event U (dv_net V) (saga_repo (durable_warehouse_store U V) None) (dv_now V) (dv_id V) e)"

definition warehouses_Register :: "uuid_pkg \<Rightarrow> durable_env \<Rightarrow> durable ServiceBus \<Rightarrow> durable ServiceBus" where
  "warehouses_Register U V bus =
     (let event = event_unmarshal (warehouse_codec U);
          b1 = RegisterCommandHandler ''warehouses.update_availability_due_to_production_order''
                 (unmarshal_UpdateAvailabilityDueToProductionOrder U) (warehouse_handler U V) bus;
          b2 = RegisterCommandHandler ''warehouses.update_availability_due_to_sales_order''
                 (unmarshal_UpdateAvailabilityDueToSalesOrder U) (warehouse_handler U V) b1;
          b3 = RegisterCommandHandler ''warehouses.compensate_availability_due_to_failed_allocation''
                 (unmarshal_CompensateAvailabilityDueToFailedAllocation U) (warehouse_handler U V) b2;
          b4 = RegisterDomainEventHandler ''warehouses.availability_updated_due_to_production_order''
                 (event ''warehouses.availability_updated_due_to_production_order'')
                 ''warehouses.readmodel.availability_updated'' (availability_projection U V) b3;
          b5 = RegisterDomainEventHandler ''warehouses.beer_availability_updated'' (event ''warehouses.beer_availability_updated'')
                 ''warehouses.readmodel.beer_availability_updated'' (availability_projection U V) b4;
          b6 = RegisterDomainEventHandler ''warehouses.availability_compensated'' (event ''warehouses.availability_compensated'')
                 ''warehouses.readmodel.availability_compensated'' (availability_projection U V) b5;
          b7 = SubscribeIntegrationEvent ''warehouses.saga.on_sales_order_created'' SalesOrderCreatedTopic
                 (\<lambda>p. in_db (OnSalesOrderCreated U (dv_net V) (saga_repo (durable_warehouse_store U V) None) (dv_now V) (dv_id V) p)) b6;
          b8 = RegisterDomainEventHandler ''warehouses.beer_availability_updated'' (event ''warehouses.beer_availability_updated'')
                 ''warehouses.saga.on_beer_availability_updated'' (saga_step U V) b7;
          b9 = RegisterDomainEventHandler ''warehouses.quantity_not_found'' (event ''warehouses.quantity_not_found'')
                 ''warehouses.saga.on_quantity_not_found'' (saga_step U V) b8
      in RegisterDomainEventHandler ''warehouses.availability_compensated'' (event ''warehouses.availability_compensated'')
           ''warehouses.saga.on_availability_compensated'' (saga_step U V) b9)"

text \<open>The bus as \<^verbatim>\<open>app.New\<close> leaves it; \<open>archive\<close> stores a dead letter.\<close>

definition durable_bus ::
  "uuid_pkg \<Rightarrow> json_scalars \<Rightarrow> durable_env \<Rightarrow> (string \<Rightarrow> payload \<Rightarrow> string \<Rightarrow> (durable, unit) handler) \<Rightarrow> durable ServiceBus" where
  "durable_bus U S V archive =
     warehouses_Register U V (sales_Register U S V
       (OnDeadLetter ''muflone.dead_letter_archive'' archive NewServiceBusWithTransport))"

section \<open>Names and topics\<close>

definition labels :: "'s ServiceBus \<Rightarrow> (string \<times> string) list" where
  "labels bus = map (\<lambda>p. (ps_name p, ps_topic p)) (sb_pending bus)"

lemma labels_register:
  "labels (subscribe name topic h bus) = labels bus @ [(name, topic)]"
  "labels NewServiceBusWithTransport = [(''muflone.dead_letter_monitor'', DeadLetterTopic)]"
  "labels (RegisterCommandHandler message un hc bus) = labels bus @ [(''handler.'' @ message, commandTopicPrefix @ message)]"
  "labels (RegisterDomainEventHandler message un' n he bus) = labels bus @ [(n, domainEventTopicPrefix @ message)]"
  "labels (SubscribeIntegrationEvent n message hi bus) = labels bus @ [(n, integrationEventTopicPrefix @ message)]"
  "labels (OnDeadLetter n hd' bus) = labels bus @ [(n, DeadLetterTopic)]"
  by (simp_all add: labels_def RegisterCommandHandler_def RegisterDomainEventHandler_def SubscribeIntegrationEvent_def
      OnDeadLetter_def NewServiceBusWithTransport_def subscribe_def)

lemma labels_filter: "length (filter (\<lambda>p. ps_topic p = t) (sb_pending bus)) = length (filter (\<lambda>l. snd l = t) (labels bus))"
  by (simp add: labels_def filter_map comp_def)

lemma labels_topic: "(\<exists>p \<in> set (sb_pending bus). ps_topic p = t) \<longleftrightarrow> t \<in> set (map snd (labels bus))"
  by (auto simp: labels_def image_iff)

lemma labels_names: "map ps_name (sb_pending bus) = map fst (labels bus)"
  by (simp add: labels_def)

lemma durable_labels:
  "labels (durable_bus U S V archive) =
    [(''muflone.dead_letter_monitor'', ''brewup.dead_letter''), (''muflone.dead_letter_archive'', ''brewup.dead_letter''),
     (''handler.sales.create_sales_order'', ''commands.sales.create_sales_order''),
     (''handler.sales.mark_sales_order_allocated'', ''commands.sales.mark_sales_order_allocated''),
     (''handler.sales.mark_sales_order_allocation_rejected'', ''commands.sales.mark_sales_order_allocation_rejected''),
     (''sales.readmodel.sales_order_created'', ''events.sales.sales_order_created''),
     (''sales.readmodel.sales_order_allocated'', ''events.sales.sales_order_allocated''),
     (''sales.readmodel.sales_order_allocation_rejected'', ''events.sales.sales_order_allocation_rejected''),
     (''sales.integration.sales_order_created'', ''events.sales.sales_order_created''),
     (''sales.on_order_allocation_completed'', ''integrationevents.warehouses.order_allocation_completed''),
     (''sales.on_order_allocation_rejected'', ''integrationevents.warehouses.order_allocation_rejected''),
     (''handler.warehouses.update_availability_due_to_production_order'', ''commands.warehouses.update_availability_due_to_production_order''),
     (''handler.warehouses.update_availability_due_to_sales_order'', ''commands.warehouses.update_availability_due_to_sales_order''),
     (''handler.warehouses.compensate_availability_due_to_failed_allocation'',
      ''commands.warehouses.compensate_availability_due_to_failed_allocation''),
     (''warehouses.readmodel.availability_updated'', ''events.warehouses.availability_updated_due_to_production_order''),
     (''warehouses.readmodel.beer_availability_updated'', ''events.warehouses.beer_availability_updated''),
     (''warehouses.readmodel.availability_compensated'', ''events.warehouses.availability_compensated''),
     (''warehouses.saga.on_sales_order_created'', ''integrationevents.sales.sales_order_created''),
     (''warehouses.saga.on_beer_availability_updated'', ''events.warehouses.beer_availability_updated''),
     (''warehouses.saga.on_quantity_not_found'', ''events.warehouses.quantity_not_found''),
     (''warehouses.saga.on_availability_compensated'', ''events.warehouses.availability_compensated'')]"
  unfolding durable_bus_def sales_Register_def warehouses_Register_def Let_def labels_register
  by (simp add: topic_defs SalesOrderCreatedTopic_def OrderAllocationCompletedTopic_def OrderAllocationRejectedTopic_def)

text \<open>
  C29. The wiring is well formed: no two subscriptions have the same name (the name keys the
  queue of a consumer group, and the router refuses a second handler of one name), every
  command is consumed by exactly one subscription, and every event and integration event
  that a module publishes for the other, or for its own projections and saga, is consumed.
\<close>

theorem wiring_well_formed:
  "distinct (map ps_name (sb_pending (durable_bus U S V archive))) \<and>
   (\<forall>c. length (filter (\<lambda>p. ps_topic p = commandTopicPrefix @ sales_command_name c) (sb_pending (durable_bus U S V archive))) = 1) \<and>
   (\<forall>c. length (filter (\<lambda>p. ps_topic p = commandTopicPrefix @ warehouse_command_name c) (sb_pending (durable_bus U S V archive))) = 1) \<and>
   (\<forall>e. \<exists>p \<in> set (sb_pending (durable_bus U S V archive)). ps_topic p = domainEventTopicPrefix @ sales_event_name e) \<and>
   (\<forall>e. \<exists>p \<in> set (sb_pending (durable_bus U S V archive)). ps_topic p = integrationEventTopicPrefix @ sales_integration_name e) \<and>
   (\<forall>e. \<exists>p \<in> set (sb_pending (durable_bus U S V archive)). ps_topic p = integrationEventTopicPrefix @ warehouse_integration_name e)"
proof -
  let ?ls = "labels (durable_bus U S V archive)"
  have "distinct (map fst ?ls)" unfolding durable_labels by simp
  moreover have "length (filter (\<lambda>l. snd l = commandTopicPrefix @ sales_command_name c) ?ls) = 1" for c
    unfolding durable_labels by (cases c) (simp_all add: topic_defs)
  moreover have "length (filter (\<lambda>l. snd l = commandTopicPrefix @ warehouse_command_name c) ?ls) = 1" for c
    unfolding durable_labels by (cases c) (simp_all add: topic_defs)
  moreover have "domainEventTopicPrefix @ sales_event_name e \<in> set (map snd ?ls)" for e
    unfolding durable_labels by (cases e) (simp_all add: topic_defs)
  moreover have "integrationEventTopicPrefix @ sales_integration_name e \<in> set (map snd ?ls)" for e
    unfolding durable_labels by (cases e) (simp add: topic_defs SalesOrderCreatedName_def)
  moreover have "integrationEventTopicPrefix @ warehouse_integration_name e \<in> set (map snd ?ls)" for e
    unfolding durable_labels by (cases e) (simp_all add: topic_defs OrderAllocationCompletedName_def OrderAllocationRejectedName_def)
  ultimately show ?thesis unfolding labels_names labels_filter labels_topic by blast
qed

section \<open>What the bus runs is a delivery of the composed system\<close>

text \<open>
  The form in which a message is on the wire. In durable mode no domain event is published
  directly, so only commands and integration events have a direct form.
\<close>

fun wire_form :: "uuid_pkg \<Rightarrow> json_scalars \<Rightarrow> durable_message \<Rightarrow> (string \<times> payload) option" where
  "wire_form U S (Relayed w) = Some w"
| "wire_form U S (Direct (t, Raw p)) = Some (t, p)"
| "wire_form U S (Direct (t, Typed (WCommand c))) = (case marshal_warehouse_command U c of Inl _ \<Rightarrow> None | Inr p \<Rightarrow> Some (t, p))"
| "wire_form U S (Direct (t, Typed (SCommand c))) = (case marshal_sales_command U S c of Inl _ \<Rightarrow> None | Inr p \<Rightarrow> Some (t, p))"
| "wire_form U S _ = None"

text \<open>A message is on the topic of its kind and name.\<close>

fun addressed :: "durable_message \<Rightarrow> bool" where
  "addressed (Relayed w) \<longleftrightarrow> prefix domainEventTopicPrefix (fst w)"
| "addressed (Direct (t, Raw p)) \<longleftrightarrow> prefix integrationEventTopicPrefix t"
| "addressed (Direct (t, Typed (WCommand c))) \<longleftrightarrow> t = commandTopicPrefix @ warehouse_command_name c"
| "addressed (Direct (t, Typed (SCommand c))) \<longleftrightarrow> t = commandTopicPrefix @ sales_command_name c"
| "addressed _ \<longleftrightarrow> True"

definition faithful :: "uuid_pkg \<Rightarrow> json_scalars \<Rightarrow> durable_env \<Rightarrow> durable pendingSubscription \<Rightarrow> bool" where
  "faithful U S V p \<longleftrightarrow> (\<forall>m msg st. addressed m \<longrightarrow> wire_form U S m = Some (ps_topic p, wm_payload msg) \<longrightarrow>
     (\<exists>sub. ps_handler p msg st = durable_deliver U S V sub m st))"

lemma published_addressed:
  assumes "durable_inv U S st" and "m \<in> published st"
  shows "addressed m"
proof (cases m)
  case (Direct w)
  then have "wire_ok U (w_hist U (du_db st)) (s_hist U S (du_db st)) w"
    using assms(2) durable_invD(4) [OF assms(1)] by (auto simp: published_def)
  with Direct show ?thesis
    by (cases "(U, w_hist U (du_db st), s_hist U S (du_db st), w)" rule: wire_ok.cases) simp_all
next
  case (Relayed w)
  then have "backed (du_db st) w" using assms(2) durable_invD(6) [OF assms(1)] by (auto simp: published_def)
  with Relayed show ?thesis by (auto simp: backed_def wire_of_row_def)
qed

text \<open>Each kind of registration keeps the subscriptions faithful.\<close>

lemma faithful_subscribe:
  assumes "\<forall>p \<in> set (sb_pending bus). faithful U S V p"
    and "faithful U S V \<lparr>ps_name = name, ps_topic = topic, ps_handler = h\<rparr>"
  shows "\<forall>p \<in> set (sb_pending (subscribe name topic h bus)). faithful U S V p"
  using assms by (auto simp: subscribe_def)

lemma topics_apart:
  "prefix domainEventTopicPrefix (commandTopicPrefix @ x) \<longleftrightarrow> False" "prefix integrationEventTopicPrefix (commandTopicPrefix @ x) \<longleftrightarrow> False"
  "prefix integrationEventTopicPrefix (domainEventTopicPrefix @ x) \<longleftrightarrow> False" "prefix domainEventTopicPrefix (integrationEventTopicPrefix @ x) \<longleftrightarrow> False"
  "commandTopicPrefix @ x \<noteq> domainEventTopicPrefix @ y" "commandTopicPrefix @ x \<noteq> integrationEventTopicPrefix @ y"
  "\<not> prefix domainEventTopicPrefix DeadLetterTopic" "\<not> prefix integrationEventTopicPrefix DeadLetterTopic"
  "DeadLetterTopic \<noteq> commandTopicPrefix @ x" "commandTopicPrefix @ x \<noteq> DeadLetterTopic"
  by (simp_all add: topic_defs)

lemma faithfulI:
  assumes "\<And>m msg st. addressed m \<Longrightarrow> wire_form U S m = Some (topic, wm_payload msg) \<Longrightarrow>
    \<exists>sub. h msg st = durable_deliver U S V sub m st"
  shows "faithful U S V \<lparr>ps_name = n, ps_topic = topic, ps_handler = h\<rparr>"
  using assms by (simp add: faithful_def)

lemma faithful_dead_letters: "faithful U S V \<lparr>ps_name = n, ps_topic = DeadLetterTopic, ps_handler = h\<rparr>"
proof (rule faithfulI)
  fix m :: durable_message and msg :: wmsg and st assume "addressed m" "wire_form U S m = Some (DeadLetterTopic, wm_payload msg)"
  then show "\<exists>sub. h msg st = durable_deliver U S V sub m st"
    by (cases "(U, S, m)" rule: wire_form.cases) (auto simp: topics_apart split: sum.splits)
qed

lemma faithful_event:
  assumes "factories (ec_registry C) name = Some unmarshal"
    and "\<And>w st. durable_deliver U S V sub (Relayed w) st = on_received C w f st"
  shows "faithful U S V \<lparr>ps_name = n, ps_topic = domainEventTopicPrefix @ name,
    ps_handler = (\<lambda>msg s. case event_unmarshal C name (wm_payload msg) of Inl err \<Rightarrow> (Inl err, s) | Inr e \<Rightarrow> f e s)\<rparr>"
proof (rule faithfulI)
  fix m :: durable_message and msg :: wmsg and st
  assume a: "addressed m" "wire_form U S m = Some (domainEventTopicPrefix @ name, wm_payload msg)"
  then have m: "m = Relayed (domainEventTopicPrefix @ name, wm_payload msg)"
    by (cases "(U, S, m)" rule: wire_form.cases) (auto simp: topics_apart split: sum.splits)
  have "received C (domainEventTopicPrefix @ name, wm_payload msg) = Some (event_unmarshal C name (wm_payload msg))"
    by (simp add: received_def event_unmarshal_def assms(1))
  then have "(case event_unmarshal C name (wm_payload msg) of Inl err \<Rightarrow> (Inl err, st) | Inr e \<Rightarrow> f e st) =
      durable_deliver U S V sub m st"
    unfolding m assms(2) on_received_def by (simp split: sum.splits)
  then show "\<exists>sub. (case event_unmarshal C name (wm_payload msg) of Inl err \<Rightarrow> (Inl err, st) | Inr e \<Rightarrow> f e st) =
      durable_deliver U S V sub m st" by blast
qed

lemma faithful_integration:
  assumes "\<And>p st. durable_deliver U S V sub (Direct (integrationEventTopicPrefix @ name, Raw p)) st = f p st"
  shows "faithful U S V \<lparr>ps_name = n, ps_topic = integrationEventTopicPrefix @ name, ps_handler = (\<lambda>msg. f (wm_payload msg))\<rparr>"
proof (rule faithfulI)
  fix m :: durable_message and msg :: wmsg and st
  assume a: "addressed m" "wire_form U S m = Some (integrationEventTopicPrefix @ name, wm_payload msg)"
  then have m: "m = Direct (integrationEventTopicPrefix @ name, Raw (wm_payload msg))"
    by (cases "(U, S, m)" rule: wire_form.cases)
      (auto simp: topics_apart split: sum.splits dest: topics_apart(6) [THEN notE, OF sym])
  show "\<exists>sub. f (wm_payload msg) st = durable_deliver U S V sub m st"
    unfolding m using assms by metis
qed

lemma faithful_sales_command:
  assumes "uuid_ok U" and "scalars_ok S" and "\<And>c. sales_command_name c = name \<Longrightarrow> unmarshal_sales_as U S c = unmarshal"
    and "\<And>c. warehouse_command_name c \<noteq> name"
  shows "faithful U S V \<lparr>ps_name = n, ps_topic = commandTopicPrefix @ name,
    ps_handler = (\<lambda>msg s. case unmarshal (wm_payload msg) of Inl err \<Rightarrow> (Inl err, s) | Inr c \<Rightarrow> sales_handler U S V c s)\<rparr>"
proof (rule faithfulI)
  fix m :: durable_message and msg :: wmsg and st
  assume a: "addressed m" "wire_form U S m = Some (commandTopicPrefix @ name, wm_payload msg)"
  then obtain c where m: "m = Direct (commandTopicPrefix @ name, Typed (SCommand c))" and c: "sales_command_name c = name"
    and p: "marshal_sales_command U S c = Inr (wm_payload msg)"
    using assms(4) by (cases "(U, S, m)" rule: wire_form.cases) (auto simp: topics_apart split: sum.splits)
  from sales_command_received [OF assms(1,2) p] assms(3) [OF c] have "unmarshal (wm_payload msg) = Inr c" by simp
  then show "\<exists>sub. (case unmarshal (wm_payload msg) of Inl err \<Rightarrow> (Inl err, st) | Inr c \<Rightarrow> sales_handler U S V c st) =
      durable_deliver U S V sub m st"
    by (intro exI [of _ DSalesCommands]) (simp add: m sales_handler_def)
qed

lemma faithful_warehouse_command:
  assumes "uuid_ok U" and "\<And>c. warehouse_command_name c = name \<Longrightarrow> unmarshal_warehouse_as U c = unmarshal"
    and "\<And>c. sales_command_name c \<noteq> name"
  shows "faithful U S V \<lparr>ps_name = n, ps_topic = commandTopicPrefix @ name,
    ps_handler = (\<lambda>msg s. case unmarshal (wm_payload msg) of Inl err \<Rightarrow> (Inl err, s) | Inr c \<Rightarrow> warehouse_handler U V c s)\<rparr>"
proof (rule faithfulI)
  fix m :: durable_message and msg :: wmsg and st
  assume a: "addressed m" "wire_form U S m = Some (commandTopicPrefix @ name, wm_payload msg)"
  then obtain c where m: "m = Direct (commandTopicPrefix @ name, Typed (WCommand c))" and c: "warehouse_command_name c = name"
    and p: "marshal_warehouse_command U c = Inr (wm_payload msg)"
    using assms(3) by (cases "(U, S, m)" rule: wire_form.cases) (auto simp: topics_apart split: sum.splits)
  from warehouse_command_received [OF assms(1) p] assms(2) [OF c] have "unmarshal (wm_payload msg) = Inr c" by simp
  then show "\<exists>sub. (case unmarshal (wm_payload msg) of Inl err \<Rightarrow> (Inl err, st) | Inr c \<Rightarrow> warehouse_handler U V c st) =
      durable_deliver U S V sub m st"
    by (intro exI [of _ DWarehouseCommands]) (simp add: m warehouse_handler_def)
qed

lemma sales_Register_faithful:
  assumes "uuid_ok U" and "scalars_ok S" and "\<forall>p \<in> set (sb_pending bus). faithful U S V p"
  shows "\<forall>p \<in> set (sb_pending (sales_Register U S V bus)). faithful U S V p"
proof -
  have command: "unmarshal_sales_as U S c = unmarshal_CreateSalesOrder U S" if "sales_command_name c = ''sales.create_sales_order''" for c
    using that by (cases c) simp_all
  have command': "unmarshal_sales_as U S c = unmarshal_MarkSalesOrderAllocated U" if "sales_command_name c = ''sales.mark_sales_order_allocated''" for c
    using that by (cases c) simp_all
  have command'': "unmarshal_sales_as U S c = unmarshal_MarkSalesOrderAllocationRejected U"
    if "sales_command_name c = ''sales.mark_sales_order_allocation_rejected''" for c
    using that by (cases c) simp_all
  have other: "warehouse_command_name c \<noteq> ''sales.'' @ x" for c x by (cases c) simp_all
  have projection: "durable_deliver U S V DSalesProjection (Relayed w) st = on_received (sales_codec U S) w (sales_projection V) st" for w st
    by (simp add: sales_projection_def [abs_def])
  have integration: "durable_deliver U S V DSalesIntegration (Relayed w) st =
      on_received (sales_codec U S) w (\<lambda>e. over_bus (publish_created U (dv_net V) e)) st" for w st by simp
  note event = faithful_event [where C = "sales_codec U S"]
  have reg: "\<exists>f. factories (ec_registry (sales_codec U S)) n = Some f"
    if "n \<in> {''sales.sales_order_created'', ''sales.sales_order_allocated'', ''sales.sales_order_allocation_rejected''}" for n
    using that by (auto simp: sales_codec_def sales_NewEventRegistry_def)
  show ?thesis
    unfolding sales_Register_def Let_def RegisterCommandHandler_def RegisterDomainEventHandler_def SubscribeIntegrationEvent_def
    using reg [of "''sales.sales_order_created''"] reg [of "''sales.sales_order_allocated''"] reg [of "''sales.sales_order_allocation_rejected''"]
      other [of _ "''create_sales_order''"] other [of _ "''mark_sales_order_allocated''"] other [of _ "''mark_sales_order_allocation_rejected''"]
    by (intro faithful_subscribe assms(3) faithful_sales_command [OF assms(1,2)] faithful_integration [where sub = DSalesOutcomes])
      (auto simp: command command' command'' over_bus_def on_outcome_def OrderAllocationCompletedTopic_def OrderAllocationRejectedTopic_def
        intro: event [OF _ projection] event [OF _ integration])
qed

lemma warehouses_Register_faithful:
  assumes "uuid_ok U" and "\<forall>p \<in> set (sb_pending bus). faithful U S V p"
  shows "\<forall>p \<in> set (sb_pending (warehouses_Register U V bus)). faithful U S V p"
proof -
  have command: "unmarshal_warehouse_as U c = unmarshal_UpdateAvailabilityDueToProductionOrder U"
    if "warehouse_command_name c = ''warehouses.update_availability_due_to_production_order''" for c
    using that by (cases c) simp_all
  have command': "unmarshal_warehouse_as U c = unmarshal_UpdateAvailabilityDueToSalesOrder U"
    if "warehouse_command_name c = ''warehouses.update_availability_due_to_sales_order''" for c
    using that by (cases c) simp_all
  have command'': "unmarshal_warehouse_as U c = unmarshal_CompensateAvailabilityDueToFailedAllocation U"
    if "warehouse_command_name c = ''warehouses.compensate_availability_due_to_failed_allocation''" for c
    using that by (cases c) simp_all
  have other: "sales_command_name c \<noteq> ''warehouses.'' @ x" for c x by (cases c) simp_all
  have projection: "durable_deliver U S V DWarehouseProjection (Relayed w) st =
      on_received (warehouse_codec U) w (availability_projection U V) st" for w st
    by (simp add: availability_projection_def [abs_def])
  have step: "durable_deliver U S V DSagaSteps (Relayed w) st = on_received (warehouse_codec U) w (saga_step U V) st" for w st
    by (simp add: saga_step_def [abs_def])
  note event = faithful_event [where C = "warehouse_codec U"]
  have reg: "\<exists>f. factories (ec_registry (warehouse_codec U)) n = Some f"
    if "n \<in> {''warehouses.availability_updated_due_to_production_order'', ''warehouses.beer_availability_updated'',
       ''warehouses.quantity_not_found'', ''warehouses.availability_compensated''}" for n
    using that by (auto simp: warehouse_codec_def warehouses_NewEventRegistry_def)
  show ?thesis
    unfolding warehouses_Register_def Let_def RegisterCommandHandler_def RegisterDomainEventHandler_def SubscribeIntegrationEvent_def
    using reg [of "''warehouses.availability_updated_due_to_production_order''"] reg [of "''warehouses.beer_availability_updated''"]
      reg [of "''warehouses.quantity_not_found''"] reg [of "''warehouses.availability_compensated''"]
      other [of _ "''update_availability_due_to_production_order''"] other [of _ "''update_availability_due_to_sales_order''"]
      other [of _ "''compensate_availability_due_to_failed_allocation''"]
    by (intro faithful_subscribe assms(2) faithful_warehouse_command [OF assms(1)] faithful_integration [where sub = DSagaTrigger])
      (auto simp: command command' command'' intro: event [OF _ projection] event [OF _ step])
qed

lemma durable_bus_faithful:
  assumes "uuid_ok U" and "scalars_ok S" and "p \<in> set (sb_pending (durable_bus U S V archive))"
  shows "faithful U S V p"
proof -
  have "\<forall>p \<in> set (sb_pending (OnDeadLetter ''muflone.dead_letter_archive'' archive NewServiceBusWithTransport)). faithful U S V p"
    unfolding OnDeadLetter_def NewServiceBusWithTransport_def
    by (intro faithful_subscribe faithful_dead_letters) simp
  with warehouses_Register_faithful [OF assms(1)] sales_Register_faithful [OF assms(1,2)] assms(3) show ?thesis
    unfolding durable_bus_def by blast
qed

text \<open>
  C3. The composed system is what the wired bus runs: take any reachable state, any message
  that was published (by a sender over the bus or by the outbox relay) in its JSON form, and
  any subscription of the bus on its topic. Then running that subscription's handler on the
  message is exactly a delivery step of the composed system, so the state it leads to is
  reachable and everything proved of reachable states holds there.
\<close>

theorem wired_delivery_is_step:
  assumes "uuid_ok U" and "scalars_ok S" and "durable_reach U S st" and "serial U V"
    and "m \<in> published st" and "wire_form U S m = Some (topic, wm_payload msg)"
    and "p \<in> set (sb_pending (durable_bus U S V archive))" and "ps_topic p = topic"
  shows "(\<exists>sub. ps_handler p msg st = durable_deliver U S V sub m st) \<and> durable_reach U S (snd (ps_handler p msg st))"
proof -
  have "addressed m" by (rule published_addressed [OF durable_reach_inv [OF assms(3,1,2)] assms(5)])
  then obtain sub where "ps_handler p msg st = durable_deliver U S V sub m st"
    using durable_bus_faithful [OF assms(1,2,7)] assms(6,8) unfolding faithful_def by blast
  then show ?thesis using durable_reach.delivery [OF assms(3,4,5), of sub] by auto
qed

definition demo_sent :: durable where
  "demo_sent = snd (over_bus (facade_UpdateAvailabilityDueToProductionOrder tally_uuid open_net 8
     \<lparr>po_BeerId = UString tally_uuid 5, po_BeerName = ''IPA'', po_Quantity = NewQuantity 100 ''Lt''\<rparr>) new_durable)"

theorem wired_delivery_is_step_witness:
  "\<exists>p msg. p \<in> set (sb_pending (durable_bus tally_uuid plain_scalars demo_env (\<lambda>_ _ _ st. (Inr (), st)))) \<and>
     ps_topic p = ''commands.warehouses.update_availability_due_to_production_order'' \<and>
     (\<exists>sub. ps_handler p msg demo_sent = durable_deliver tally_uuid plain_scalars demo_env sub (Direct (hd (du_sent demo_sent))) demo_sent) \<and>
     durable_reach tally_uuid plain_scalars (snd (ps_handler p msg demo_sent))"
proof -
  let ?c = "NewUpdateAvailabilityDueToProductionOrder 5 8 ''IPA'' (NewQuantity 100 ''Lt'')"
  let ?topic = "''commands.warehouses.update_availability_due_to_production_order''"
  have reach: "durable_reach tally_uuid plain_scalars demo_sent"
    unfolding demo_sent_def by (intro durable_reach.intros)
  have sent: "du_sent demo_sent = [(?topic, Typed (WCommand ?c))]"
    by (simp add: demo_sent_def over_bus_def new_durable_def tally_uuid_ok production_facade_sends [where b = 5]
        command_wire_def topic_defs msg_defs)
  obtain pl where pl: "marshal_warehouse_command tally_uuid ?c = Inr pl" by (simp add: marshal_warehouse_command_def)
  obtain p where p: "p \<in> set (sb_pending (durable_bus tally_uuid plain_scalars demo_env (\<lambda>_ _ _ st. (Inr (), st))))" "ps_topic p = ?topic"
    using labels_topic [of "durable_bus tally_uuid plain_scalars demo_env (\<lambda>_ _ _ st. (Inr (), st))" ?topic]
    unfolding durable_labels by auto
  have m: "Direct (hd (du_sent demo_sent)) \<in> published demo_sent" by (simp add: published_def sent)
  have form: "wire_form tally_uuid plain_scalars (Direct (hd (du_sent demo_sent))) =
      Some (?topic, wm_payload \<lparr>wm_payload = pl, wm_meta = Map.empty\<rparr>)" by (simp add: sent pl)
  from wired_delivery_is_step [OF tally_uuid_ok plain_scalars_ok reach demo_env_serial m form p(1,2)] p show ?thesis by blast
qed

end
