(* ===== verification/Config.thy ===== *)
theory Config
  imports Brew_Prelude
begin

text \<open>
  \<^verbatim>\<open>src/internal/platform/config/config.go\<close>: the settings read from the environment, with the
  parts of \<^verbatim>\<open>strconv\<close>, \<^verbatim>\<open>strings\<close> and \<^verbatim>\<open>time\<close> that it calls, and the level parser of
  \<^verbatim>\<open>src/internal/platform/logging/logger.go\<close>. The environment is a map from names to values.
  Arithmetic on \<^verbatim>\<open>float64\<close> and the Unicode case tables enter as the parameter \<open>go_tables\<close>: a
  setting that is a float is kept as its 64 bits.
\<close>

section \<open>Integers and durations\<close>

definition is_digit :: "char \<Rightarrow> bool" where
  "is_digit c \<longleftrightarrow> 48 \<le> (of_char c :: nat) \<and> (of_char c :: nat) \<le> 57"

definition digit_val :: "char \<Rightarrow> nat" where
  "digit_val c = of_char c - 48"

fun digits_value :: "string \<Rightarrow> int \<Rightarrow> int option" where
  "digits_value [] acc = Some acc"
| "digits_value (c # cs) acc = (if is_digit c then digits_value cs (10 * acc + int (digit_val c)) else None)"

definition clamp_int :: "int \<Rightarrow> go_int" where
  "clamp_int i = word_of_int (max (- (2 ^ 63)) (min max_int i))"

text \<open>
  \<^verbatim>\<open>strconv.Atoi\<close>: the value and whether there is an error. A syntax error gives zero, a value
  out of range the nearest bound.
\<close>

definition Atoi :: "string \<Rightarrow> go_int \<times> bool" where
  "Atoi s =
     (case s of
        [] \<Rightarrow> (0, False)
      | c # cs \<Rightarrow>
          (let (neg, ds) = (if c = CHR ''-'' then (True, cs) else if c = CHR ''+'' then (False, cs) else (False, s)) in
           if ds = [] then (0, False)
           else case digits_value ds 0 of
                  None \<Rightarrow> (0, False)
                | Some v \<Rightarrow> let i = (if neg then - v else v) in (clamp_int i, - (2 ^ 63) \<le> i \<and> i \<le> max_int)))"

record go_tables =
  tb_ParseFloat :: "string \<Rightarrow> 64 word option"
  tb_fraction :: "nat \<Rightarrow> nat \<Rightarrow> nat \<Rightarrow> nat"
  tb_ToLower :: "string \<Rightarrow> string"

text \<open>
  \<^verbatim>\<open>time.ParseDuration\<close>, in nanoseconds. Counting is in \<^verbatim>\<open>uint64\<close>. The fraction \<open>f\<close> with \<open>n\<close>
  digits of a unit contributes \<open>tb_fraction f n unit\<close>, a product of floats.
\<close>

fun leadingInt :: "nat \<Rightarrow> string \<Rightarrow> (nat \<times> string) option" where
  "leadingInt x [] = Some (x, [])"
| "leadingInt x (c # cs) =
     (if \<not> is_digit c then Some (x, c # cs)
      else if x > 2 ^ 63 div 10 then None
      else let x' = 10 * x + digit_val c in if x' > 2 ^ 63 then None else leadingInt x' cs)"

fun leadingFraction :: "nat \<Rightarrow> nat \<Rightarrow> bool \<Rightarrow> string \<Rightarrow> nat \<times> nat \<times> string" where
  "leadingFraction x n overflow [] = (x, n, [])"
| "leadingFraction x n overflow (c # cs) =
     (if \<not> is_digit c then (x, n, c # cs)
      else if overflow \<or> x > (2 ^ 63 - 1) div 10 \<or> 10 * x + digit_val c > 2 ^ 63 then leadingFraction x n True cs
      else leadingFraction (10 * x + digit_val c) (Suc n) False cs)"

definition unitMap :: "string \<Rightarrow> nat option" where
  "unitMap = map_of
     [(''ns'', 1), (''us'', 1000), ([CHR 0xC2, CHR 0xB5, CHR ''s''], 1000), ([CHR 0xCE, CHR 0xBC, CHR ''s''], 1000),
      (''ms'', 1000000), (''s'', 1000000000), (''m'', 60000000000), (''h'', 3600000000000)]"

definition unit_char :: "char \<Rightarrow> bool" where
  "unit_char c \<longleftrightarrow> \<not> (c = CHR ''.'' \<or> is_digit c)"

definition fraction_part :: "string \<Rightarrow> nat \<times> nat \<times> string \<times> bool" where
  "fraction_part s1 =
     (if s1 \<noteq> [] \<and> hd s1 = CHR ''.''
      then (let (f, n, r) = leadingFraction 0 0 False (tl s1) in (f, n, r, length r \<noteq> length (tl s1)))
      else (0, 0, s1, False))"

text \<open>One number with its unit: what it adds and what is left.\<close>

definition duration_item :: "go_tables \<Rightarrow> string \<Rightarrow> (nat \<times> string) option" where
  "duration_item T s =
     (case leadingInt 0 s of
        None \<Rightarrow> None
      | Some (v, s1) \<Rightarrow>
          (let pre = (length s1 \<noteq> length s);
               (f, n, s2, post) = fraction_part s1
           in if \<not> pre \<and> \<not> post then None
              else if takeWhile unit_char s2 = [] then None
              else case unitMap (takeWhile unit_char s2) of
                None \<Rightarrow> None
              | Some unit \<Rightarrow>
                  if v > 2 ^ 63 div unit then None
                  else let v' = (if f > 0 then (v * unit + tb_fraction T f n unit) mod 2 ^ 64 else v * unit) in
                    if f > 0 \<and> v' > 2 ^ 63 then None else Some (v', dropWhile unit_char s2)))"

lemma leadingInt_length: "leadingInt x s = Some (v, r) \<Longrightarrow> length r \<le> length s"
  by (induction x s rule: leadingInt.induct) (auto simp: Let_def split: if_splits)

lemma leadingFraction_length: "leadingFraction x n ov s = (f, m, r) \<Longrightarrow> length r \<le> length s"
  by (induction x n ov s rule: leadingFraction.induct) (auto split: if_splits)

lemma fraction_part_length:
  assumes "fraction_part s1 = (f, n, s2, post)"
  shows "length s2 \<le> length s1"
proof (cases "s1 \<noteq> [] \<and> hd s1 = CHR ''.''")
  case True
  obtain f' n' r where "leadingFraction 0 0 False (tl s1) = (f', n', r)" by (metis prod_cases3)
  with True assms leadingFraction_length [OF this] show ?thesis by (simp add: fraction_part_def)
qed (use assms in \<open>auto simp: fraction_part_def\<close>)

lemma duration_item_shorter:
  assumes "duration_item T s = Some (v, r)"
  shows "length r < length s"
proof -
  obtain v0 s1 where s1: "leadingInt 0 s = Some (v0, s1)" using assms by (auto simp: duration_item_def split: option.splits)
  obtain f n s2 post where s2: "fraction_part s1 = (f, n, s2, post)" by (metis prod_cases4)
  have r: "r = dropWhile unit_char s2" and ne: "takeWhile unit_char s2 \<noteq> []"
    using assms s1 s2 by (auto simp: duration_item_def Let_def split: option.splits if_splits)
  have "length s2 = length (takeWhile unit_char s2) + length r"
    unfolding r by (metis length_append takeWhile_dropWhile_id)
  moreover have "0 < length (takeWhile unit_char s2)" using ne by blast
  ultimately show ?thesis using fraction_part_length [OF s2] leadingInt_length [OF s1] by linarith
qed

function duration_loop :: "go_tables \<Rightarrow> nat \<Rightarrow> string \<Rightarrow> nat option" where
  "duration_loop T d s =
     (if s = [] then Some d
      else if unit_char (hd s) then None
      else case duration_item T s of
        None \<Rightarrow> None
      | Some (v, r) \<Rightarrow> let d' = (d + v) mod 2 ^ 64 in if d' > 2 ^ 63 then None else duration_loop T d' r)"
  by pat_completeness auto
termination
  by (relation "measure (\<lambda>(T, d, s). length s)") (auto dest: duration_item_shorter)

declare duration_loop.simps [simp del]

definition ParseDuration :: "go_tables \<Rightarrow> string \<Rightarrow> go_int option" where
  "ParseDuration T s =
     (let neg = (s \<noteq> [] \<and> hd s = CHR ''-'');
          s1 = (if s \<noteq> [] \<and> (hd s = CHR ''-'' \<or> hd s = CHR ''+'') then tl s else s)
      in if s1 = ''0'' then Some 0
         else if s1 = [] then None
         else case duration_loop T 0 s1 of
           None \<Rightarrow> None
         | Some d \<Rightarrow> if neg then Some (- of_nat d) else if d > 2 ^ 63 - 1 then None else Some (of_nat d))"

section \<open>The settings\<close>

type_synonym environment = "string \<rightharpoonup> string"

definition getEnv :: "environment \<Rightarrow> string \<Rightarrow> string \<Rightarrow> string" where
  "getEnv env key fallback = (case env key of Some value \<Rightarrow> if value \<noteq> [] then value else fallback | None \<Rightarrow> fallback)"

definition getInt :: "environment \<Rightarrow> string \<Rightarrow> go_int \<Rightarrow> go_int" where
  "getInt env key fallback =
     (case env key of
        None \<Rightarrow> fallback
      | Some value \<Rightarrow>
          if value = [] then fallback
          else let (parsed, ok) = Atoi value in if ok then parsed else fallback)"

definition getFloat :: "go_tables \<Rightarrow> environment \<Rightarrow> string \<Rightarrow> 64 word \<Rightarrow> 64 word" where
  "getFloat T env key fallback =
     (case env key of
        None \<Rightarrow> fallback
      | Some value \<Rightarrow>
          if value = [] then fallback
          else case tb_ParseFloat T value of None \<Rightarrow> fallback | Some parsed \<Rightarrow> parsed)"

definition getDuration :: "go_tables \<Rightarrow> environment \<Rightarrow> string \<Rightarrow> go_int \<Rightarrow> go_int" where
  "getDuration T env key fallback =
     (case env key of
        None \<Rightarrow> fallback
      | Some value \<Rightarrow>
          if value = [] then fallback
          else case ParseDuration T value of None \<Rightarrow> fallback | Some parsed \<Rightarrow> parsed)"

fun split_commas :: "string \<Rightarrow> string list" where
  "split_commas [] = [[]]"
| "split_commas (c # cs) =
     (if c = CHR '','' then [] # split_commas cs
      else case split_commas cs of [] \<Rightarrow> [[c]] | w # ws \<Rightarrow> (c # w) # ws)"

definition getList :: "environment \<Rightarrow> string \<Rightarrow> string list" where
  "getList env key =
     (case env key of
        None \<Rightarrow> []
      | Some value \<Rightarrow>
          if value = [] then [] else filter (\<lambda>trimmed. trimmed \<noteq> []) (map TrimSpace (split_commas value)))"

text \<open>\<^verbatim>\<open>strings.ToLower\<close> has a loop over bytes for ASCII strings; the rest goes through the Unicode tables.\<close>

definition lower_char :: "char \<Rightarrow> char" where
  "lower_char c = (if 65 \<le> (of_char c :: nat) \<and> (of_char c :: nat) \<le> 90 then char_of ((of_char c :: nat) + 32) else c)"

definition ToLower :: "go_tables \<Rightarrow> string \<Rightarrow> string" where
  "ToLower T s = (if list_all (\<lambda>c. (of_char c :: nat) < 0x80) s then map lower_char s else tb_ToLower T s)"

definition appEnv :: "go_tables \<Rightarrow> environment \<Rightarrow> string" where
  "appEnv T env =
     (let value = ToLower T (TrimSpace (case env ''APP_ENV'' of None \<Rightarrow> [] | Some v \<Rightarrow> v)) in
      if value = [] then ''local'' else value)"

record Config =
  AppEnv :: string
  HTTPAddr :: string
  LogLevel :: string
  GinMode :: string
  DBURL :: string
  BrokerURL :: string
  SagaStepTimeout :: go_int
  AuthIssuer :: string
  AuthJWKSURL :: string
  AuthClientID :: string
  OTELEndpoint :: string
  ServiceName :: string
  RateLimitRPS :: "64 word"
  RateLimitBurst :: go_int
  MaxBodyBytes :: go_int
  TrustedProxies :: "string list"
  OutboxInterval :: go_int

text \<open>The bits of the float 50.\<close>

definition float_50 :: "64 word" where
  "float_50 = 0x4049000000000000"

definition Load :: "go_tables \<Rightarrow> environment \<Rightarrow> Config" where
  "Load T env =
     (let cfg = \<lparr>AppEnv = appEnv T env,
                 HTTPAddr = getEnv env ''HTTP_ADDR'' '':8080'',
                 LogLevel = getEnv env ''LOG_LEVEL'' ''info'',
                 GinMode = getEnv env ''GIN_MODE'' ''release'',
                 DBURL = getEnv env ''DB_URL'' [],
                 BrokerURL = getEnv env ''BROKER_URL'' [],
                 SagaStepTimeout = getDuration T env ''SAGA_STEP_TIMEOUT'' (5 * 60000000000),
                 AuthIssuer = getEnv env ''AUTH_ISSUER'' [],
                 AuthJWKSURL = getEnv env ''AUTH_JWKS_URL'' [],
                 AuthClientID = getEnv env ''AUTH_CLIENT_ID'' ''brewup-api'',
                 OTELEndpoint = getEnv env ''OTEL_EXPORTER_OTLP_ENDPOINT'' [],
                 ServiceName = getEnv env ''OTEL_SERVICE_NAME'' ''cj-beer-company'',
                 RateLimitRPS = getFloat T env ''RATE_LIMIT_RPS'' float_50,
                 RateLimitBurst = getInt env ''RATE_LIMIT_BURST'' 100,
                 MaxBodyBytes = getInt env ''MAX_BODY_BYTES'' (push_bit 20 1),
                 TrustedProxies = getList env ''TRUSTED_PROXIES'',
                 OutboxInterval = getDuration T env ''OUTBOX_INTERVAL'' (250 * 1000000)\<rparr> in
      if AuthJWKSURL cfg = [] \<and> AuthIssuer cfg \<noteq> []
      then cfg\<lparr>AuthJWKSURL := AuthIssuer cfg @ ''/protocol/openid-connect/certs''\<rparr> else cfg)"

definition KnownEnvironments :: "string list" where
  "KnownEnvironments = [''local'', ''dev'', ''staging'', ''prod'']"

definition EnvironmentRecognized :: "Config \<Rightarrow> bool" where
  "EnvironmentRecognized c \<longleftrightarrow> list_ex (\<lambda>env. AppEnv c = env) KnownEnvironments"

datatype slog_level = LevelDebug | LevelInfo | LevelWarn | LevelError

definition parseLevel :: "go_tables \<Rightarrow> string \<Rightarrow> slog_level" where
  "parseLevel T level =
     (let l = ToLower T level in
      if l = ''debug'' then LevelDebug else if l = ''warn'' then LevelWarn
      else if l = ''error'' then LevelError else LevelInfo)"

section \<open>Settings are read exactly or not at all\<close>

lemma leadingInt_digits:
  assumes "\<forall>c \<in> set ds. is_digit c" and "u = [] \<or> \<not> is_digit (hd u)" and "x \<le> 2 ^ 63"
  shows "leadingInt x (ds @ u) =
    (let v = foldl (\<lambda>a c. 10 * a + digit_val c) x ds in if v \<le> 2 ^ 63 then Some (v, u) else None)"
  using assms(1,3)
proof (induction ds arbitrary: x)
  case Nil
  with assms(2) show ?case by (cases u) simp_all
next
  case (Cons c ds)
  have mono: "a \<le> foldl (\<lambda>a c. 10 * a + digit_val c) a ds" for a
  proof (induction ds arbitrary: a)
    case (Cons c ds)
    have "a \<le> 10 * a + digit_val c" by simp
    also have "\<dots> \<le> foldl (\<lambda>a c. 10 * a + digit_val c) (10 * a + digit_val c) ds" by (rule Cons)
    finally show ?case by simp
  qed simp
  let ?x = "10 * x + digit_val c"
  show ?case
  proof (cases "?x \<le> 2 ^ 63")
    case True
    with Cons show ?thesis by (simp add: Let_def)
  next
    case False
    with mono [of ?x] Cons.prems(1) show ?thesis by (auto simp: Let_def)
  qed
qed

lemma digit_chars: "n < 10 \<Longrightarrow> is_digit (''0123456789'' ! n) \<and> digit_val (''0123456789'' ! n) = n"
proof -
  have "\<forall>n \<in> set [0..<10]. is_digit (''0123456789'' ! n) \<and> digit_val (''0123456789'' ! n) = n" by code_simp
  then show "n < 10 \<Longrightarrow> is_digit (''0123456789'' ! n) \<and> digit_val (''0123456789'' ! n) = n" by simp
qed

lemma show_nat_digits:
  "(\<forall>c \<in> set (show_nat n). is_digit c) \<and> foldl (\<lambda>a c. 10 * a + digit_val c) 0 (show_nat n) = n \<and> show_nat n \<noteq> []"
proof (induction n rule: show_nat.induct)
  case (1 n)
  show ?case
  proof (cases "n < 10")
    case True
    with digit_chars [of n] show ?thesis by (subst (1 2 3) show_nat.simps) simp
  next
    case False
    with 1 digit_chars [of "n mod 10"] show ?thesis
      by (subst (1 2 3) show_nat.simps) (auto simp: mult.commute)
  qed
qed

lemma unit_names:
  assumes "unitMap u = Some k"
  shows "u \<noteq> []" and "\<forall>c \<in> set u. unit_char c" and "0 < k"
proof -
  have "\<forall>(u, k) \<in> set [(''ns'', 1), (''us'', 1000), ([CHR 0xC2, CHR 0xB5, CHR ''s''], 1000), ([CHR 0xCE, CHR 0xBC, CHR ''s''], 1000),
      (''ms'', 1000000), (''s'', 1000000000), (''m'', 60000000000), (''h'', 3600000000000 :: nat)].
      u \<noteq> [] \<and> list_all unit_char u \<and> 0 < k"
    by (simp add: unit_char_def is_digit_def)
  with map_of_SomeD [OF assms [unfolded unitMap_def]] show "u \<noteq> []" and "\<forall>c \<in> set u. unit_char c" and "0 < k"
    unfolding list_all_iff by blast+
qed

lemma duration_item_whole:
  assumes "unitMap u = Some k"
  shows "duration_item T (show_nat n @ u) = (if n * k \<le> 2 ^ 63 then Some (n * k, []) else None)"
proof -
  note u = unit_names [OF assms] and d = show_nat_digits [of n]
  have hd: "\<not> is_digit (hd u)" "hd u \<noteq> CHR ''.''" using u(1,2) by (cases u; simp add: unit_char_def)+
  have li: "leadingInt 0 (show_nat n @ u) = (if n \<le> 2 ^ 63 then Some (n, u) else None)"
    using leadingInt_digits [of "show_nat n" u 0] d hd by (simp add: Let_def)
  have fp: "fraction_part u = (0, 0, u, False)" using hd by (simp add: fraction_part_def)
  have tw: "takeWhile unit_char u = u" "dropWhile unit_char u = []" using u(2) by simp_all
  have le: "n \<le> 2 ^ 63 div k \<longleftrightarrow> n * k \<le> 2 ^ 63" using u(3) by (simp add: less_eq_div_iff_mult_less_eq)
  have "n \<le> n * k" using u(3) by simp
  show ?thesis
  proof (cases "n \<le> 2 ^ 63")
    case True
    with d have "length u \<noteq> length (show_nat n @ u)" by simp
    with True show ?thesis
      unfolding duration_item_def li using le by (simp add: fp tw assms u(1) not_le [symmetric] del: length_append)
  next
    case False
    with \<open>n \<le> n * k\<close> have "\<not> n * k \<le> 2 ^ 63" by linarith
    with li False show ?thesis by (simp add: duration_item_def)
  qed
qed

lemma parse_whole_duration:
  assumes "unitMap u = Some k"
  shows "ParseDuration T (show_nat n @ u) = (if n * k \<le> nat max_int then Some (of_nat (n * k)) else None)"
proof -
  note u = unit_names [OF assms] and d = show_nat_digits [of n]
  have hd: "is_digit (hd (show_nat n @ u))" using d by simp
  then have sign: "hd (show_nat n @ u) \<noteq> CHR ''-''" "hd (show_nat n @ u) \<noteq> CHR ''+''" "\<not> unit_char (hd (show_nat n @ u))"
    by (auto simp: is_digit_def unit_char_def)
  have "length (show_nat n @ u) \<ge> 2" using d u(1) by (cases "show_nat n"; cases u) auto
  then have "length (show_nat n @ u) \<noteq> length ''0''" by simp
  then have z: "show_nat n @ u \<noteq> ''0''" by metis
  have "duration_loop T 0 (show_nat n @ u) = (if n * k \<le> 2 ^ 63 then Some (n * k) else None)"
    using sign(3) d by (simp add: duration_loop.simps [of T 0] duration_item_whole [OF assms] Let_def duration_loop.simps [of T _ "[]"])
  then show ?thesis
    using sign z d by (auto simp: ParseDuration_def Let_def max_int_def)
qed

text \<open>
  A duration written as a whole number with a unit is read exactly, for every number
  and unit the format knows, or, when it does not fit a 64-bit duration, not at all: the
  setting falls back to its default and never takes a wrapped value.
\<close>

theorem duration_setting_exact:
  assumes "unitMap u = Some k"
  shows "getDuration T (env(key \<mapsto> show_nat n @ u)) key fallback =
    (if int (n * k) \<le> max_int then word_of_int (int (n * k)) else fallback)"
proof -
  have "0 \<le> max_int" by (simp add: max_int_def)
  then have "int (n * k) \<le> max_int \<longleftrightarrow> n * k \<le> nat max_int" using le_nat_iff [of max_int "n * k"] by blast
  with show_nat_digits [of n] show ?thesis
    by (simp add: getDuration_def parse_whole_duration [OF assms])
qed

definition plain_tables :: go_tables where
  "plain_tables = \<lparr>tb_ParseFloat = (\<lambda>_. None), tb_fraction = (\<lambda>_ _ _. 0), tb_ToLower = (\<lambda>s. s)\<rparr>"

theorem duration_setting_exact_witness:
  "getDuration plain_tables (Map.empty(''SAGA_STEP_TIMEOUT'' \<mapsto> show_nat 90 @ ''s'')) ''SAGA_STEP_TIMEOUT'' 0 = 90000000000 \<and>
   getDuration plain_tables (Map.empty(''SAGA_STEP_TIMEOUT'' \<mapsto> show_nat 9999999 @ ''h'')) ''SAGA_STEP_TIMEOUT'' 7 = 7"
  using duration_setting_exact [of "''s''" 1000000000 plain_tables Map.empty "''SAGA_STEP_TIMEOUT''" 90 0]
    duration_setting_exact [of "''h''" 3600000000000 plain_tables Map.empty "''SAGA_STEP_TIMEOUT''" 9999999 7]
  by (simp add: unitMap_def max_int_def)

text \<open>
  Whatever the environment holds, the configuration is usable: the environment label, the
  address and the client are set, turning authentication on always yields a key set URL,
  and no trusted proxy is blank.
\<close>

lemma getEnv_set: "fallback \<noteq> [] \<Longrightarrow> getEnv env key fallback \<noteq> []"
  by (auto simp: getEnv_def split: option.splits)

lemma load_usable:
  shows "AppEnv (Load T env) \<noteq> []" and "HTTPAddr (Load T env) \<noteq> []" and "AuthClientID (Load T env) \<noteq> []"
    and "AuthIssuer (Load T env) \<noteq> [] \<Longrightarrow> AuthJWKSURL (Load T env) \<noteq> []"
    and "p \<in> set (TrustedProxies (Load T env)) \<Longrightarrow> p \<noteq> []"
proof -
  show "AppEnv (Load T env) \<noteq> []" by (simp add: Load_def Let_def appEnv_def)
  show "HTTPAddr (Load T env) \<noteq> []" by (simp add: Load_def Let_def getEnv_set)
  show "AuthClientID (Load T env) \<noteq> []" by (simp add: Load_def Let_def getEnv_set)
  show "AuthIssuer (Load T env) \<noteq> [] \<Longrightarrow> AuthJWKSURL (Load T env) \<noteq> []"
    by (cases "getEnv env ''AUTH_JWKS_URL'' [] = []"; cases "getEnv env ''AUTH_ISSUER'' [] = []") (simp_all add: Load_def Let_def)
  have "TrustedProxies (Load T env) = getList env ''TRUSTED_PROXIES''" by (simp add: Load_def Let_def)
  then show "p \<in> set (TrustedProxies (Load T env)) \<Longrightarrow> p \<noteq> []"
    by (auto simp: getList_def split: option.splits if_splits)
qed

end
