(* ===== verification/Platform.thy ===== *)
theory Platform
  imports Config
begin

text \<open>
  The platform packages that open resources: \<^verbatim>\<open>src/internal/platform/database/database.go\<close> and
  \<^verbatim>\<open>src/internal/platform/telemetry/telemetry.go\<close>. What the database driver and the OpenTelemetry
  exporters answer is a parameter; the state is what the process holds open and what was
  installed as the global providers.
\<close>

section \<open>The database pool\<close>

text \<open>The errors of \<^verbatim>\<open>sql.Open\<close> and of the first ping of a URL; the state counts the open pools.\<close>

record db_driver =
  dd_open :: "string \<Rightarrow> string option"
  dd_ping :: "string \<Rightarrow> string option"

definition database_Open :: "db_driver \<Rightarrow> string \<Rightarrow> nat \<Rightarrow> (nat, unit) outcome" where
  "database_Open D dbURL pools =
     (case dd_open D dbURL of
        Some err \<Rightarrow> (Inl (ErrOther (''open database: '' @ err)), pools)
      | None \<Rightarrow>
          (let opened = Suc pools in
           case dd_ping D dbURL of
             Some err \<Rightarrow> (let closed = opened - 1 in (Inl (ErrOther (''ping database: '' @ err)), closed))
           | None \<Rightarrow> (Inr (), opened)))"

lemma database_Open_cases:
  "(\<exists>err. database_Open D url n = (Inl (ErrOther err), n)) \<or> database_Open D url n = (Inr (), Suc n)"
  by (auto simp: database_Open_def split: option.splits)

section \<open>Telemetry\<close>

record otel_resource =
  or_ServiceName :: string
  or_DeploymentEnvironment :: string

definition newResource :: "string \<Rightarrow> string \<Rightarrow> otel_resource" where
  "newResource serviceName env = \<lparr>or_ServiceName = serviceName, or_DeploymentEnvironment = env\<rparr>"

record otel_globals =
  og_propagation :: bool
  og_tracer :: "(string \<times> otel_resource) option"
  og_meter :: "otel_resource option"

text \<open>What is to be called on shutdown: nothing, or the tracer provider's \<^verbatim>\<open>Shutdown\<close>.\<close>

datatype tracing_shutdown = NoTracing | ProviderShutdown

definition InitTracing :: "string \<Rightarrow> string \<Rightarrow> string \<Rightarrow> otel_globals \<Rightarrow> tracing_shutdown \<times> otel_globals" where
  "InitTracing endpoint serviceName env g =
     (let g1 = g\<lparr>og_propagation := True\<rparr> in
      if endpoint = [] then (NoTracing, g1)
      else (ProviderShutdown, g1\<lparr>og_tracer := Some (endpoint, newResource serviceName env)\<rparr>))"

text \<open>\<open>exporter\<close> is the error of the Prometheus exporter's construction, if any.\<close>

definition InitMetrics :: "string option \<Rightarrow> string \<Rightarrow> string \<Rightarrow> otel_globals \<Rightarrow> (otel_globals, unit) outcome" where
  "InitMetrics exporter serviceName env g =
     (case exporter of
        Some err \<Rightarrow> (Inl (ErrOther err), g)
      | None \<Rightarrow> (Inr (), g\<lparr>og_meter := Some (newResource serviceName env)\<rparr>))"

end
