(* ===== verification/Rebuild.thy ===== *)
theory Rebuild
  imports Durable_System Platform
begin

text \<open>
  \<^verbatim>\<open>src/cmd/rebuild/main.go\<close>: the command that empties the two Postgres read models and projects
  every stored event again, each module from its own streams through its own registry. The
  environment says which statements fail.
\<close>

section \<open>The command\<close>

record rebuild_env =
  rb_driver :: db_driver
  rb_reset_orders :: "string option"
  rb_orders_store :: "nat \<Rightarrow> payload pg_env"
  rb_orders :: "sales_event \<Rightarrow> sales_tables \<Rightarrow> pg_sales_env"
  rb_reset_stock :: "string option"
  rb_stock_store :: "nat \<Rightarrow> payload pg_env"
  rb_stock :: "AvailabilityDto \<Rightarrow> availability_table \<Rightarrow> string option"

definition rebuild_orders :: "uuid_pkg \<Rightarrow> json_scalars \<Rightarrow> rebuild_env \<Rightarrow> payload pg_db \<Rightarrow> sales_tables \<Rightarrow> (sales_tables, unit) outcome" where
  "rebuild_orders U S R db t =
     (case pg_ResetSales (rb_reset_orders R) t of
        (Inl err, t1) \<Rightarrow> (Inl err, t1)
      | (Inr _, t1) \<Rightarrow>
          sales_RebuildReadModel (\<lambda>e t. pg_project_sales (rb_orders R e t) e t)
            (postgres_store (sales_codec U S) (rb_orders_store R)) (Postgres_ListStreams (rb_orders_store R)) db t1)"

definition rebuild_stock :: "uuid_pkg \<Rightarrow> rebuild_env \<Rightarrow> payload pg_db \<Rightarrow> availability_table \<Rightarrow> (availability_table, unit) outcome" where
  "rebuild_stock U R db t =
     (case pg_ResetAvailabilities (rb_reset_stock R) t of
        (Inl err, t1) \<Rightarrow> (Inl err, t1)
      | (Inr _, t1) \<Rightarrow>
          warehouses_RebuildReadModel U (postgres_store (warehouse_codec U) (rb_stock_store R))
            (Postgres_ListStreams (rb_stock_store R)) db (\<lambda>d t. pg_UpsertAvailability U (rb_stock R d t) d t) t1)"

definition rebuild_read_models :: "uuid_pkg \<Rightarrow> json_scalars \<Rightarrow> rebuild_env \<Rightarrow> durable \<Rightarrow> (durable, unit) outcome" where
  "rebuild_read_models U S R st =
     (case rebuild_orders U S R (du_db st) (du_orders st) of
        (Inl err, t) \<Rightarrow> (Inl err, st\<lparr>du_orders := t\<rparr>)
      | (Inr _, t) \<Rightarrow>
          (case rebuild_stock U R (du_db st) (du_stock st) of
             (r, v) \<Rightarrow> (r, st\<lparr>du_orders := t, du_stock := v\<rparr>)))"

text \<open>\<^verbatim>\<open>run\<close>; the number of open pools is back where it was when it returns.\<close>

definition rebuild_run ::
  "go_tables \<Rightarrow> environment \<Rightarrow> uuid_pkg \<Rightarrow> json_scalars \<Rightarrow> rebuild_env \<Rightarrow> nat \<times> durable \<Rightarrow> (nat \<times> durable, unit) outcome" where
  "rebuild_run T env U S R w =
     (let cfg = Load T env in
      if DBURL cfg = []
      then (Inl (ErrOther (''DB_URL must be set '' @ [CHR 0xE2, CHR 0x80, CHR 0x94] @ '' there is nothing to rebuild in memory'')), w)
      else case database_Open (rb_driver R) (DBURL cfg) (fst w) of
        (Inl err, pools) \<Rightarrow> (Inl err, pools, snd w)
      | (Inr _, pools) \<Rightarrow>
          (case rebuild_read_models U S R (snd w) of (r, st) \<Rightarrow> (r, pools - 1, st)))"

section \<open>Reading the streams\<close>

text \<open>A rebuild that succeeds has projected the concatenation of the histories it read.\<close>

lemma for_each_reads:
  assumes "\<And>sid recs. es_ReadStream es sid s = Inr recs \<Longrightarrow> map Event recs = h sid"
    and "for_each (\<lambda>sid v. case es_ReadStream es sid s of
        Inl err \<Rightarrow> (Inl err, v) | Inr stored \<Rightarrow> for_each (\<lambda>rec. project (Event rec)) stored v) ids v = (Inr (), v')"
  shows "for_each project (concat (map h ids)) v = (Inr (), v')"
  using assms(2)
proof (induction ids arbitrary: v)
  case (Cons sid ids)
  obtain recs where recs: "es_ReadStream es sid s = Inr recs"
    using Cons.prems by (cases "es_ReadStream es sid s") auto
  obtain r w where w: "for_each (\<lambda>rec. project (Event rec)) recs v = (r, w)" by fastforce
  have r: "r = Inr ()" using Cons.prems recs w by (cases r) auto
  have "for_each project (h sid) v = (Inr (), w)"
    using w r assms(1) [OF recs] for_each_map [of project Event recs v] by simp
  with Cons recs w r show ?case by (simp add: for_each_append)
qed simp

lemma pg_read_history:
  "es_ReadStream (postgres_store C envs) sid db = Inr recs \<Longrightarrow> map Event recs = pg_history C db sid"
  using scan_loop_read by (fastforce simp: postgres_store_def Postgres_ReadStream_def Let_def pg_history_def split: option.splits)

lemma pg_listed:
  assumes "codec_ok C" and "pg_wf db" and "Postgres_ListStreams envs p db = Inr ids"
  shows "distinct ids" and "set ids = {sid. pg_history C db sid \<noteq> [] \<and> prefix (p @ ''-'') sid}"
proof -
  have "es_ListStreams (postgres_store C (quiet envs)) = Some (Postgres_ListStreams envs)"
    by (simp add: postgres_store_def Postgres_ListStreams_def quiet_def fun_eq_iff)
  from event_store.list_streams [OF postgres_event_store [OF assms(1)] assms(2) this assms(3)]
  show "distinct ids" and "set ids = {sid. pg_history C db sid \<noteq> [] \<and> prefix (p @ ''-'') sid}" by simp_all
qed

section \<open>The stock view\<close>

lemma rebuilt_stock:
  fixes b :: BeerId
  assumes U: "uuid_ok U" and wf: "pg_wf db" and ok: "beer_streams_ok U (w_hist U db)"
    and run: "rebuild_stock U R db t = (Inr (), t')"
  defines "hist \<equiv> w_hist U db (availability_stream U b)"
  shows "pg_GetAvailability U None (UString U b) t' =
    (if views_of U b hist = [] then Inl ErrNotFound else Inr (dto_of_stock U (stock hist)))"
proof -
  let ?writer = "\<lambda>d t. pg_UpsertAvailability U (rb_stock R d t) d t"
  let ?es = "postgres_store (warehouse_codec U) (rb_stock_store R)"
  obtain ids where ids: "Postgres_ListStreams (rb_stock_store R) Availability_StreamName db = Inr ids"
    and loop: "for_each (rebuild_availability_stream U ?es db ?writer) ids [] = (Inr (), t')"
    using run by (auto simp: rebuild_stock_def pg_ResetAvailabilities_def warehouses_RebuildReadModel_def split: option.splits sum.splits)
  note st = pg_listed [OF warehouse_codec_ok [OF U] wf ids]
  let ?evs = "concat (map (w_hist U db) ids)"
  have all: "for_each (project_availability U ?writer) ?evs [] = (Inr (), t')"
    by (rule for_each_reads [OF pg_read_history loop [unfolded rebuild_availability_stream_def]])
  have "filter (\<lambda>e. event_beer e = Some b) ?evs = (if availability_stream U b \<in> set ids then hist else [])"
    unfolding hist_def by (rule filter_streams [OF U ok st(1)]) (use st(2) beer_streams_ok_range [OF ok] in blast)
  then have hist: "filter (\<lambda>e. event_beer e = Some b) ?evs = hist"
    by (simp add: st(2) hist_def availability_stream_def split: if_splits)
  have "\<forall>e \<in> set ?evs. \<forall>d. event_view U e = Some d \<longrightarrow> (\<exists>c. ad_BeerId d = UString U c)"
    using event_view_beer by blast
  from availability_writer.project_in_order [OF pg_availability_writer [OF U] U this all hist]
  have "availability_view U t' (UString U b) = (if views_of U b hist = [] then None else Some (dto_of_stock U (stock hist)))"
    using U by (simp add: availability_view_def)
  with U show ?thesis by (auto simp: availability_view_def pg_GetAvailability_def split: option.splits if_splits)
qed

section \<open>The order view\<close>

text \<open>The tables show an order as its history has it.\<close>

definition shown :: "pg_columns \<Rightarrow> SalesOrderId \<Rightarrow> sales_event list \<Rightarrow> sales_tables \<Rightarrow> bool" where
  "shown C i hist t \<longleftrightarrow>
     (let a = order_of hist in
      if hist = [] then order_rec t i = None \<and> rows_in t i = []
      else rows_in t i = map (kept_rec C i) (so_rows a) \<and>
        (\<exists>at. order_rec t i = Some \<lparr>po_id = i, po_number = so_salesOrderNumber a, po_date = col_time C (so_orderDate a), po_customer = so_customerId a,
           po_customer_name = so_customerName a, po_status = status_text (so_allocation a), po_reason = so_rejectionReason a,
           po_projected_at = at\<rparr>))"

lemma order_of_fields:
  "so_salesOrderNumber (order_of [SalesOrderCreated b i n d ci cn rs]) = n"
  "so_orderDate (order_of [SalesOrderCreated b i n d ci cn rs]) = d"
  "so_customerId (order_of [SalesOrderCreated b i n d ci cn rs]) = ci"
  "so_customerName (order_of [SalesOrderCreated b i n d ci cn rs]) = cn"
  "so_rows (order_of [SalesOrderCreated b i n d ci cn rs]) = rs"
  "so_rejectionReason (order_of [SalesOrderCreated b i n d ci cn rs]) = []"
  by (simp_all add: order_of_def ApplyEvent_def Let_def SetID_def NewSalesOrder_def)

lemma order_of_settled:
  fixes b b' i j n d ci cn rs r
  defines "a \<equiv> order_of [SalesOrderCreated b i n d ci cn rs]"
  shows "order_of [SalesOrderCreated b i n d ci cn rs, SalesOrderAllocated b' j] =
      ApplyEvent SalesOrder_Route (SalesOrderAllocated b' j) a"
    and "order_of [SalesOrderCreated b i n d ci cn rs, SalesOrderAllocationRejected b' j r] =
      ApplyEvent SalesOrder_Route (SalesOrderAllocationRejected b' j r) a"
  by (simp_all add: a_def order_of_def)

lemma shown_created:
  assumes "uuid_ok U" and "pe_uuid E = U" and "pe_columns E = C"
    and "pg_project_sales E (SalesOrderCreated b i n d ci cn rows) t = (Inr (), t')" and "shown C i [] t"
  shows "shown C i [SalesOrderCreated b i n d ci cn rows] t'"
  using created_kept [OF assms(1-4), of i] assms(5)
  by (simp add: shown_def order_of_fields status_text_def)

lemma shown_settled:
  assumes "uuid_ok U" and "pe_uuid E = U" and "pg_project_sales E e t = (Inr (), t')"
    and "e = SalesOrderAllocated b' i \<or> (\<exists>r. e = SalesOrderAllocationRejected b' i r)"
    and "shown C i [SalesOrderCreated b i n d ci cn rs] t"
  shows "shown C i [SalesOrderCreated b i n d ci cn rs, e] t'"
  using assms(4)
proof (elim disjE exE)
  assume e: "e = SalesOrderAllocated b' i"
  with status_kept [OF assms(1,2), of i "''allocated''" "[]" t t'] assms show ?thesis
    by (auto simp: shown_def order_of_settled order_of_fields ApplyEvent_def Let_def SetID_def status_text_def)
next
  fix r assume e: "e = SalesOrderAllocationRejected b' i r"
  with status_kept [OF assms(1,2), of i "''rejected''" r t t'] assms show ?thesis
    by (auto simp: shown_def order_of_settled order_of_fields ApplyEvent_def Let_def SetID_def status_text_def)
qed

lemma shown_step:
  assumes "uuid_ok U" and "pe_uuid E = U" and "pe_columns E = C"
    and "pg_project_sales E e t = (Inr (), t')" and "shown C i hist t" and "order_shape i (hist @ [e] @ rest)"
  shows "shown C i (hist @ [e]) t'"
proof -
  have "hist @ [e] @ rest \<noteq> []" by simp
  with assms(6) show ?thesis
  proof (cases rule: order_shape_cases)
    case (pending b n d ci cn rs)
    then have "hist = []" and "e = SalesOrderCreated b i n d ci cn rs" by (cases hist; simp)+
    with shown_created [OF assms(1-3)] assms(4,5) show ?thesis by simp
  next
    case (allocated b n d ci cn rs b')
    then consider "hist = []" "e = SalesOrderCreated b i n d ci cn rs"
      | "hist = [SalesOrderCreated b i n d ci cn rs]" "e = SalesOrderAllocated b' i"
      by (cases hist) (auto simp: append_eq_Cons_conv)
    then show ?thesis
      using shown_created [OF assms(1-3)] shown_settled [OF assms(1,2,4)] assms(4,5) by cases auto
  next
    case (rejected b n d ci cn rs b' r)
    then consider "hist = []" "e = SalesOrderCreated b i n d ci cn rs"
      | "hist = [SalesOrderCreated b i n d ci cn rs]" "e = SalesOrderAllocationRejected b' i r"
      by (cases hist) (auto simp: append_eq_Cons_conv)
    then show ?thesis
      using shown_created [OF assms(1-3)] shown_settled [OF assms(1,2,4)] assms(4,5) by cases auto
  qed
qed

lemma shown_replayed:
  assumes U: "uuid_ok U" and Es: "\<And>e t. pe_uuid (Es e t) = U \<and> pe_columns (Es e t) = C" and shape: "order_shape i full"
    and "for_each (\<lambda>e t. pg_project_sales (Es e t) e t) es t = (Inr (), t')" and "shown C i [] t"
    and "prefix (filter (\<lambda>e. se_SalesOrderId e = i) es) full"
  shows "shown C i (filter (\<lambda>e. se_SalesOrderId e = i) es) t'"
  using assms(4,6)
proof (induction es arbitrary: t' rule: rev_induct)
  case Nil
  then show ?case using assms(5) by simp
next
  case (snoc e es)
  obtain r w where w: "for_each (\<lambda>e t. pg_project_sales (Es e t) e t) es t = (r, w)" by fastforce
  then have r: "r = Inr ()" using snoc.prems(1) by (cases r) (auto simp: for_each_append)
  then have step: "pg_project_sales (Es e w) e w = (Inr (), t')"
    using snoc.prems(1) w by (auto simp: for_each_append split: sum.splits prod.splits)
  have pre: "prefix (filter (\<lambda>e. se_SalesOrderId e = i) es) full"
    using snoc.prems(2) by (auto intro: append_prefixD split: if_splits)
  note IH = snoc.IH [OF w [unfolded r] pre]
  show ?case
  proof (cases "se_SalesOrderId e = i")
    case True
    then obtain rest where "full = filter (\<lambda>e. se_SalesOrderId e = i) es @ [e] @ rest" using snoc.prems(2) by (auto simp: prefix_def)
    with shown_step [OF U _ _ step IH] Es shape True show ?thesis by simp
  next
    case False
    with project_kept_other [OF U _ _ step False] Es IH show ?thesis by (simp add: shown_def Let_def)
  qed
qed

lemma filter_order_streams:
  assumes "uuid_ok U" and "orders_ok U h" and "distinct ids" and "\<forall>sid \<in> set ids. sid \<in> range (order_stream U)"
  shows "filter (\<lambda>e. se_SalesOrderId e = i) (concat (map h ids)) =
    (if order_stream U i \<in> set ids then h (order_stream U i) else [])"
  using assms(3,4)
proof (induction ids)
  case (Cons sid ids)
  then obtain j where j: "sid = order_stream U j" by auto
  have "filter (\<lambda>e. se_SalesOrderId e = i) (h sid) = (if j = i then h sid else [])"
    using order_shape_id [OF orders_okD [OF assms(2)]] by (auto simp: j filter_empty_conv intro!: filter_True)
  moreover have "sid = order_stream U i \<longleftrightarrow> j = i" by (simp add: j order_stream_inj [OF assms(1)])
  ultimately show ?case using Cons by auto
qed simp

lemma shown_query:
  assumes "uuid_ok U" and "env_ok U E" and "order_shape i hist" and "shown C i hist t"
  shows "pg_GetSalesOrder E (UString U i) t =
    (if hist = [] then Inl ErrNotFound else Inr (kept_order U C (dto_of_order U (order_of hist))))"
proof (cases "hist = []")
  case True
  with assms show ?thesis by (simp add: pg_GetSalesOrder_def env_ok_def shown_def order_rec_def)
next
  case False
  have id: "so_salesOrderId (order_of hist) = i"
    using assms(3) False by (cases rule: order_shape_cases) (simp_all add: order_of_settled ApplyEvent_def Let_def SetID_def)
  have "rowsOf E i t = by_beer U (map (kept_row C) (map (row_dto U) (so_rows (order_of hist))))"
    by (rule rowsOf_kept [OF assms(1)]) (use assms False in \<open>auto simp: env_ok_def shown_def Let_def\<close>)
  with assms False id show ?thesis
    by (auto simp: pg_GetSalesOrder_def env_ok_def shown_def Let_def order_rec_def order_dto_def kept_order_def dto_of_order_def)
qed

lemma rebuilt_orders:
  fixes i :: SalesOrderId
  assumes U: "uuid_ok U" and S: "scalars_ok S" and wf: "pg_wf db" and ok: "orders_ok U (s_hist U S db)"
    and Es: "\<And>e t. pe_uuid (rb_orders R e t) = U \<and> pe_columns (rb_orders R e t) = C"
    and run: "rebuild_orders U S R db t = (Inr (), t')"
  shows "shown C i (s_hist U S db (order_stream U i)) t'"
proof -
  let ?project = "\<lambda>e t. pg_project_sales (rb_orders R e t) e t"
  let ?es = "postgres_store (sales_codec U S) (rb_orders_store R)"
  let ?t0 = "\<lparr>st_orders = [], st_rows = []\<rparr>"
  obtain ids where ids: "Postgres_ListStreams (rb_orders_store R) SalesOrder_StreamName db = Inr ids"
    and loop: "for_each (rebuild_stream ?project ?es db) ids ?t0 = (Inr (), t')"
    using run by (auto simp: rebuild_orders_def pg_ResetSales_def pg_error_def sales_RebuildReadModel_def split: option.splits sum.splits)
  note st = pg_listed [OF sales_codec_ok [OF U S] wf ids]
  let ?evs = "concat (map (s_hist U S db) ids)"
  have all: "for_each ?project ?evs ?t0 = (Inr (), t')"
    by (rule for_each_reads [OF pg_read_history loop [unfolded rebuild_stream_def]])
  have "filter (\<lambda>e. se_SalesOrderId e = i) ?evs = (if order_stream U i \<in> set ids then s_hist U S db (order_stream U i) else [])"
    by (rule filter_order_streams [OF U ok st(1)]) (use st(2) orders_ok_range [OF ok] in blast)
  then have hist: "filter (\<lambda>e. se_SalesOrderId e = i) ?evs = s_hist U S db (order_stream U i)"
    by (simp add: st(2) order_stream_def split: if_splits)
  show ?thesis
    using shown_replayed [OF U Es orders_okD [OF ok, of i] all] unfolding hist
    by (simp add: shown_def order_rec_def rows_in_def)
qed

section \<open>When the rebuild succeeds\<close>

lemma for_each_total: "(\<And>x v. x \<in> set xs \<Longrightarrow> fst (f x v) = Inr ()) \<Longrightarrow> fst (for_each f xs v) = Inr ()"
proof (induction xs arbitrary: v)
  case (Cons x xs)
  then have "fst (f x v) = Inr ()" by simp
  then obtain w where "f x v = (Inr (), w)" by (metis prod.collapse)
  with Cons show ?case by simp
qed simp

lemma scan_loop_total:
  "(\<And>stmt. flt stmt = None) \<Longrightarrow> (\<And>row. row \<in> set rows \<Longrightarrow> \<exists>e. pg_decode C row = Inr e) \<Longrightarrow>
     \<exists>recs. pg_scan_loop C flt sid i rows acc = Inr recs"
proof (induction rows arbitrary: i acc)
  case (Cons row rows)
  then obtain e where "pg_decode C row = Inr e" by (metis list.set_intros(1))
  with Cons show ?case by simp
qed simp

text \<open>No statement fails.\<close>

definition clear_rebuild :: "uuid_pkg \<Rightarrow> rebuild_env \<Rightarrow> bool" where
  "clear_rebuild U R \<longleftrightarrow> rb_reset_orders R = None \<and> rb_reset_stock R = None \<and>
     (\<forall>n stmt. fault (rb_orders_store R n) stmt = None \<and> fault (rb_stock_store R n) stmt = None) \<and>
     (\<forall>e t. env_ok U (rb_orders R e t)) \<and> (\<forall>d t. rb_stock R d t = None)"

text \<open>Every stored event fits into the columns of the read models.\<close>

definition storable :: "uuid_pkg \<Rightarrow> json_scalars \<Rightarrow> pg_sales_env \<Rightarrow> payload pg_db \<Rightarrow> bool" where
  "storable U S E db \<longleftrightarrow> (\<forall>er \<in> set (pg_events db).
     (case pg_decode (sales_codec U S) er of Inl _ \<Rightarrow> True | Inr e \<Rightarrow> event_fits E e) \<and>
     (case pg_decode (warehouse_codec U) er of Inl _ \<Rightarrow> True
      | Inr e \<Rightarrow> (case event_view U e of None \<Rightarrow> True | Some d \<Rightarrow> availability_fits U d)))"

lemma event_fits_cong: "pe_columns E = pe_columns E' \<Longrightarrow> event_fits E e = event_fits E' e"
  by (cases e) (simp_all add: row_fits_def)

lemma project_stock_fits:
  assumes "uuid_ok U" and "\<And>d t. fl d t = None" and "\<forall>d. event_view U e = Some d \<longrightarrow> availability_fits U d"
  shows "fst (project_availability U (\<lambda>d t. pg_UpsertAvailability U (fl d t) d t) e t) = Inr ()"
  using assms by (cases e) (auto simp: projector_upsert_def pg_UpsertAvailability_def Let_def split: prod.splits)

text \<open>A rebuild over streams that can be read and events that can be projected returns no error.\<close>

lemma reads_total:
  assumes "Postgres_ListStreams envs p db = Inr ids" and "\<And>n stmt. fault (envs n) stmt = None"
    and "\<And>er. er \<in> set (pg_events db) \<Longrightarrow> prefix (p @ ''-'') (er_stream_id er) \<Longrightarrow>
      \<exists>e. pg_decode C er = Inr e \<and> (\<forall>v. fst (project e v) = Inr ())"
  shows "fst (for_each (\<lambda>sid v. case es_ReadStream (postgres_store C envs) sid db of
      Inl err \<Rightarrow> (Inl err, v) | Inr stored \<Rightarrow> for_each (\<lambda>rec. project (Event rec)) stored v) ids v) = Inr ()"
proof (rule for_each_total)
  fix sid v assume "sid \<in> set ids"
  then have p: "prefix (p @ ''-'') sid"
    using assms(1) by (auto simp: Postgres_ListStreams_def Let_def split: option.splits)
  have row: "\<exists>e. pg_decode C er = Inr e \<and> (\<forall>v. fst (project e v) = Inr ())" if "er \<in> set (rows_of sid db)" for er
    using assms(3) [of er] that p by (auto simp: rows_of_set)
  then obtain recs where recs: "pg_scan_loop C (fault (envs (pg_calls db))) sid 0 (rows_of sid db) [] = Inr recs"
    using scan_loop_total [of "fault (envs (pg_calls db))" "rows_of sid db" C sid 0 "[]"] assms(2) by blast
  from scan_loop_read [OF this] have "map Event recs = map (\<lambda>er. projr (pg_decode C er)) (rows_of sid db)" by simp
  then have "\<exists>er \<in> set (rows_of sid db). Event rec = projr (pg_decode C er)" if "rec \<in> set recs" for rec
    using that by (metis (no_types, lifting) image_iff list.set_map)
  with row have "fst (project (Event rec) v) = Inr ()" if "rec \<in> set recs" for rec v
    using that by (metis sum.sel(2))
  then have "fst (for_each (\<lambda>rec. project (Event rec)) recs v) = Inr ()" by (intro for_each_total) simp
  with recs assms(2) show "fst (case es_ReadStream (postgres_store C envs) sid db of
      Inl err \<Rightarrow> (Inl err, v) | Inr stored \<Rightarrow> for_each (\<lambda>rec. project (Event rec)) stored v) = Inr ()"
    by (simp add: postgres_store_def Postgres_ReadStream_def Let_def)
qed

lemma coded_decodes:
  assumes "codec_ok C" and "coded_row C Q er"
  shows "\<exists>e. pg_decode C er = Inr e"
  using assms by (auto simp: coded_row_def codec_ok_def pg_decode_def)

lemma rebuild_total:
  assumes U: "uuid_ok U" and S: "scalars_ok S" and coded: "rows_coded U S (du_db st)"
    and clear: "clear_rebuild U R" and fits: "storable U S E (du_db st)"
    and cols: "\<And>e t. pe_columns (rb_orders R e t) = pe_columns E"
  shows "fst (rebuild_read_models U S R st) = Inr ()"
proof -
  let ?db = "du_db st"
  let ?order = "\<lambda>e t. pg_project_sales (rb_orders R e t) e t"
  let ?stock = "project_availability U (\<lambda>d t. pg_UpsertAvailability U (rb_stock R d t) d t)"
  have c: "fault (rb_orders_store R n) stmt = None" "fault (rb_stock_store R n) stmt = None" "env_ok U (rb_orders R e t)"
    "rb_stock R d v = None" "rb_reset_orders R = None" "rb_reset_stock R = None" for n stmt e t d v
    using clear by (simp_all add: clear_rebuild_def)
  have orders: "\<exists>e. pg_decode (sales_codec U S) er = Inr e \<and> (\<forall>v. fst (?order e v) = Inr ())"
    if er: "er \<in> set (pg_events ?db)" "prefix (SalesOrder_StreamName @ ''-'') (er_stream_id er)" for er
  proof -
    have "coded_row (sales_codec U S) (range (order_stream U)) er"
      using coded er order_not_warehouse [OF er(2)] by (auto simp: rows_coded_def coded_row_def)
    then obtain e where e: "pg_decode (sales_codec U S) er = Inr e" using coded_decodes [OF sales_codec_ok [OF U S]] by blast
    with fits er(1) have "event_fits E e" by (fastforce simp: storable_def)
    with e project_fits [OF U c(3)] event_fits_cong [OF cols] show ?thesis by blast
  qed
  have stock: "\<exists>e. pg_decode (warehouse_codec U) er = Inr e \<and> (\<forall>v. fst (?stock e v) = Inr ())"
    if er: "er \<in> set (pg_events ?db)" "prefix (Availability_StreamName @ ''-'') (er_stream_id er)" for er
  proof -
    have "coded_row (warehouse_codec U) (warehouse_streams U) er"
      using coded er warehouse_not_order(2) [OF er(2)] by (auto simp: rows_coded_def coded_row_def)
    then obtain e where e: "pg_decode (warehouse_codec U) er = Inr e" using coded_decodes [OF warehouse_codec_ok [OF U]] by blast
    with fits er(1) have "\<forall>d. event_view U e = Some d \<longrightarrow> availability_fits U d" by (fastforce simp: storable_def)
    with e project_stock_fits [OF U, where fl = "rb_stock R", OF c(4)] show ?thesis by blast
  qed
  obtain ids ids' where l: "Postgres_ListStreams (rb_orders_store R) SalesOrder_StreamName ?db = Inr ids"
    "Postgres_ListStreams (rb_stock_store R) Availability_StreamName ?db = Inr ids'"
    by (simp add: Postgres_ListStreams_def Let_def c)
  have "fst (rebuild_orders U S R ?db t) = Inr ()" for t
    using reads_total [OF l(1) c(1), of "sales_codec U S" ?order] orders
    by (simp add: rebuild_orders_def pg_ResetSales_def c(5) sales_RebuildReadModel_def l rebuild_stream_def [abs_def])
  moreover have "fst (rebuild_stock U R ?db t) = Inr ()" for t
    using reads_total [OF l(2) c(2), of "warehouse_codec U" ?stock] stock
    by (simp add: rebuild_stock_def pg_ResetAvailabilities_def c(6) warehouses_RebuildReadModel_def l rebuild_availability_stream_def [abs_def])
  ultimately show ?thesis
    by (auto simp: rebuild_read_models_def split: prod.splits sum.splits) (metis fst_conv sum.distinct(1))+
qed

lemma rebuild_runD:
  assumes "rebuild_run T env U S R (pools, st) = (r, pools', st')"
  shows "\<exists>t v. st' = st\<lparr>du_orders := t, du_stock := v\<rparr> \<and> (r = Inr () \<longrightarrow>
    rebuild_orders U S R (du_db st) (du_orders st) = (Inr (), t) \<and> rebuild_stock U R (du_db st) (du_stock st) = (Inr (), v))"
proof -
  obtain q t where q: "rebuild_orders U S R (du_db st) (du_orders st) = (q, t)" by fastforce
  obtain p v where p: "rebuild_stock U R (du_db st) (du_stock st) = (p, v)" by fastforce
  have "st' = st \<and> (\<exists>err. r = Inl err) \<or> rebuild_read_models U S R st = (r, st')"
    using assms by (auto simp: rebuild_run_def Let_def split: if_splits prod.splits sum.splits)
  then show ?thesis
  proof (elim disjE conjE exE)
    fix err assume "st' = st" "r = Inl err"
    then show ?thesis by (intro exI [of _ "du_orders st"] exI [of _ "du_stock st"]) simp
  next
    assume run: "rebuild_read_models U S R st = (r, st')"
    show ?thesis
    proof (cases q)
      case (Inl err)
      with run q show ?thesis by (intro exI [of _ t] exI [of _ "du_stock st"]) (auto simp: rebuild_read_models_def)
    next
      case (Inr u)
      with run q p show ?thesis by (intro exI [of _ t] exI [of _ v]) (auto simp: rebuild_read_models_def)
    qed
  qed
qed

text \<open>
  C4. The rebuild command restores both durable read models from the event store. Whatever
  the read models held before, in every reachable state of the durable system: it never
  touches the streams or the outbox and closes the pool it opened; when it reports success,
  every order is shown as its aggregate has it, up to what the columns keep (the order date
  in the precision of \<^verbatim>\<open>timestamptz\<close>, prices of two decimals, currencies padded to three
  characters, rows by beer), every beer with the name and quantity of its aggregate, and nothing
  else is shown. It does report success when the database is reachable, no statement fails
  and the stored values are within the limits of the columns.
\<close>

theorem rebuild_restores_views:
  fixes i :: SalesOrderId and b :: BeerId
  assumes "uuid_ok U" and "scalars_ok S" and "durable_reach U S st" and "env_ok U E"
    and "\<And>e t. pe_uuid (rb_orders R e t) = U \<and> pe_columns (rb_orders R e t) = pe_columns E"
    and "rebuild_run T env U S R (pools, st) = (r, pools', st')"
  defines "orders \<equiv> pg_history (sales_codec U S) (du_db st) (order_stream U i)"
    and "beers \<equiv> pg_history (warehouse_codec U) (du_db st) (availability_stream U b)"
  shows "pools' = pools \<and> du_db st' = du_db st \<and>
    (r = Inr () \<longrightarrow>
       pg_GetSalesOrder E (UString U i) (du_orders st') =
         (if orders = [] then Inl ErrNotFound else Inr (kept_order U (pe_columns E) (dto_of_order U (order_of orders)))) \<and>
       pg_GetAvailability U None (UString U b) (du_stock st') =
         (if views_of U b beers = [] then Inl ErrNotFound else Inr (dto_of_stock U (stock beers)))) \<and>
    (DBURL (Load T env) \<noteq> [] \<and> dd_open (rb_driver R) (DBURL (Load T env)) = None \<and>
     dd_ping (rb_driver R) (DBURL (Load T env)) = None \<and> clear_rebuild U R \<and> storable U S E (du_db st) \<longrightarrow> r = Inr ())"
proof -
  note inv = durable_invD(1-3) [OF durable_reach_inv [OF assms(3,1,2)]]
  have "\<exists>t v. st' = st\<lparr>du_orders := t, du_stock := v\<rparr> \<and> (r = Inr () \<longrightarrow>
      rebuild_orders U S R (du_db st) (du_orders st) = (Inr (), t) \<and> rebuild_stock U R (du_db st) (du_stock st) = (Inr (), v))"
    using assms(6) by (rule rebuild_runD)
  then obtain t v where st': "st' = st\<lparr>du_orders := t, du_stock := v\<rparr>"
    and ok: "r = Inr () \<Longrightarrow> rebuild_orders U S R (du_db st) (du_orders st) = (Inr (), t)"
      "r = Inr () \<Longrightarrow> rebuild_stock U R (du_db st) (du_stock st) = (Inr (), v)" by blast
  note h = histories_okD [OF inv(3)]
  have "pg_GetSalesOrder E (UString U i) t =
      (if orders = [] then Inl ErrNotFound else Inr (kept_order U (pe_columns E) (dto_of_order U (order_of orders))))" if "r = Inr ()"
    unfolding orders_def
    by (rule shown_query [OF assms(1,4) orders_okD [OF h(3)] rebuilt_orders [OF assms(1,2) inv(1) h(3) assms(5) ok(1) [OF that]]])
  moreover have "pg_GetAvailability U None (UString U b) v =
      (if views_of U b beers = [] then Inl ErrNotFound else Inr (dto_of_stock U (stock beers)))" if "r = Inr ()"
    unfolding beers_def by (rule rebuilt_stock [OF assms(1) inv(1) h(1) ok(2) [OF that]])
  moreover have "r = Inr ()" if "DBURL (Load T env) \<noteq> []" "dd_open (rb_driver R) (DBURL (Load T env)) = None"
      "dd_ping (rb_driver R) (DBURL (Load T env)) = None" "clear_rebuild U R" "storable U S E (du_db st)"
    using rebuild_total [OF assms(1,2) inv(2) that(4,5)] assms(5,6) that(1-3)
    by (auto simp: rebuild_run_def database_Open_def split: prod.splits)
  moreover have "pools' = pools"
    using assms(6) database_Open_cases [of "rb_driver R" "DBURL (Load T env)" pools]
    by (auto simp: rebuild_run_def Let_def split: if_splits prod.splits sum.splits)
  ultimately show ?thesis unfolding st' by simp
qed

definition demo_rebuild :: rebuild_env where
  "demo_rebuild = \<lparr>rb_driver = \<lparr>dd_open = (\<lambda>_. None), dd_ping = (\<lambda>_. None)\<rparr>, rb_reset_orders = None, rb_orders_store = no_faults,
     rb_orders = (\<lambda>_ _. tally_sales_env), rb_reset_stock = None, rb_stock_store = no_faults, rb_stock = (\<lambda>_ _. None)\<rparr>"

definition demo_stocked :: durable where
  "demo_stocked = durable_run [Some (DWarehouseCommands, 0), Some (DSalesCommands, 1)]
     (snd (over_bus (facade_CreateSalesOrder tally_uuid open_net 1 2 3 4
        \<lparr>oj_Id = [], oj_SalesOrderNumber = ''S-1'', oj_OrderDate = 4, oj_CustomerId = [], oj_CustomerName = ''Pub'',
         oj_Rows = [\<lparr>rj_BeerId = UString tally_uuid 5, rj_BeerName = ''IPA'', rj_Quantity = NewQuantity 30 ''Lt'',
           rj_Price = NewPrice 5 ''EUR''\<rparr>]\<rparr>)
       (snd (over_bus (facade_UpdateAvailabilityDueToProductionOrder tally_uuid open_net 8
          \<lparr>po_BeerId = UString tally_uuid 5, po_BeerName = ''IPA'', po_Quantity = NewQuantity 100 ''Lt''\<rparr>) new_durable))))"

lemma demo_stocked_reach: "durable_reach tally_uuid plain_scalars demo_stocked"
  unfolding demo_stocked_def by (intro durable_run_reach durable_reach.intros)

theorem rebuild_restores_views_witness:
  "\<exists>r pools' st'. rebuild_run plain_tables (Map.empty(''DB_URL'' \<mapsto> ''pg'')) tally_uuid plain_scalars demo_rebuild (0, demo_stocked) =
      (r, pools', st') \<and> r = Inr () \<and>
    pg_GetSalesOrder tally_sales_env (UString tally_uuid 1) (du_orders st') =
      Inr (kept_order tally_uuid (pe_columns tally_sales_env) (dto_of_order tally_uuid (order_of
        (pg_history (sales_codec tally_uuid plain_scalars) (du_db demo_stocked) (order_stream tally_uuid 1))))) \<and>
    pg_GetAvailability tally_uuid None (UString tally_uuid 5) (du_stock st') =
      Inr \<lparr>ad_BeerId = UString tally_uuid 5, ad_BeerName = ''IPA'', ad_Quantity = NewQuantity 100 ''Lt''\<rparr>"
proof -
  obtain r pools' st' where run: "rebuild_run plain_tables (Map.empty(''DB_URL'' \<mapsto> ''pg'')) tally_uuid plain_scalars demo_rebuild
      (0, demo_stocked) = (r, pools', st')" by (metis prod_cases3)
  have E: "env_ok tally_uuid tally_sales_env" by (simp add: env_ok_def tally_sales_env_def)
  have R: "pe_uuid (rb_orders demo_rebuild e t) = tally_uuid \<and> pe_columns (rb_orders demo_rebuild e t) = pe_columns tally_sales_env" for e t
    by (simp add: demo_rebuild_def tally_sales_env_def)
  have url: "DBURL (Load plain_tables (Map.empty(''DB_URL'' \<mapsto> ''pg''))) = ''pg''" by (simp add: Load_def Let_def getEnv_def)
  have clear: "clear_rebuild tally_uuid demo_rebuild" by (simp add: clear_rebuild_def demo_rebuild_def no_faults_def E)
  have "storable tally_uuid plain_scalars tally_sales_env (du_db demo_stocked)" by code_simp
  moreover have "pg_history (sales_codec tally_uuid plain_scalars) (du_db demo_stocked) (order_stream tally_uuid 1) \<noteq> []" by code_simp
  moreover have "views_of tally_uuid 5 (pg_history (warehouse_codec tally_uuid) (du_db demo_stocked) (availability_stream tally_uuid 5)) \<noteq> []"
    by code_simp
  moreover have "dto_of_stock tally_uuid (stock (pg_history (warehouse_codec tally_uuid) (du_db demo_stocked) (availability_stream tally_uuid 5))) =
      \<lparr>ad_BeerId = UString tally_uuid 5, ad_BeerName = ''IPA'', ad_Quantity = NewQuantity 100 ''Lt''\<rparr>" by code_simp
  ultimately show ?thesis
    using rebuild_restores_views [OF tally_uuid_ok plain_scalars_ok demo_stocked_reach E R run, of 1 5] run url clear
    by (simp add: demo_rebuild_def tally_sales_env_def)
qed

end
