(* ===== verification/Rest.thy ===== *)
theory Rest
  imports Config Sales_Module Sales_Read_Model Warehouse_Read_Model
begin

text \<open>
  The HTTP surface: \<^verbatim>\<open>src/internal/rest\<close> (\<^verbatim>\<open>endpoints.go\<close>, \<^verbatim>\<open>auth.go\<close>, \<^verbatim>\<open>middleware.go\<close>) and
  \<^verbatim>\<open>src/internal/platform/auth\<close>. A request arrives with its route already matched; gin's
  middleware chain runs in the order in which \<^verbatim>\<open>NewRouter\<close> installs it and stops at the first
  handler that aborts. Not part of the repository and therefore parameters: the token
  bucket of \<^verbatim>\<open>x/time/rate\<close>, the OIDC library, gin's JSON binding and the readiness ping.
\<close>

section \<open>Principals and bearer tokens\<close>

record Principal =
  Subject :: string
  roles :: "string set"

definition NewPrincipal :: "string \<Rightarrow> string list \<Rightarrow> Principal" where
  "NewPrincipal subject rs = \<lparr>Subject = subject, roles = set rs\<rparr>"

definition HasRole :: "string \<Rightarrow> Principal \<Rightarrow> bool" where
  "HasRole role p \<longleftrightarrow> role \<in> roles p"

record keycloakClaims =
  RealmRoles :: "string list"
  ResourceRoles :: "string \<Rightarrow> string list"

text \<open>\<open>verify\<close> and \<open>claims\<close> are the OIDC library's: signature, issuer, expiry and audience, then decoding.\<close>

definition OIDC_Verify ::
  "(string \<Rightarrow> 'tok result) \<Rightarrow> ('tok \<Rightarrow> keycloakClaims result) \<Rightarrow> ('tok \<Rightarrow> string) \<Rightarrow> string \<Rightarrow> string \<Rightarrow> Principal result" where
  "OIDC_Verify verify claims subject clientID rawToken =
     (case verify rawToken of
        Inl err \<Rightarrow> Inl err
      | Inr token \<Rightarrow>
          (case claims token of
             Inl err \<Rightarrow> Inl err
           | Inr c \<Rightarrow> Inr (NewPrincipal (subject token) (RealmRoles c @ ResourceRoles c clientID))))"

definition RoleViewer :: string where "RoleViewer = ''viewer''"
definition RoleSalesManager :: string where "RoleSalesManager = ''sales-manager''"
definition RoleWarehouseOperator :: string where "RoleWarehouseOperator = ''warehouse-operator''"

section \<open>Requests and responses\<close>

datatype endpoint =
    Healthz | Readyz
  | PostSales | ListSales | GetSale string
  | PostAvailability | ListAvailability | GetBeer string

record rest_request =
  rq_endpoint :: endpoint
  rq_client_ip :: string
  rq_authorization :: string
  rq_query :: "string \<rightharpoonup> string"
  rq_content_length :: int
  rq_body_size :: int
  rq_body :: payload

datatype rest_body =
    BStatus string | BError string | BId string
  | BOrder SalesOrderDto | BOrders "SalesOrderDto list" Page
  | BBeer AvailabilityDto | BBeers "AvailabilityDto list" Page

type_synonym response = "nat \<times> rest_body"

definition respondError :: "(go_error \<Rightarrow> string) \<Rightarrow> go_error \<Rightarrow> response" where
  "respondError text err =
     (case err of
        ErrInvalid _ \<Rightarrow> (400, BError (text err))
      | ErrNotFound \<Rightarrow> (404, BError (text err))
      | _ \<Rightarrow> (500, BError ''internal server error''))"

text \<open>
  \<^verbatim>\<open>strconv.Atoi\<close> with its error ignored: no digits or a stray character give 0, a number out
  of range the nearest bound.
\<close>

definition atoi :: "string \<Rightarrow> go_int" where
  "atoi s = fst (Atoi s)"

definition DefaultQuery :: "string \<Rightarrow> string \<Rightarrow> rest_request \<Rightarrow> string" where
  "DefaultQuery k d req = (case rq_query req k of None \<Rightarrow> d | Some v \<Rightarrow> v)"

definition pageOf :: "rest_request \<Rightarrow> Page" where
  "pageOf req = NewPage (atoi (DefaultQuery ''limit'' ''0'' req)) (atoi (DefaultQuery ''offset'' ''0'' req))"

section \<open>The middleware\<close>

definition maxTrackedIPs :: nat where
  "maxTrackedIPs = 10000"

text \<open>\<open>fresh\<close> and \<open>take_token\<close> are \<^verbatim>\<open>rate.NewLimiter\<close> and \<^verbatim>\<open>Limiter.Allow\<close>.\<close>

definition allow :: "'l \<Rightarrow> ('l \<Rightarrow> bool \<times> 'l) \<Rightarrow> string \<Rightarrow> (string \<times> 'l) list \<Rightarrow> bool \<times> (string \<times> 'l) list" where
  "allow fresh take_token ip limiters =
     (let ls = (if length limiters > maxTrackedIPs then [] else limiters);
          (ok, l) = take_token (lookup_default fresh ls ip)
      in (ok, AList.update ip l ls))"

record 'l rest_options =
  op_Ready :: "(unit result) option"
  op_Verifier :: "(string \<Rightarrow> Principal result) option"
  op_MaxBodyBytes :: int
  op_RateLimited :: bool
  op_fresh :: 'l
  op_take :: "'l \<Rightarrow> bool \<times> 'l"

definition rateLimit :: "'l rest_options \<Rightarrow> rest_request \<Rightarrow> (string \<times> 'l) list \<Rightarrow> response option \<times> (string \<times> 'l) list" where
  "rateLimit opts req limiters =
     (if \<not> op_RateLimited opts then (None, limiters)
      else case allow (op_fresh opts) (op_take opts) (rq_client_ip req) limiters of
        (ok, ls) \<Rightarrow> (if ok then None else Some (429, BError ''rate limit exceeded''), ls))"

definition bodyLimit :: "'l rest_options \<Rightarrow> rest_request \<Rightarrow> response option" where
  "bodyLimit opts req =
     (if op_MaxBodyBytes opts \<le> 0 then None
      else if rq_content_length req > op_MaxBodyBytes opts then Some (413, BError ''request body too large'')
      else None)"

text \<open>\<^verbatim>\<open>http.MaxBytesReader\<close>: reading past the limit is an error of the binding.\<close>

definition body_readable :: "'l rest_options \<Rightarrow> rest_request \<Rightarrow> bool" where
  "body_readable opts req \<longleftrightarrow> op_MaxBodyBytes opts \<le> 0 \<or> rq_body_size req \<le> op_MaxBodyBytes opts"

definition CutBearer :: "string \<Rightarrow> string option" where
  "CutBearer header = (if prefix ''Bearer '' header then Some (drop 7 header) else None)"

text \<open>Either the request is aborted, or it goes on with the principal stored in its context.\<close>

definition authenticate :: "(string \<Rightarrow> Principal result) option \<Rightarrow> rest_request \<Rightarrow> response + Principal option" where
  "authenticate verifier req =
     (case verifier of
        None \<Rightarrow> Inr None
      | Some verify \<Rightarrow>
          (case CutBearer (rq_authorization req) of
             None \<Rightarrow> Inl (401, BError ''missing bearer token'')
           | Some rawToken \<Rightarrow>
               if rawToken = [] then Inl (401, BError ''missing bearer token'')
               else (case verify rawToken of
                 Inl _ \<Rightarrow> Inl (401, BError ''invalid token'')
               | Inr caller \<Rightarrow> Inr (Some caller))))"

text \<open>\<^verbatim>\<open>c.MustGet\<close> panics without a principal; \<^verbatim>\<open>gin.Recovery\<close> turns that into a 500.\<close>

definition requireRole :: "(string \<Rightarrow> Principal result) option \<Rightarrow> string \<Rightarrow> Principal option \<Rightarrow> response option" where
  "requireRole verifier role caller =
     (case verifier of
        None \<Rightarrow> None
      | Some _ \<Rightarrow>
          (case caller of
             None \<Rightarrow> Some (500, BStatus [])
           | Some p \<Rightarrow> if HasRole role p then None else Some (403, BError (''requires role '' @ role))))"


section \<open>The routes\<close>

record 'l rest_world =
  rw_limiters :: "(string \<times> 'l) list"
  rw_sent :: "wire list"
  rw_sales :: SalesOrderService
  rw_stock :: AvailabilityService

text \<open>What a handler draws from outside: the network, fresh identifiers, the clock, gin's binding.\<close>

record rest_env =
  re_uuid :: uuid_pkg
  re_net :: network
  re_order :: uuid
  re_customer :: uuid
  re_commit :: uuid
  re_now :: instant
  re_text :: "go_error \<Rightarrow> string"
  re_bind_order :: "payload \<Rightarrow> string + SalesOrderJson"
  re_bind_production :: "payload \<Rightarrow> string + ProductionOrderJson"
  re_arrange :: "AvailabilityDto list \<Rightarrow> AvailabilityDto list"

definition ShouldBindJSON :: "'l rest_options \<Rightarrow> rest_request \<Rightarrow> (payload \<Rightarrow> string + 'b) \<Rightarrow> string + 'b" where
  "ShouldBindJSON opts req bind =
     (if body_readable opts req then bind (rq_body req) else Inl ''http: request body too large'')"

definition post_sales :: "'l rest_options \<Rightarrow> rest_env \<Rightarrow> rest_request \<Rightarrow> 'l rest_world \<Rightarrow> response \<times> 'l rest_world" where
  "post_sales opts env req w =
     (case ShouldBindJSON opts req (re_bind_order env) of
        Inl msg \<Rightarrow> ((400, BError msg), w)
      | Inr body \<Rightarrow>
          (case facade_CreateSalesOrder (re_uuid env) (re_net env) (re_order env) (re_customer env) (re_commit env)
                  (re_now env) body (rw_sent w) of
             (Inl err, sent') \<Rightarrow> (respondError (re_text env) err, w\<lparr>rw_sent := sent'\<rparr>)
           | (Inr orderId, sent') \<Rightarrow> ((201, BId orderId), w\<lparr>rw_sent := sent'\<rparr>)))"

definition post_availability :: "'l rest_options \<Rightarrow> rest_env \<Rightarrow> rest_request \<Rightarrow> 'l rest_world \<Rightarrow> response \<times> 'l rest_world" where
  "post_availability opts env req w =
     (case ShouldBindJSON opts req (re_bind_production env) of
        Inl msg \<Rightarrow> ((400, BError msg), w)
      | Inr body \<Rightarrow>
          (case facade_UpdateAvailabilityDueToProductionOrder (re_uuid env) (re_net env) (re_commit env) body (rw_sent w) of
             (Inl err, sent') \<Rightarrow> (respondError (re_text env) err, w\<lparr>rw_sent := sent'\<rparr>)
           | (Inr beerId, sent') \<Rightarrow> ((202, BId beerId), w\<lparr>rw_sent := sent'\<rparr>)))"

fun run_endpoint :: "endpoint \<Rightarrow> 'l rest_options \<Rightarrow> rest_env \<Rightarrow> rest_request \<Rightarrow> 'l rest_world \<Rightarrow> response \<times> 'l rest_world" where
  "run_endpoint Healthz opts env req w = ((200, BStatus ''ok''), w)"
| "run_endpoint Readyz opts env req w =
     (case op_Ready opts of
        Some (Inl err) \<Rightarrow> ((503, BStatus ''not ready''), w)
      | _ \<Rightarrow> ((200, BStatus ''ready''), w))"
| "run_endpoint PostSales opts env req w = post_sales opts env req w"
| "run_endpoint ListSales opts env req w = ((200, BOrders (GetSalesOrders (pageOf req) (rw_sales w)) (pageOf req)), w)"
| "run_endpoint (GetSale i) opts env req w =
     (case GetSalesOrder i (rw_sales w) of
        Inl err \<Rightarrow> (respondError (re_text env) err, w) | Inr order \<Rightarrow> ((200, BOrder order), w))"
| "run_endpoint PostAvailability opts env req w = post_availability opts env req w"
| "run_endpoint ListAvailability opts env req w =
     ((200, BBeers (GetAvailabilities (re_arrange env) (pageOf req) (rw_stock w)) (pageOf req)), w)"
| "run_endpoint (GetBeer b) opts env req w =
     (case GetAvailability b (rw_stock w) of
        Inl err \<Rightarrow> (respondError (re_text env) err, w) | Inr beer \<Rightarrow> ((200, BBeer beer), w))"

text \<open>The role each route of the \<^verbatim>\<open>/v1\<close> group is guarded with; the probes are outside the group.\<close>

fun endpoint_role :: "endpoint \<Rightarrow> string option" where
  "endpoint_role Healthz = None"
| "endpoint_role Readyz = None"
| "endpoint_role PostSales = Some RoleSalesManager"
| "endpoint_role PostAvailability = Some RoleWarehouseOperator"
| "endpoint_role _ = Some RoleViewer"

definition serve :: "'l rest_options \<Rightarrow> rest_env \<Rightarrow> rest_request \<Rightarrow> 'l rest_world \<Rightarrow> response \<times> 'l rest_world" where
  "serve opts env req w =
     (case rateLimit opts req (rw_limiters w) of (limited, ls) \<Rightarrow>
      let w1 = w\<lparr>rw_limiters := ls\<rparr> in
      case limited of Some r \<Rightarrow> (r, w1) | None \<Rightarrow>
      case bodyLimit opts req of Some r \<Rightarrow> (r, w1) | None \<Rightarrow>
      case endpoint_role (rq_endpoint req) of None \<Rightarrow> run_endpoint (rq_endpoint req) opts env req w1 | Some role \<Rightarrow>
      case authenticate (op_Verifier opts) req of Inl r \<Rightarrow> (r, w1) | Inr caller \<Rightarrow>
      case requireRole (op_Verifier opts) role caller of Some r \<Rightarrow> (r, w1) | None \<Rightarrow>
      run_endpoint (rq_endpoint req) opts env req w1)"

section \<open>Properties\<close>

text \<open>The limiter's map stays bounded.\<close>

lemma allow_bounded: "length limiters \<le> Suc maxTrackedIPs \<Longrightarrow> length (snd (allow fresh tk ip limiters)) \<le> Suc maxTrackedIPs"
proof -
  have upd: "length (AList.update k v m) \<le> Suc (length m)" for k :: string and v :: 'a and m
    by (induction m) auto
  assume "length limiters \<le> Suc maxTrackedIPs"
  then show ?thesis
    by (cases "maxTrackedIPs < length limiters")
      (auto simp: allow_def Let_def not_less split: prod.splits intro: le_trans [OF upd])
qed

definition authorized :: "'l rest_options \<Rightarrow> rest_request \<Rightarrow> string \<Rightarrow> bool" where
  "authorized opts req role \<longleftrightarrow>
     (case op_Verifier opts of None \<Rightarrow> True
      | Some verify \<Rightarrow> \<exists>token p. rq_authorization req = ''Bearer '' @ token \<and> token \<noteq> [] \<and> verify token = Inr p \<and> HasRole role p)"

lemma guards_pass:
  "authenticate (op_Verifier opts) req = Inr caller \<Longrightarrow> requireRole (op_Verifier opts) role caller = None \<Longrightarrow>
     authorized opts req role"
  by (auto simp: authenticate_def requireRole_def authorized_def CutBearer_def prefix_def
      split: option.splits if_splits sum.splits)

lemma CutBearer_Bearer: "CutBearer (''Bearer '' @ token) = Some token"
  by (simp add: CutBearer_def prefix_def)

lemma guards_stop:
  assumes "\<not> authorized opts req role"
  shows "(\<exists>r. authenticate (op_Verifier opts) req = Inl r \<and> fst r = 401) \<or>
    (\<exists>caller r. authenticate (op_Verifier opts) req = Inr caller \<and> requireRole (op_Verifier opts) role caller = Some r \<and> fst r = 403)"
proof -
  obtain verify where v: "op_Verifier opts = Some verify" using assms by (cases "op_Verifier opts") (auto simp: authorized_def)
  show ?thesis
  proof (cases "CutBearer (rq_authorization req)")
    case None
    then show ?thesis by (simp add: authenticate_def v)
  next
    case (Some token)
    then have h: "rq_authorization req = ''Bearer '' @ token" by (auto simp: CutBearer_def prefix_def split: if_splits)
    with Some assms v show ?thesis
      by (cases "token = []"; cases "verify token") (auto simp: authenticate_def requireRole_def authorized_def)
  qed
qed


lemma rateLimit_status: "rateLimit opts req ls = (Some r, ls') \<Longrightarrow> r = (429, BError ''rate limit exceeded'')"
  by (auto simp: rateLimit_def split: if_splits prod.splits)

lemma bodyLimit_status: "bodyLimit opts req = Some r \<Longrightarrow> r = (413, BError ''request body too large'')"
  by (auto simp: bodyLimit_def split: if_splits)

text \<open>The ways a request ends: stopped by a middleware, or answered by its route.\<close>

lemma serve_cases:
  assumes "serve opts env req w = (r, w')"
  shows "(\<exists>msg. snd r = BError msg \<and> fst r \<in> {401, 403, 413, 429} \<and> rw_sent w' = rw_sent w) \<or>
    (\<exists>ls. run_endpoint (rq_endpoint req) opts env req (w\<lparr>rw_limiters := ls\<rparr>) = (r, w') \<and>
       (\<forall>role. endpoint_role (rq_endpoint req) = Some role \<longrightarrow> authorized opts req role))"
proof -
  obtain limited ls where rl: "rateLimit opts req (rw_limiters w) = (limited, ls)" by fastforce
  have pass: "?thesis" if "limited = None" "bodyLimit opts req = None"
  proof (cases "endpoint_role (rq_endpoint req)")
    case None
    with assms rl that show ?thesis by (auto simp: serve_def)
  next
    case (Some role)
    show ?thesis
    proof (cases "authenticate (op_Verifier opts) req")
      case (Inl x)
      then have "fst x = 401" "\<exists>msg. snd x = BError msg"
        by (auto simp: authenticate_def split: option.splits if_splits sum.splits)
      with assms rl that Some Inl show ?thesis by (auto simp: serve_def)
    next
      case (Inr caller)
      show ?thesis
      proof (cases "requireRole (op_Verifier opts) role caller")
        case None
        with guards_pass [OF Inr None] assms rl that Some Inr show ?thesis by (auto simp: serve_def)
      next
        case (Some x)
        have "caller \<noteq> None" if "op_Verifier opts \<noteq> None"
          using Inr that by (auto simp: authenticate_def split: option.splits if_splits sum.splits)
        with Some have "fst x = 403" "\<exists>msg. snd x = BError msg"
          by (auto simp: requireRole_def split: option.splits if_splits)
        with assms rl that Some \<open>endpoint_role (rq_endpoint req) = Some role\<close> Inr show ?thesis by (auto simp: serve_def)
      qed
    qed
  qed
  show ?thesis
  proof (cases limited)
    case (Some x)
    with rateLimit_status [of opts req] rl assms show ?thesis by (fastforce simp: serve_def)
  next
    case None
    show ?thesis
    proof (cases "bodyLimit opts req")
      case (Some x)
      with bodyLimit_status [OF Some] None rl assms show ?thesis by (auto simp: serve_def)
    qed (rule pass [OF None])
  qed
qed

text \<open>
  C37. Role-based access control is enforced on every business route: a request that does not
  carry a bearer token which the verifier accepts for a caller with the route's role is
  answered with an error (401, 403, 413 or 429) and an error body only, and sends no
  command.
\<close>

theorem rbac_enforced:
  assumes "endpoint_role (rq_endpoint req) = Some role" and "\<not> authorized opts req role"
    and "serve opts env req w = (r, w')"
  shows "fst r \<in> {401, 403, 413, 429} \<and> (\<exists>msg. snd r = BError msg) \<and> rw_sent w' = rw_sent w"
  using serve_cases [OF assms(3)] assms(1,2) by blast

definition demo_options :: "unit rest_options" where
  "demo_options = \<lparr>op_Ready = None, op_Verifier = Some (\<lambda>t. if t = ''viewer-token'' then Inr (NewPrincipal ''barfly'' [RoleViewer]) else Inl (ErrOther ''bad'')),
     op_MaxBodyBytes = 0, op_RateLimited = False, op_fresh = (), op_take = (\<lambda>l. (True, l))\<rparr>"

definition demo_request :: rest_request where
  "demo_request = \<lparr>rq_endpoint = PostSales, rq_client_ip = ''10.0.0.1'', rq_authorization = ''Bearer viewer-token'', rq_query = Map.empty,
     rq_content_length = 2, rq_body_size = 2, rq_body = Json JNull\<rparr>"

definition demo_world :: "unit rest_world" where
  "demo_world = \<lparr>rw_limiters = [], rw_sent = [], rw_sales = NewSalesOrderService, rw_stock = NewAvailabilityService\<rparr>"

definition demo_env :: rest_env where
  "demo_env = \<lparr>re_uuid = hex_uuid, re_net = open_net, re_order = 1, re_customer = 2, re_commit = 3, re_now = 4, re_text = (\<lambda>_. []),
     re_bind_order = (\<lambda>_. Inr \<lparr>oj_Id = [], oj_SalesOrderNumber = ''1'', oj_OrderDate = 5, oj_CustomerId = [], oj_CustomerName = ''c'', oj_Rows = []\<rparr>),
     re_bind_production = (\<lambda>_. Inl ''bad''), re_arrange = (\<lambda>xs. xs)\<rparr>"

theorem rbac_enforced_witness:
  "fst (fst (serve demo_options demo_env demo_request demo_world)) \<in> {401, 403, 413, 429} \<and>
   rw_sent (snd (serve demo_options demo_env demo_request demo_world)) = rw_sent demo_world"
proof -
  have "\<not> authorized demo_options demo_request RoleSalesManager"
    by (auto simp: authorized_def demo_options_def demo_request_def HasRole_def NewPrincipal_def RoleViewer_def RoleSalesManager_def)
  with rbac_enforced [of demo_request RoleSalesManager demo_options demo_env demo_world
      "fst (serve demo_options demo_env demo_request demo_world)" "snd (serve demo_options demo_env demo_request demo_world)"]
  show ?thesis by (simp add: demo_request_def)
qed

text \<open>
  C38. The answer to a write tells whether the command is on the bus: 201 for an order (202 for a
  production order) is returned exactly when one command was handed over, for the order
  (the beer) whose identifier is in the answer; with any other status nothing was sent. No
  other route sends anything.
\<close>

theorem write_answer_means_sent:
  assumes "serve opts env req w = (r, w')"
  shows "case rq_endpoint req of
      PostSales \<Rightarrow>
        (if fst r = 201 then \<exists>c. rw_sent w' = rw_sent w @ [command_wire (SCommand c)] \<and> snd r = BId (UString (re_uuid env) (sc_SalesOrderId c))
         else rw_sent w' = rw_sent w)
    | PostAvailability \<Rightarrow>
        (if fst r = 202 then \<exists>c. rw_sent w' = rw_sent w @ [command_wire (WCommand c)] \<and> snd r = BId (UString (re_uuid env) (wc_BeerId c))
         else rw_sent w' = rw_sent w)
    | _ \<Rightarrow> rw_sent w' = rw_sent w"
  using serve_cases [OF assms]
proof (elim disjE exE conjE)
  fix ls
  assume run: "run_endpoint (rq_endpoint req) opts env req (w\<lparr>rw_limiters := ls\<rparr>) = (r, w')"
  have err: "fst (respondError t e) \<noteq> 201" "fst (respondError t e) \<noteq> 202" for t e
    by (auto simp: respondError_def split: go_error.splits)
  show ?thesis
  proof (cases "rq_endpoint req")
    case PostSales
    with run err show ?thesis
      by (auto simp: post_sales_def facade_CreateSalesOrder_def Let_def Send_def bus_publish_def command_wire_def msg_defs
          split: sum.splits prod.splits option.splits if_splits)
  next
    case PostAvailability
    with run err show ?thesis
      by (auto simp: post_availability_def facade_UpdateAvailabilityDueToProductionOrder_def Let_def Send_def bus_publish_def
          command_wire_def msg_defs split: sum.splits prod.splits option.splits if_splits)
  qed (use run in \<open>auto split: option.splits sum.splits\<close>)
qed (auto split: endpoint.splits)

theorem write_answer_means_sent_witness:
  "fst (fst (serve (demo_options\<lparr>op_Verifier := None\<rparr>) demo_env demo_request demo_world)) = 201 \<and>
   (\<exists>c. rw_sent (snd (serve (demo_options\<lparr>op_Verifier := None\<rparr>) demo_env demo_request demo_world)) = [command_wire (SCommand c)])"
proof -
  let ?s = "serve (demo_options\<lparr>op_Verifier := None\<rparr>) demo_env demo_request demo_world"
  have "fst (fst ?s) = 201"
    by (simp add: serve_def rateLimit_def bodyLimit_def demo_options_def demo_request_def authenticate_def requireRole_def
        post_sales_def ShouldBindJSON_def body_readable_def demo_env_def facade_CreateSalesOrder_def demo_world_def)
  moreover have "rq_endpoint demo_request = PostSales" by (simp add: demo_request_def)
  ultimately show ?thesis
    using write_answer_means_sent [of "demo_options\<lparr>op_Verifier := None\<rparr>" demo_env demo_request demo_world "fst ?s" "snd ?s"]
    by (auto simp: demo_world_def)
qed

end
