(* ===== verification/App.thy ===== *)
theory App
  imports Modules Rebuild Rest
begin

text \<open>
  The composition root, \<^verbatim>\<open>src/internal/app/app.go\<close>, the lifecycle of the service bus and of the
  transports (\<^verbatim>\<open>Run\<close>, \<^verbatim>\<open>Close\<close>, \<^verbatim>\<open>NewServiceBus\<close>, \<^verbatim>\<open>NewAMQPTransport\<close>), and the commands
  \<^verbatim>\<open>src/cmd/api\<close> and \<^verbatim>\<open>src/cmd/redrive\<close>. Connections, the router and the HTTP server belong to
  libraries: their errors are parameters. Waiting on a channel that nobody closes is the
  outcome \<open>Hangs\<close>, and a panic of a goroutine, which ends the process, is \<open>Crashes\<close>.
\<close>

section \<open>Transports\<close>

text \<open>What the broker's client answers: connecting the publisher, connecting a subscriber, closing.\<close>

record broker_client =
  bc_newPublisher :: "string \<Rightarrow> string option"
  bc_newSubscriber :: "string \<Rightarrow> go_error option"
  bc_closeSubscriber :: "string \<Rightarrow> go_error option"
  bc_closePublisher :: "go_error option"
  bc_closeChannel :: "go_error option"

text \<open>The process: its open database pools and broker publishers, and the telemetry it installed.\<close>

record process =
  pr_pools :: nat
  pr_publishers :: nat
  pr_otel :: otel_globals

definition NewAMQPTransport :: "broker_client \<Rightarrow> string \<Rightarrow> process \<Rightarrow> (process, AMQPTransport) outcome" where
  "NewAMQPTransport C url pr =
     (case bc_newPublisher C url of
        Some err \<Rightarrow> (Inl (ErrOther (''connect amqp publisher: '' @ err)), pr)
      | None \<Rightarrow> (Inr \<lparr>tr_subscribers = []\<rparr>, pr\<lparr>pr_publishers := Suc (pr_publishers pr)\<rparr>))"

definition AMQP_Close :: "broker_client \<Rightarrow> AMQPTransport \<Rightarrow> go_error list" where
  "AMQP_Close C t = closeAll (map (bc_closeSubscriber C) (tr_subscribers t) @ [bc_closePublisher C])"

text \<open>A transport is the in-memory one (\<open>None\<close>) or the AMQP one.\<close>

type_synonym transport = "AMQPTransport option"

definition SubscriberFor :: "broker_client \<Rightarrow> string \<Rightarrow> transport \<Rightarrow> (transport, unit) outcome" where
  "SubscriberFor C handlerName t =
     (case t of
        None \<Rightarrow> InMemory_SubscriberFor handlerName None
      | Some a \<Rightarrow> (case AMQP_SubscriberFor (bc_newSubscriber C) handlerName a of (r, a') \<Rightarrow> (r, Some a')))"

definition transport_Close :: "broker_client \<Rightarrow> transport \<Rightarrow> go_error list" where
  "transport_Close C t = (case t of None \<Rightarrow> closeAll [bc_closeChannel C] | Some a \<Rightarrow> AMQP_Close C a)"

section \<open>The lifecycle of the bus\<close>

text \<open>
  The outside of a run: the client of the broker, an error of the router before it is
  operational, what ends the run, and the errors of shutting down.
\<close>

datatype stop = CtxDone | BusFailed go_error | HttpFailed go_error

record run_env =
  re_client :: broker_client
  re_router :: "go_error option"
  re_stop :: stop
  re_httpShutdown :: "go_error option"
  re_routerClose :: "go_error option"
  re_tracingShutdown :: "go_error option"

text \<open>
  \<^verbatim>\<open>ServiceBus.Run\<close> up to the point where \<^verbatim>\<open>Running()\<close> unblocks: an error before that point is
  returned and the channel is never closed.
\<close>

definition bus_Start :: "run_env \<Rightarrow> 's ServiceBus \<times> transport \<Rightarrow> ('s ServiceBus \<times> transport, unit) outcome" where
  "bus_Start E w =
     (case attachHandlers (SubscriberFor (re_client E)) w of
        (Inl err, w') \<Rightarrow> (Inl err, w')
      | (Inr _, w') \<Rightarrow> (case re_router E of Some err \<Rightarrow> (Inl err, w') | None \<Rightarrow> (Inr (), w')))"

definition bus_Close :: "run_env \<Rightarrow> bool \<Rightarrow> transport \<Rightarrow> go_error list" where
  "bus_Close E running t =
     (if running then closeAll [re_routerClose E] @ transport_Close (re_client E) t else transport_Close (re_client E) t)"

section \<open>Building the application\<close>

record rest_settings =
  rs_ready :: bool
  rs_verifier :: "(string \<times> string \<times> string) option"
  rs_maxBodyBytes :: go_int
  rs_rateLimitRPS :: "64 word"
  rs_rateLimitBurst :: go_int
  rs_tracing :: bool
  rs_trustedProxies :: "string list"

record 's App =
  ap_cfg :: Config
  ap_bus :: "'s ServiceBus"
  ap_transport :: transport
  ap_engine :: rest_settings
  ap_shutdownTracing :: tracing_shutdown
  ap_relay :: "go_int option"

datatype boot_error = DatabaseError go_error | BrokerError go_error | MetricsError go_error

record boot_env =
  be_driver :: db_driver
  be_client :: broker_client
  be_metrics :: "string option"

text \<open>The persistence mode and the broker mode of \<^verbatim>\<open>New\<close>.\<close>

definition persistence_mode :: "boot_env \<Rightarrow> Config \<Rightarrow> process \<Rightarrow> (process, unit) outcome" where
  "persistence_mode B cfg pr =
     (if DBURL cfg \<noteq> []
      then (case database_Open (be_driver B) (DBURL cfg) (pr_pools pr) of (r, pools) \<Rightarrow> (r, pr\<lparr>pr_pools := pools\<rparr>))
      else (Inr (), pr))"

definition broker_mode :: "boot_env \<Rightarrow> Config \<Rightarrow> process \<Rightarrow> (process, transport) outcome" where
  "broker_mode B cfg pr =
     (if BrokerURL cfg \<noteq> []
      then (case NewAMQPTransport (be_client B) (BrokerURL cfg) pr of
              (Inl err, pr') \<Rightarrow> (Inl err, pr') | (Inr t, pr') \<Rightarrow> (Inr (Some t), pr'))
      else (Inr None, pr))"

text \<open>The bus with the archive of dead letters and the modules; the REST options.\<close>

definition app_bus ::
  "('s ServiceBus \<Rightarrow> 's ServiceBus) \<Rightarrow> ('s ServiceBus \<Rightarrow> 's ServiceBus) \<Rightarrow> (string \<Rightarrow> payload \<Rightarrow> string \<Rightarrow> ('s, unit) handler)
     \<Rightarrow> Config \<Rightarrow> 's ServiceBus" where
  "app_bus sales warehouses save cfg =
     (let bus = NewServiceBusWithTransport;
          bus1 = (if DBURL cfg \<noteq> [] then OnDeadLetter ''muflone.dead_letter_archive'' save bus else bus)
      in warehouses (sales bus1))"

definition app_options :: "Config \<Rightarrow> rest_settings" where
  "app_options cfg =
     \<lparr>rs_ready = (DBURL cfg \<noteq> []),
      rs_verifier = (if AuthIssuer cfg \<noteq> [] then Some (AuthIssuer cfg, AuthJWKSURL cfg, AuthClientID cfg) else None),
      rs_maxBodyBytes = MaxBodyBytes cfg, rs_rateLimitRPS = RateLimitRPS cfg, rs_rateLimitBurst = RateLimitBurst cfg,
      rs_tracing = (OTELEndpoint cfg \<noteq> []), rs_trustedProxies = TrustedProxies cfg\<rparr>"

text \<open>
  \<^verbatim>\<open>New\<close>; \<open>sales\<close> and \<open>warehouses\<close> are the registrations of the two modules and \<open>save\<close> archives a
  dead letter. On an error the process keeps what it had opened before.
\<close>

definition app_New ::
  "('s ServiceBus \<Rightarrow> 's ServiceBus) \<Rightarrow> ('s ServiceBus \<Rightarrow> 's ServiceBus) \<Rightarrow> (string \<Rightarrow> payload \<Rightarrow> string \<Rightarrow> ('s, unit) handler)
     \<Rightarrow> boot_env \<Rightarrow> Config \<Rightarrow> process \<Rightarrow> (boot_error + 's App) \<times> process" where
  "app_New sales warehouses save B cfg pr =
     (case persistence_mode B cfg pr of
        (Inl err, pr1) \<Rightarrow> (Inl (DatabaseError err), pr1)
      | (Inr _, pr1) \<Rightarrow>
          (case broker_mode B cfg pr1 of
             (Inl err, pr2) \<Rightarrow> (Inl (BrokerError err), pr2)
           | (Inr t, pr2) \<Rightarrow>
               (let relay = (if DBURL cfg \<noteq> [] then Some (OutboxInterval cfg) else None);
                    bus = app_bus sales warehouses save cfg;
                    (shutdown, otel) = InitTracing (OTELEndpoint cfg) (ServiceName cfg) (AppEnv cfg) (pr_otel pr2)
                in case InitMetrics (be_metrics B) (ServiceName cfg) (AppEnv cfg) otel of
                  (Inl err, otel') \<Rightarrow> (Inl (MetricsError err), pr2\<lparr>pr_otel := otel'\<rparr>)
                | (Inr _, otel') \<Rightarrow>
                    (Inr \<lparr>ap_cfg = cfg, ap_bus = bus, ap_transport = t, ap_engine = app_options cfg,
                          ap_shutdownTracing = shutdown, ap_relay = relay\<rparr>,
                     pr2\<lparr>pr_otel := otel'\<rparr>))))"

section \<open>Running it\<close>

datatype run_error = ServiceBusError go_error | HttpServerError go_error | HttpShutdownError go_error
  | BusShutdownError "go_error list" | TracingShutdownError go_error

datatype 'a run_outcome = Returns 'a | Hangs | Crashes string

text \<open>\<^verbatim>\<open>time.NewTicker\<close> panics when its period is not positive.\<close>

definition NewTicker :: "int \<Rightarrow> string option" where
  "NewTicker d = (if d \<le> 0 then Some ''non-positive interval for NewTicker'' else None)"

definition relay_Start :: "go_int option \<Rightarrow> string option" where
  "relay_Start relay = (case relay of None \<Rightarrow> None | Some interval \<Rightarrow> NewTicker (sint interval))"

text \<open>
  The watchdog of \<^verbatim>\<open>startSagaSupervision\<close>: off when the timeout is not positive, otherwise
  ticking every half timeout. Resuming the sagas before it only logs its error.
\<close>

definition startSagaSupervision :: "Config \<Rightarrow> string option" where
  "startSagaSupervision cfg =
     (if sint (SagaStepTimeout cfg) \<le> 0 then None else NewTicker (sint (SagaStepTimeout cfg) div 2))"

definition app_shutdown :: "run_env \<Rightarrow> 's App \<Rightarrow> transport \<Rightarrow> run_error + unit" where
  "app_shutdown E a t =
     (case re_httpShutdown E of
        Some err \<Rightarrow> Inl (HttpShutdownError err)
      | None \<Rightarrow>
          (case bus_Close E True t of
             err # errs \<Rightarrow> Inl (BusShutdownError (err # errs))
           | [] \<Rightarrow>
               (case (case ap_shutdownTracing a of NoTracing \<Rightarrow> None | ProviderShutdown \<Rightarrow> re_tracingShutdown E) of
                  Some err \<Rightarrow> Inl (TracingShutdownError err)
                | None \<Rightarrow> Inr ())))"

text \<open>
  \<^verbatim>\<open>Run\<close>: the main goroutine waits for \<^verbatim>\<open>Running()\<close> before it looks at the error channel or at
  the context.
\<close>

definition app_Run :: "run_env \<Rightarrow> 's App \<Rightarrow> (run_error + unit) run_outcome" where
  "app_Run E a =
     (case bus_Start E (ap_bus a, ap_transport a) of
        (Inl err, w) \<Rightarrow> Hangs
      | (Inr _, (bus, t)) \<Rightarrow>
          (case relay_Start (ap_relay a) of
             Some panic \<Rightarrow> Crashes panic
           | None \<Rightarrow>
               (case startSagaSupervision (ap_cfg a) of
                  Some panic \<Rightarrow> Crashes panic
                | None \<Rightarrow>
                    (case re_stop E of
                       BusFailed err \<Rightarrow> Returns (Inl (ServiceBusError err))
                     | HttpFailed err \<Rightarrow> Returns (Inl (HttpServerError err))
                     | CtxDone \<Rightarrow> Returns (app_shutdown E a t)))))"

text \<open>\<^verbatim>\<open>StartBus\<close> looks at the context as well; \<open>cancelled\<close> says whether it is ever cancelled.\<close>

definition app_StartBus :: "run_env \<Rightarrow> bool \<Rightarrow> 's App \<Rightarrow> (go_error + unit) run_outcome" where
  "app_StartBus E cancelled a =
     (case bus_Start E (ap_bus a, ap_transport a) of
        (Inr _, w) \<Rightarrow> Returns (Inr ())
      | (Inl err, w) \<Rightarrow> if cancelled then Returns (Inl (ErrOther ''context canceled'')) else Hangs)"

section \<open>The commands\<close>

text \<open>\<^verbatim>\<open>run\<close> of \<^verbatim>\<open>cmd/api\<close>.\<close>

definition api_run ::
  "go_tables \<Rightarrow> environment \<Rightarrow> ('s ServiceBus \<Rightarrow> 's ServiceBus) \<Rightarrow> ('s ServiceBus \<Rightarrow> 's ServiceBus)
     \<Rightarrow> (string \<Rightarrow> payload \<Rightarrow> string \<Rightarrow> ('s, unit) handler) \<Rightarrow> boot_env \<Rightarrow> run_env \<Rightarrow> process
     \<Rightarrow> (boot_error + (run_error + unit) run_outcome) \<times> process" where
  "api_run T env sales warehouses save B E pr =
     (case app_New sales warehouses save B (Load T env) pr of
        (Inl err, pr') \<Rightarrow> (Inl err, pr')
      | (Inr a, pr') \<Rightarrow> (Inr (app_Run E a), pr'))"

text \<open>\<^verbatim>\<open>run\<close> of \<^verbatim>\<open>cmd/redrive\<close>; the deferred calls close the pool and the publisher on every path.\<close>

definition redrive_run ::
  "go_tables \<Rightarrow> environment \<Rightarrow> boot_env \<Rightarrow> redrive_env \<Rightarrow> instant \<Rightarrow> process \<times> archive_state \<Rightarrow> (process \<times> archive_state, nat) outcome" where
  "redrive_run T env B R now w =
     (let cfg = Load T env; pr = fst w in
      if DBURL cfg = [] \<or> BrokerURL cfg = []
      then (Inl (ErrOther ''redrive needs DB_URL (the archive) and BROKER_URL (the shared broker)''), w)
      else case database_Open (be_driver B) (DBURL cfg) (pr_pools pr) of
        (Inl err, pools) \<Rightarrow> (Inl err, (pr\<lparr>pr_pools := pools\<rparr>, snd w))
      | (Inr _, pools) \<Rightarrow>
          (let pr1 = pr\<lparr>pr_pools := pools\<rparr>;
               closePool = (\<lambda>p. p\<lparr>pr_pools := pr_pools p - 1\<rparr>);
               closePublisher = (\<lambda>p. p\<lparr>pr_publishers := pr_publishers p - 1\<rparr>)
           in case NewAMQPTransport (be_client B) (BrokerURL cfg) pr1 of
             (Inl err, pr2) \<Rightarrow> (Inl err, (closePool pr2, snd w))
           | (Inr _, pr2) \<Rightarrow>
               (case RedriveDeadLetters R now (snd w) of
                  (r, v) \<Rightarrow> (r, (closePool (closePublisher pr2), v)))))"

section \<open>What a failed boot leaves behind\<close>

definition opened :: "string \<Rightarrow> nat" where
  "opened url = (if url \<noteq> [] then 1 else 0)"

lemma persistence_mode_result:
  assumes "persistence_mode B cfg pr = (r, pr')"
  shows "case r of Inl _ \<Rightarrow> DBURL cfg \<noteq> [] \<and> pr' = pr | Inr _ \<Rightarrow> pr' = pr\<lparr>pr_pools := pr_pools pr + opened (DBURL cfg)\<rparr>"
  using assms database_Open_cases [of "be_driver B" "DBURL cfg" "pr_pools pr"]
  by (auto simp: persistence_mode_def opened_def split: if_splits)

lemma broker_mode_result:
  assumes "broker_mode B cfg pr = (r, pr')"
  shows "case r of Inl _ \<Rightarrow> BrokerURL cfg \<noteq> [] \<and> pr' = pr
    | Inr t \<Rightarrow> t = (if BrokerURL cfg \<noteq> [] then Some \<lparr>tr_subscribers = []\<rparr> else None) \<and>
        pr' = pr\<lparr>pr_publishers := pr_publishers pr + opened (BrokerURL cfg)\<rparr>"
  using assms by (auto simp: broker_mode_def opened_def NewAMQPTransport_def split: if_splits option.splits)

text \<open>
  A failed boot closes nothing: a failure to open the database leaves nothing open, but a
  later one leaves the pool open, and after the broker also its publisher.
\<close>

lemma failed_boot_leaves_open:
  assumes "app_New sales warehouses save B (Load T env) pr = (Inl err, pr')"
  shows "case err of
     DatabaseError _ \<Rightarrow> pr' = pr
   | BrokerError _ \<Rightarrow> pr_pools pr' = pr_pools pr + opened (DBURL (Load T env)) \<and> pr_publishers pr' = pr_publishers pr
   | MetricsError _ \<Rightarrow> pr_pools pr' = pr_pools pr + opened (DBURL (Load T env)) \<and>
       pr_publishers pr' = pr_publishers pr + opened (BrokerURL (Load T env))"
proof -
  let ?cfg = "Load T env"
  obtain d pr1 where d: "persistence_mode B ?cfg pr = (d, pr1)" by fastforce
  obtain q pr2 where q: "broker_mode B ?cfg pr1 = (q, pr2)" by fastforce
  obtain sh otel where tr: "InitTracing (OTELEndpoint ?cfg) (ServiceName ?cfg) (AppEnv ?cfg) (pr_otel pr2) = (sh, otel)" by fastforce
  note dd = persistence_mode_result [OF d] and bb = broker_mode_result [OF q]
  show ?thesis
  proof (cases d)
    case (Inl e)
    with assms d dd show ?thesis by (auto simp: app_New_def)
  next
    case d': (Inr u)
    show ?thesis
    proof (cases q)
      case (Inl e)
      with assms d d' q dd bb show ?thesis by (auto simp: app_New_def)
    next
      case (Inr t)
      with assms d d' q dd bb tr show ?thesis
        by (cases "be_metrics B") (auto simp: app_New_def Let_def InitMetrics_def)
    qed
  qed
qed

section \<open>What a run does\<close>

text \<open>A module's registration only adds subscriptions.\<close>

definition extends :: "'s ServiceBus \<Rightarrow> 's ServiceBus \<Rightarrow> bool" where
  "extends b b' \<longleftrightarrow> (\<exists>ps. b' = b\<lparr>sb_pending := sb_pending b @ ps\<rparr>)"

lemma extends_refl: "extends b b"
  by (auto simp: extends_def intro: exI [of _ "[]"])

lemma extends_subscribe: "extends b b' \<Longrightarrow> extends b (subscribe n t h b')"
  by (auto simp: extends_def subscribe_def)

locale module_registration =
  fixes register :: "'s ServiceBus \<Rightarrow> 's ServiceBus"
  assumes only_subscribes: "extends b (register b)"
begin

lemma unattached: "sb_attached (register b) = sb_attached b" "sb_router (register b) = sb_router b"
  using only_subscribes [of b] by (auto simp: extends_def)

end

locale two_modules = s: module_registration sales + w: module_registration warehouses
  for sales :: "'s ServiceBus \<Rightarrow> 's ServiceBus" and warehouses :: "'s ServiceBus \<Rightarrow> 's ServiceBus"
begin

lemma new_unattached:
  assumes "app_New sales warehouses save B cfg pr = (Inr a, pr')"
  shows "sb_attached (ap_bus a) = None" and "ap_cfg a = cfg" and "ap_relay a = (if DBURL cfg \<noteq> [] then Some (OutboxInterval cfg) else None)"
    and "ap_transport a = (if BrokerURL cfg \<noteq> [] then Some \<lparr>tr_subscribers = []\<rparr> else None)"
    and "ap_shutdownTracing a = (if OTELEndpoint cfg \<noteq> [] then ProviderShutdown else NoTracing)"
proof -
  have base: "sb_attached (warehouses (sales b)) = sb_attached b" for b by (simp add: s.unattached w.unattached)
  have bus: "sb_attached (app_bus sales warehouses save cfg) = None"
    by (simp add: app_bus_def Let_def base NewServiceBusWithTransport_def OnDeadLetter_def subscribe_def)
  obtain d pr1 where d: "persistence_mode B cfg pr = (d, pr1)" by fastforce
  obtain q pr2 where q: "broker_mode B cfg pr1 = (q, pr2)" by fastforce
  obtain u where u: "d = Inr u" using assms d by (cases d) (simp_all add: app_New_def)
  obtain t where t: "q = Inr t" using assms d q u by (cases q) (simp_all add: app_New_def)
  have m: "be_metrics B = None" using assms d q u t by (cases "be_metrics B") (simp_all add: app_New_def InitMetrics_def split: prod.splits)
  note a = assms [unfolded app_New_def d q u t prod.case sum.case Let_def InitMetrics_def m option.case]
  show "sb_attached (ap_bus a) = None" "ap_cfg a = cfg" "ap_relay a = (if DBURL cfg \<noteq> [] then Some (OutboxInterval cfg) else None)"
    using a bus by (auto split: prod.splits)
  show "ap_transport a = (if BrokerURL cfg \<noteq> [] then Some \<lparr>tr_subscribers = []\<rparr> else None)"
    using a broker_mode_result [OF q] t by (auto split: prod.splits)
  show "ap_shutdownTracing a = (if OTELEndpoint cfg \<noteq> [] then ProviderShutdown else NoTracing)"
    using a by (auto simp: InitTracing_def split: prod.splits if_splits)
qed

end

lemma sales_registration: "module_registration (sales_Register U S V)"
  unfolding sales_Register_def Let_def RegisterCommandHandler_def RegisterDomainEventHandler_def SubscribeIntegrationEvent_def
  by unfold_locales (intro extends_subscribe extends_refl)

lemma warehouses_registration: "module_registration (warehouses_Register U V)"
  unfolding warehouses_Register_def Let_def RegisterCommandHandler_def RegisterDomainEventHandler_def SubscribeIntegrationEvent_def
  by unfold_locales (intro extends_subscribe extends_refl)

interpretation modules: two_modules "sales_Register U S V" "warehouses_Register U V" for U S V
  by (intro two_modules.intro sales_registration warehouses_registration)

text \<open>Attaching over a transport.\<close>

lemma attach_in_memory:
  "attach_loop (SubscriberFor C) ps (b, None) = (b\<lparr>sb_router := sb_router b @ ps\<rparr>, None)"
  by (induction ps arbitrary: b) (simp_all add: SubscriberFor_def InMemory_SubscriberFor_def)

lemma attach_amqp_ok:
  "\<forall>p \<in> set ps. bc_newSubscriber C (ps_name p) = None \<Longrightarrow>
   attach_loop (SubscriberFor C) ps (b, Some a) =
     (b\<lparr>sb_router := sb_router b @ ps\<rparr>, Some (a\<lparr>tr_subscribers := tr_subscribers a @ map ps_name ps\<rparr>))"
  by (induction ps arbitrary: b a) (simp_all add: SubscriberFor_def AMQP_SubscriberFor_def)

lemma attach_amqp_failed:
  "\<exists>p \<in> set ps. bc_newSubscriber C (ps_name p) \<noteq> None \<Longrightarrow>
   \<exists>err. sb_attached (fst (attach_loop (SubscriberFor C) ps (b, Some a))) = Some (Some err)"
proof (induction ps arbitrary: b a)
  case (Cons p ps)
  show ?case
  proof (cases "bc_newSubscriber C (ps_name p)")
    case None
    with Cons.prems have "\<exists>p \<in> set ps. bc_newSubscriber C (ps_name p) \<noteq> None" by auto
    note IH = Cons.IH [OF this]
    have "SubscriberFor C (ps_name p) (Some a) = (Inr (), Some (a\<lparr>tr_subscribers := tr_subscribers a @ [ps_name p]\<rparr>))"
      by (simp add: SubscriberFor_def AMQP_SubscriberFor_def None)
    with IH show ?thesis by simp
  qed (simp add: SubscriberFor_def AMQP_SubscriberFor_def)
qed simp

definition unsubscribable :: "run_env \<Rightarrow> 's ServiceBus \<Rightarrow> transport \<Rightarrow> bool" where
  "unsubscribable E bus t \<longleftrightarrow> t \<noteq> None \<and> (\<exists>p \<in> set (sb_pending bus). bc_newSubscriber (re_client E) (ps_name p) \<noteq> None)"

text \<open>The transport after every subscription is attached.\<close>

definition attached_transport :: "'s ServiceBus \<Rightarrow> transport \<Rightarrow> transport" where
  "attached_transport bus t = map_option (\<lambda>a. a\<lparr>tr_subscribers := tr_subscribers a @ map ps_name (sb_pending bus)\<rparr>) t"

lemma bus_Start_cases:
  assumes "sb_attached bus = None"
  shows "unsubscribable E bus t \<or> re_router E \<noteq> None \<Longrightarrow> \<exists>err w. bus_Start E (bus, t) = (Inl err, w)"
    and "\<not> unsubscribable E bus t \<Longrightarrow> re_router E = None \<Longrightarrow> \<exists>bus'. bus_Start E (bus, t) = (Inr (), (bus', attached_transport bus t))"
proof -
  let ?b = "bus\<lparr>sb_attached := Some None\<rparr>"
  have ok: "attachHandlers (SubscriberFor (re_client E)) (bus, t) = (Inr (), (?b\<lparr>sb_router := sb_router bus @ sb_pending bus\<rparr>, attached_transport bus t))"
    if "\<not> unsubscribable E bus t"
    using that assms
    by (cases t) (simp_all add: attachHandlers_def attach_in_memory attach_amqp_ok attached_transport_def unsubscribable_def)
  have bad: "\<exists>err w. attachHandlers (SubscriberFor (re_client E)) (bus, t) = (Inl err, w)" if u: "unsubscribable E bus t"
  proof -
    obtain a where a: "t = Some a" using u by (auto simp: unsubscribable_def)
    from u obtain err where "sb_attached (fst (attach_loop (SubscriberFor (re_client E)) (sb_pending bus) (?b, Some a))) = Some (Some err)"
      using attach_amqp_failed [of "sb_pending bus" "re_client E" ?b a] by (auto simp: unsubscribable_def)
    with assms a show ?thesis by (auto simp: attachHandlers_def split: prod.splits)
  qed
  show "\<exists>err w. bus_Start E (bus, t) = (Inl err, w)" if "unsubscribable E bus t \<or> re_router E \<noteq> None"
    using that ok bad by (cases "unsubscribable E bus t") (auto simp: bus_Start_def)
  show "\<exists>bus'. bus_Start E (bus, t) = (Inr (), (bus', attached_transport bus t))" if "\<not> unsubscribable E bus t" "re_router E = None"
    using ok [OF that(1)] that(2) by (simp add: bus_Start_def)
qed

lemma supervision_panics: "startSagaSupervision cfg \<noteq> None \<longleftrightarrow> SagaStepTimeout cfg = 1"
proof -
  have "sint (SagaStepTimeout cfg) = 1 \<longleftrightarrow> SagaStepTimeout cfg = 1"
    using signed_word_eqI [of "SagaStepTimeout cfg" 1] by auto
  moreover have "(x :: int) \<le> 0 \<or> 0 < x div 2 \<or> x = 1" for x by presburger
  ultimately show ?thesis by (auto simp: startSagaSupervision_def NewTicker_def)
qed

lemma relay_panics: "relay_Start r \<noteq> None \<longleftrightarrow> (\<exists>d. r = Some d \<and> sint d \<le> 0)"
  by (auto simp: relay_Start_def NewTicker_def split: option.splits)

text \<open>When the run can end well.\<close>

definition closes_cleanly :: "run_env \<Rightarrow> 's App \<Rightarrow> bool" where
  "closes_cleanly E a \<longleftrightarrow> re_httpShutdown E = None \<and> re_routerClose E = None \<and>
     (case ap_transport a of None \<Rightarrow> bc_closeChannel (re_client E) = None
      | Some t \<Rightarrow> bc_closePublisher (re_client E) = None \<and>
          (\<forall>p \<in> set (sb_pending (ap_bus a)). bc_closeSubscriber (re_client E) (ps_name p) = None)) \<and>
     (ap_shutdownTracing a = ProviderShutdown \<longrightarrow> re_tracingShutdown E = None)"

lemma shutdown_clean:
  assumes "\<forall>t. ap_transport a = Some t \<longrightarrow> tr_subscribers t = []"
  shows "app_shutdown E a (attached_transport (ap_bus a) (ap_transport a)) = Inr () \<longleftrightarrow> closes_cleanly E a"
proof -
  have close: "bus_Close E True (attached_transport (ap_bus a) (ap_transport a)) = [] \<longleftrightarrow>
      re_routerClose E = None \<and> (case ap_transport a of None \<Rightarrow> bc_closeChannel (re_client E) = None
      | Some t \<Rightarrow> bc_closePublisher (re_client E) = None \<and>
          (\<forall>p \<in> set (sb_pending (ap_bus a)). bc_closeSubscriber (re_client E) (ps_name p) = None))"
    using assms
    by (cases "ap_transport a") (auto simp: bus_Close_def transport_Close_def AMQP_Close_def attached_transport_def closeAll_nil)
  show ?thesis
    using close unfolding app_shutdown_def closes_cleanly_def
    by (cases "ap_shutdownTracing a") (auto split: option.splits list.splits)
qed

text \<open>
  C27. The life of the process, on every path, for the application built from a
  configuration with both modules. It hangs, deaf to cancellation, exactly when the router
  does not start or the broker refuses a subscription: \<^verbatim>\<open>Run\<close> waits for the bus before it
  looks at the error or at the context. Otherwise it crashes exactly when the outbox interval
  of a durable application is not positive or the saga step timeout is one nanosecond.
  Otherwise it runs until the context is cancelled or the bus or the server fails, and it
  returns without error exactly when it was cancelled and the server, the router, every
  subscriber, the publisher and the tracer closed without error.
\<close>

theorem run_outcomes:
  fixes E :: run_env
  assumes "app_New (sales_Register U S V) (warehouses_Register U V) save B cfg pr = (Inr a, pr')"
  defines "dead \<equiv> re_router E \<noteq> None \<or>
      BrokerURL cfg \<noteq> [] \<and> (\<exists>p \<in> set (sb_pending (ap_bus a)). bc_newSubscriber (re_client E) (ps_name p) \<noteq> None)"
    and "fatal \<equiv> DBURL cfg \<noteq> [] \<and> sint (OutboxInterval cfg) \<le> 0 \<or> SagaStepTimeout cfg = 1"
  shows "(app_Run E a = Hangs \<longleftrightarrow> dead) \<and>
    ((\<exists>msg. app_Run E a = Crashes msg) \<longleftrightarrow> \<not> dead \<and> fatal) \<and>
    (app_Run E a = Returns (Inr ()) \<longleftrightarrow> \<not> dead \<and> \<not> fatal \<and> re_stop E = CtxDone \<and> closes_cleanly E a)"
proof -
  note a = modules.new_unattached [OF assms(1)]
  have t: "\<forall>t. ap_transport a = Some t \<longrightarrow> tr_subscribers t = []" using a(4) by simp
  have dead: "unsubscribable E (ap_bus a) (ap_transport a) \<or> re_router E \<noteq> None \<longleftrightarrow> dead"
    using a(4) by (auto simp: unsubscribable_def dead_def)
  have fatal: "relay_Start (ap_relay a) \<noteq> None \<or> startSagaSupervision (ap_cfg a) \<noteq> None \<longleftrightarrow> fatal"
    unfolding a(2,3) relay_panics supervision_panics fatal_def by auto
  show ?thesis
  proof (cases dead)
    case True
    with dead bus_Start_cases(1) [OF a(1), of E "ap_transport a"] show ?thesis by (auto simp: app_Run_def)
  next
    case False
    with dead bus_Start_cases(2) [OF a(1), of E "ap_transport a"]
    obtain bus' where start: "bus_Start E (ap_bus a, ap_transport a) = (Inr (), (bus', attached_transport (ap_bus a) (ap_transport a)))" by blast
    show ?thesis
      using False fatal shutdown_clean [OF t, of E]
      by (cases "relay_Start (ap_relay a)"; cases "startSagaSupervision (ap_cfg a)"; cases "re_stop E")
        (simp_all add: app_Run_def start)
  qed
qed

definition quiet_client :: broker_client where
  "quiet_client = \<lparr>bc_newPublisher = (\<lambda>_. None), bc_newSubscriber = (\<lambda>_. None), bc_closeSubscriber = (\<lambda>_. None),
     bc_closePublisher = None, bc_closeChannel = None\<rparr>"

definition demo_boot :: boot_env where
  "demo_boot = \<lparr>be_driver = \<lparr>dd_open = (\<lambda>_. None), dd_ping = (\<lambda>_. None)\<rparr>, be_client = quiet_client, be_metrics = None\<rparr>"

definition demo_run :: "go_error option \<Rightarrow> run_env" where
  "demo_run refusal = \<lparr>re_client = quiet_client\<lparr>bc_newSubscriber := (\<lambda>_. refusal)\<rparr>, re_router = None, re_stop = CtxDone,
     re_httpShutdown = None, re_routerClose = None, re_tracingShutdown = None\<rparr>"

definition demo_process :: process where
  "demo_process = \<lparr>pr_pools = 0, pr_publishers = 0, pr_otel = \<lparr>og_propagation = False, og_tracer = None, og_meter = None\<rparr>\<rparr>"

theorem run_outcomes_witness:
  "\<exists>a pr'. app_New (sales_Register hex_uuid plain_scalars Durable_System.demo_env) (warehouses_Register hex_uuid Durable_System.demo_env)
       (\<lambda>_ _ _ st. (Inr (), st)) demo_boot (Load plain_tables (Map.empty(''BROKER_URL'' \<mapsto> ''amqp''))) demo_process = (Inr a, pr') \<and>
     app_Run (demo_run (Some (ErrOther ''refused''))) a = Hangs \<and> app_Run (demo_run None) a = Returns (Inr ())"
proof -
  let ?cfg = "Load plain_tables (Map.empty(''BROKER_URL'' \<mapsto> ''amqp''))"
  have cfg: "BrokerURL ?cfg = ''amqp''" "DBURL ?cfg = []" "OTELEndpoint ?cfg = []" "SagaStepTimeout ?cfg = 5 * 60000000000"
    by (simp_all add: Load_def Let_def getEnv_def getDuration_def)
  obtain a pr' where a: "app_New (sales_Register hex_uuid plain_scalars Durable_System.demo_env)
      (warehouses_Register hex_uuid Durable_System.demo_env) (\<lambda>_ _ _ st. (Inr (), st)) demo_boot ?cfg demo_process = (Inr a, pr')"
    by (simp add: app_New_def persistence_mode_def broker_mode_def NewAMQPTransport_def InitTracing_def InitMetrics_def cfg demo_boot_def
        quiet_client_def)
  note m = modules.new_unattached [OF a]
  have "sb_pending (ap_bus a) \<noteq> []"
  proof -
    have "labels (ap_bus a) \<noteq> []"
      using a by (auto simp: app_New_def persistence_mode_def broker_mode_def NewAMQPTransport_def InitTracing_def InitMetrics_def cfg
          demo_boot_def quiet_client_def app_bus_def warehouses_Register_def Let_def labels_register)
    then show ?thesis by (auto simp: labels_def)
  qed
  then obtain p where "p \<in> set (sb_pending (ap_bus a))" by (meson list.set_sel(1))
  moreover have "closes_cleanly (demo_run None) a"
    using m(4,5) cfg by (simp add: closes_cleanly_def demo_run_def quiet_client_def)
  ultimately show ?thesis
    using a cfg run_outcomes [OF a, of "demo_run (Some (ErrOther ''refused''))"] run_outcomes [OF a, of "demo_run None"]
    by (auto simp: demo_run_def)
qed

text \<open>The redrive command closes what it opens, on every path, and reports the letters it redrove.\<close>

lemma redrive_run_closes:
  "fst (snd (redrive_run T env B R now (pr, w))) = pr"
proof -
  let ?cfg = "Load T env"
  consider err where "database_Open (be_driver B) (DBURL ?cfg) (pr_pools pr) = (Inl err, pr_pools pr)"
    | "database_Open (be_driver B) (DBURL ?cfg) (pr_pools pr) = (Inr (), Suc (pr_pools pr))"
    using database_Open_cases by blast
  then show ?thesis
    by cases (auto simp: redrive_run_def Let_def NewAMQPTransport_def split: option.splits prod.splits)
qed

end
