(* ===== verification/Specification.thy ===== *)
theory Specification
  imports Warehouse_Handlers Sales_Order
begin

text \<open>
  \<^verbatim>\<open>src/internal/muflone/specification.go\<close>: the given/when/expect harness in which the
  repository's tests of the command handlers are written. A run seeds an in-memory store,
  handles one command and compares what was committed; its outcome here is the list of the
  assertions that failed, in order. The locale \<open>specified_handler\<close> states what the harness
  relies on; it is interpreted by the handlers of both modules, and a specification then
  passes exactly when it states the decision function of the module.
\<close>

section \<open>The harness\<close>

type_synonym ('c, 'e) spec_handler = "'c \<Rightarrow> 'e InMemoryEventStore \<Rightarrow> ('e InMemoryEventStore, unit) outcome"

text \<open>
  The three functions \<^verbatim>\<open>Given\<close>, \<^verbatim>\<open>When\<close> and \<^verbatim>\<open>Expect\<close> return fixed values. The handler
  \<^verbatim>\<open>OnHandler\<close> builds works on the harness's store, so it is a function of that store.
\<close>

record ('c, 'e) CommandSpecification =
  spec_StreamName :: string
  Given :: "'e list"
  When :: 'c
  OnHandler :: "('c, 'e) spec_handler"
  Expect :: "'e list"
  ExpectedError :: "go_error option"

datatype failed_assertion =
    ErrorExpected
  | OtherErrorExpected go_error
  | NothingCommittedExpected
  | NoErrorExpected go_error
  | OtherCountExpected
  | OtherTypeExpected nat
  | OtherEventExpected nat

text \<open>\<^verbatim>\<open>errors.Is\<close> on the errors of the model, which are returned as they are and never wrapped by the handlers.\<close>

definition errors_Is :: "go_error \<Rightarrow> go_error \<Rightarrow> bool" where
  [go_defs]: "errors_Is err target \<longleftrightarrow> err = target"

text \<open>The loop over the expected events: both assertions of a position go on after a failure.\<close>

fun compare_events :: "('e \<Rightarrow> string) \<Rightarrow> nat \<Rightarrow> 'e list \<Rightarrow> 'e list \<Rightarrow> failed_assertion list" where
  "compare_events go_type i (x # expected) (p # published) =
     (if go_type x = go_type p then [] else [OtherTypeExpected i]) @
     (if x = p then [] else [OtherEventExpected i]) @
     compare_events go_type (Suc i) expected published"
| "compare_events go_type i _ _ = []"

text \<open>
  \<open>aggregate_id\<close> is the command's \<^verbatim>\<open>AggregateID()\<close>, \<open>commit_of\<close> an event's \<^verbatim>\<open>CommitID()\<close>,
  \<open>go_type\<close> its dynamic type. A failed \<^verbatim>\<open>require\<close> ends the run, a failed \<^verbatim>\<open>assert\<close> does not.
\<close>

definition spec_Run ::
  "uuid_pkg \<Rightarrow> ('c \<Rightarrow> uuid) \<Rightarrow> ('e \<Rightarrow> uuid) \<Rightarrow> ('e \<Rightarrow> string) \<Rightarrow> ('c, 'e) CommandSpecification \<Rightarrow> failed_assertion list" where
  "spec_Run U aggregate_id commit_of go_type s =
     (let command = When s;
          store = (if length (Given s) > 0
                   then Seed commit_of (spec_StreamName s @ ''-'' @ UString U (aggregate_id command)) (Given s) NewInMemoryEventStore
                   else NewInMemoryEventStore)
      in case OnHandler s command store of (r, store') \<Rightarrow>
        (case ExpectedError s of
           Some expected \<Rightarrow>
             (case r of
                Inr _ \<Rightarrow> [ErrorExpected]
              | Inl err \<Rightarrow>
                  (if errors_Is err expected then [] else [OtherErrorExpected err]) @
                  (if Appended store' = [] then [] else [NothingCommittedExpected]))
         | None \<Rightarrow>
             (case r of
                Inl err \<Rightarrow> [NoErrorExpected err]
              | Inr _ \<Rightarrow>
                  if length (Appended store') \<noteq> length (Expect s) then [OtherCountExpected]
                  else compare_events go_type 0 (Expect s) (Appended store'))))"

lemma compare_events_passes:
  "length expected = length published \<Longrightarrow> compare_events go_type i expected published = [] \<longleftrightarrow> expected = published"
  by (induction expected published arbitrary: i rule: list_induct2) auto

lemma verdict_passes:
  fixes r :: "unit result"
  shows "(case eo of
      Some expected \<Rightarrow>
        (case r of
           Inr _ \<Rightarrow> [ErrorExpected]
         | Inl err \<Rightarrow>
             (if err = expected then [] else [OtherErrorExpected err]) @
             (if published = [] then [] else [NothingCommittedExpected]))
    | None \<Rightarrow>
        (case r of
           Inl err \<Rightarrow> [NoErrorExpected err]
         | Inr _ \<Rightarrow>
             if length published \<noteq> length events then [OtherCountExpected]
             else compare_events go_type 0 events published)) = [] \<longleftrightarrow>
    (case eo of Some err \<Rightarrow> r = Inl err \<and> published = [] | None \<Rightarrow> r = Inr () \<and> published = events)"
proof (cases eo)
  case None
  show ?thesis
  proof (cases "length published = length events")
    case True
    then show ?thesis
      using compare_events_passes [of events published go_type 0] None by (cases r) (simp_all add: eq_commute)
  next
    case False
    then have "published \<noteq> events" by blast
    with False None show ?thesis by (cases r) simp_all
  qed
next
  case (Some expected)
  then show ?thesis by (cases r) simp_all
qed

section \<open>The seeded store\<close>

lemma seed_loop_events: "map Event (seed_loop commit_of sid i evs stream) = map Event stream @ evs"
  by (induction evs arbitrary: i stream) simp_all

lemma seeded_history:
  "mem_history (Seed commit_of sid evs NewInMemoryEventStore) sid = evs"
  "appended (Seed commit_of sid evs NewInMemoryEventStore) = []"
  by (simp_all add: mem_history_def Seed_def NewInMemoryEventStore_def stream_of_def lookup_default_def seed_loop_events)

lemma new_history: "mem_history NewInMemoryEventStore sid = []" "appended NewInMemoryEventStore = []"
  by (simp_all add: mem_history_def NewInMemoryEventStore_def stream_of_def lookup_default_def)

section \<open>What a passing specification means\<close>

locale specified_handler =
  fixes handle :: "('c, 'e) spec_handler"
    and stream :: "'c \<Rightarrow> string"
    and decision :: "'c \<Rightarrow> 'e list \<Rightarrow> 'e list result"
    and applies :: "'c \<Rightarrow> 'e list \<Rightarrow> bool"
  assumes refused: "applies c (mem_history s (stream c)) \<Longrightarrow> decision c (mem_history s (stream c)) = Inl err \<Longrightarrow>
          handle c s = (Inl err, s)"
    and accepted: "applies c (mem_history s (stream c)) \<Longrightarrow> decision c (mem_history s (stream c)) = Inr evs \<Longrightarrow>
          fst (handle c s) = Inr () \<and> appended (snd (handle c s)) = appended s @ evs"
begin

lemma passes_iff:
  assumes "applies (When sp) (Given sp)" and "OnHandler sp = handle"
    and "spec_StreamName sp @ ''-'' @ UString U (aggregate_id (When sp)) = stream (When sp)"
  shows "spec_Run U aggregate_id commit_of go_type sp = [] \<longleftrightarrow>
    decision (When sp) (Given sp) = (case ExpectedError sp of Some err \<Rightarrow> Inl err | None \<Rightarrow> Inr (Expect sp))"
proof -
  let ?c = "When sp"
  define store where "store = (if length (Given sp) > 0 then Seed commit_of (stream ?c) (Given sp) NewInMemoryEventStore
    else NewInMemoryEventStore)"
  have h: "mem_history store (stream ?c) = Given sp" and a: "appended store = []"
    by (auto simp: store_def seeded_history new_history)
  have run: "spec_Run U aggregate_id commit_of go_type sp = [] \<longleftrightarrow>
      (case ExpectedError sp of
         Some err \<Rightarrow> r = Inl err \<and> appended store' = []
       | None \<Rightarrow> r = Inr () \<and> appended store' = Expect sp)" if "handle ?c store = (r, store')" for r store'
    using that unfolding spec_Run_def Let_def assms(2,3) store_def [symmetric] errors_Is_def Appended_def
    by (simp only: prod.case verdict_passes)
  show ?thesis
  proof (cases "decision ?c (Given sp)")
    case (Inl err)
    with refused [of ?c store err] h assms(1) have "handle ?c store = (Inl err, store)" by simp
    with Inl a show ?thesis by (cases "ExpectedError sp") (auto simp: run)
  next
    case (Inr evs)
    with accepted [of ?c store evs] h a assms(1) obtain s' where "handle ?c store = (Inr (), s')" and "appended s' = evs" by (metis append_Nil prod.collapse)
    with Inr show ?thesis by (cases "ExpectedError sp") (auto simp: run)
  qed
qed

end

section \<open>The handlers of both modules under the harness\<close>

text \<open>The tests build the repositories on the harness's store, without a publisher.\<close>

definition tested :: "('s \<times> unit \<Rightarrow> ('s \<times> unit, 'a) outcome) \<Rightarrow> 's \<Rightarrow> ('s, 'a) outcome" where
  "tested f s = (case f (s, ()) of (r, (s', _)) \<Rightarrow> (r, s'))"

abbreviation tested_availability_repo :: "(warehouse_event InMemoryEventStore, unit) availability_repository" where
  "tested_availability_repo \<equiv> availability_repo in_memory_store None"

abbreviation tested_sales_repo :: "(sales_event InMemoryEventStore, unit) sales_repository" where
  "tested_sales_repo \<equiv> sales_repo in_memory_store None"

definition tested_warehouse :: "uuid_pkg \<Rightarrow> instant \<Rightarrow> uuid \<Rightarrow> (warehouse_command, warehouse_event) spec_handler" where
  "tested_warehouse U now newid c = tested (warehouse_handle U tested_availability_repo now newid c)"

definition tested_sales :: "uuid_pkg \<Rightarrow> instant \<Rightarrow> uuid \<Rightarrow> (sales_command, sales_event) spec_handler" where
  "tested_sales U now newid c = tested (sales_handle U tested_sales_repo now newid c)"

definition warehouse_decision :: "warehouse_command \<Rightarrow> warehouse_event list \<Rightarrow> warehouse_event list result" where
  "warehouse_decision c hist = (case decide c hist of Inl err \<Rightarrow> Inl err | Inr a \<Rightarrow> Inr (ar_uncommitted a))"

text \<open>On the in-memory store loading needs no version numbers, so the seeded ones do no harm.\<close>

lemma mem_get:
  assumes "repo_store R = in_memory_store"
  shows "GetByID U R i s = (if mem_history s (repo_stream U R i) = [] then Inl ErrAggregateNotFound
    else Inr (replay (repo_route R) (repo_factory R) (mem_history s (repo_stream U R i))))"
  using assms by (simp add: GetByID_def in_memory_store_def InMemory_ReadStream_def foldl_records mem_history_def)

lemma mem_save:
  assumes "repo_store R = in_memory_store" and "repo_publisher R = None" and "ar_uncommitted a \<noteq> []"
    and "ar_version a - int (length (ar_uncommitted a)) = int (length (mem_history s (repo_stream U R (ar_id a))))"
  obtains s' where "Save U R now a cid (s, b) = (Inr (ClearUncommittedEvents a), (s', b))"
    and "appended s' = appended s @ ar_uncommitted a"
proof -
  let ?sid = "repo_stream U R (ar_id a)"
  let ?s' = "s\<lparr>streams := AList.update ?sid (stream_of s ?sid @ stored_batch now ?sid (int (length (stream_of s ?sid))) cid 0
      (ar_uncommitted a)) (streams s), appended := appended s @ ar_uncommitted a\<rparr>"
  have "es_Append (repo_store R) now ?sid (ar_version a - int (length (ar_uncommitted a))) cid (ar_uncommitted a) s = (Inr (), ?s')"
    using assms(1,4) by (simp add: in_memory_store_def InMemory_Append_ok mem_history_def)
  from Save_append_ok(2) [OF assms(3) this assms(2)] show thesis by (rule that) simp
qed

lemma warehouse_tested_save:
  assumes "decide c (mem_history s (availability_stream U (wc_BeerId c))) = Inr a" and "command_ok c"
    and "\<forall>e \<in> set (mem_history s (availability_stream U (wc_BeerId c))). event_beer e = Some (wc_BeerId c)"
  obtains s' where "Save U tested_availability_repo now a newid (s, ()) = (Inr (ClearUncommittedEvents a), (s', ()))"
    and "appended s' = appended s @ ar_uncommitted a"
proof -
  obtain e where u: "ar_uncommitted a = [e]" and i: "ar_id a = wc_BeerId c" by (rule decide_event [OF assms])
  have "ar_version a - int (length (ar_uncommitted a)) = int (length (mem_history s (availability_stream U (wc_BeerId c))))"
    by (rule mem_avail.save_expected_version) (simp add: decide_loaded(1) [OF assms(1)])
  then show thesis
    using mem_save [of tested_availability_repo a s U now newid "()"] u i that by auto
qed

interpretation warehouse_spec: specified_handler "tested_warehouse U now newid" "\<lambda>c. availability_stream U (wc_BeerId c)"
  warehouse_decision "\<lambda>c hist. command_ok c \<and> (\<forall>e \<in> set hist. event_beer e = Some (wc_BeerId c))" for U now newid
proof
  fix c and s :: "warehouse_event InMemoryEventStore"
  let ?h = "mem_history s (availability_stream U (wc_BeerId c))"
  let ?R = tested_availability_repo
  assume ok: "command_ok c \<and> (\<forall>e \<in> set ?h. event_beer e = Some (wc_BeerId c))"
  then have i: "cmd_AggregateId (wc_base c) = wc_BeerId c" by (simp add: command_ok_def)
  have get: "GetByID U ?R (wc_BeerId c) s = (if ?h = [] then Inl ErrAggregateNotFound else Inr (stock ?h))"
    by (simp add: mem_get stock_def)
  show "tested_warehouse U now newid c s = (Inl err, s)" if "warehouse_decision c ?h = Inl err" for err
  proof -
    have "decide c ?h = Inl err" using that by (simp add: warehouse_decision_def split: sum.splits)
    then have "warehouse_handle U ?R now newid c (s, ()) = (Inl err, (s, ()))"
      using get i by (cases c) (auto simp: handler_defs split: if_splits)
    then show ?thesis by (simp add: tested_warehouse_def tested_def)
  qed
  show "fst (tested_warehouse U now newid c s) = Inr () \<and> appended (snd (tested_warehouse U now newid c s)) = appended s @ evs"
    if wdec: "warehouse_decision c ?h = Inr evs" for evs
  proof -
    obtain a where dec: "decide c ?h = Inr a" and evs: "evs = ar_uncommitted a"
      using wdec unfolding warehouse_decision_def by (cases "decide c ?h") simp_all
    have run: "warehouse_handle U ?R now newid c (s, ()) = discard (Save U ?R now a newid (s, ()))"
      using dec get i by (cases c) (auto simp: handler_defs split: if_splits)
    obtain s' where "Save U ?R now a newid (s, ()) = (Inr (ClearUncommittedEvents a), (s', ()))"
      and "appended s' = appended s @ ar_uncommitted a"
      by (rule warehouse_tested_save [OF dec]) (use ok in simp_all)
    then show ?thesis by (simp add: tested_warehouse_def tested_def run discard_def evs)
  qed
qed

lemma sales_tested_save:
  assumes "sales_decide c (mem_history s (order_stream U (sc_SalesOrderId c))) = Inr [e]"
    and "order_shape (sc_SalesOrderId c) (mem_history s (order_stream U (sc_SalesOrderId c)))"
  defines "a \<equiv> RaiseEvent SalesOrder_Route e (order_of (mem_history s (order_stream U (sc_SalesOrderId c))))"
  obtains s' where "Save U tested_sales_repo now a newid (s, ()) = (Inr (ClearUncommittedEvents a), (s', ()))"
    and "appended s' = appended s @ [e]"
proof -
  let ?h = "mem_history s (order_stream U (sc_SalesOrderId c))"
  have u: "ar_uncommitted a = [e]" and i: "ar_id a = sc_SalesOrderId c"
    unfolding a_def by (rule decided_aggregate [OF assms(2,1) refl])+
  have "loaded_as SalesOrder_Route NewSalesOrder ?h a" unfolding a_def by (intro order.loaded_as_raise order_loaded)
  then have "ar_version a - int (length (ar_uncommitted a)) = int (length ?h)"
    by (intro mem_sales.save_expected_version) simp
  then show thesis
    using mem_save [of tested_sales_repo a s U now newid "()"] u i that by auto
qed

interpretation sales_spec: specified_handler "tested_sales U now newid" "\<lambda>c. order_stream U (sc_SalesOrderId c)"
  sales_decide "\<lambda>c hist. sales_command_ok c \<and> order_shape (sc_SalesOrderId c) hist" for U now newid
proof
  fix c and s :: "sales_event InMemoryEventStore"
  let ?h = "mem_history s (order_stream U (sc_SalesOrderId c))"
  let ?R = tested_sales_repo
  assume ok: "sales_command_ok c \<and> order_shape (sc_SalesOrderId c) ?h"
  then have i: "cmd_AggregateId (sc_base c) = sc_SalesOrderId c" by (simp add: sales_command_ok_def)
  have get: "GetByID U ?R (sc_SalesOrderId c) s = (if ?h = [] then Inl ErrAggregateNotFound else Inr (order_of ?h))"
    by (simp add: mem_get order_of_def)
  have quiet: "sales_handle U ?R now newid c (s, ()) = (case sales_decide c ?h of Inl err \<Rightarrow> Inl err | Inr _ \<Rightarrow> Inr (), (s, ()))"
    if "\<nexists>e. sales_decide c ?h = Inr [e]"
    using that get i
    by (cases c; cases "so_allocation (order_of ?h)")
      (auto simp: sales_handler_defs domain_CreateSalesOrder_def MarkAllocated_def MarkAllocationRejected_def order_conflict_def)
  show "tested_sales U now newid c s = (Inl err, s)" if "sales_decide c ?h = Inl err" for err
    using quiet that by (simp add: tested_sales_def tested_def)
  show "fst (tested_sales U now newid c s) = Inr () \<and> appended (snd (tested_sales U now newid c s)) = appended s @ evs"
    if dec: "sales_decide c ?h = Inr evs" for evs
  proof (cases "\<exists>e. evs = [e]")
    case False
    then have "evs = []" using dec by (cases c; cases "so_allocation (order_of ?h)") (auto simp: order_conflict_def split: if_splits)
    with quiet dec show ?thesis by (simp add: tested_sales_def tested_def)
  next
    case True
    then obtain e where evs: "evs = [e]" by blast
    let ?a = "RaiseEvent SalesOrder_Route e (order_of ?h)"
    have run: "sales_handle U ?R now newid c (s, ()) = save_unit U ?R now ?a newid (s, ())"
      using dec get i unfolding evs
      by (cases c; cases "so_allocation (order_of ?h)")
        (auto simp: sales_handler_defs domain_CreateSalesOrder_def MarkAllocated_def MarkAllocationRejected_def
          order_conflict_def order_of_def split: if_splits)
    obtain s' where "Save U ?R now ?a newid (s, ()) = (Inr (ClearUncommittedEvents ?a), (s', ()))"
      and "appended s' = appended s @ [e]"
      by (rule sales_tested_save [OF dec [unfolded evs] conjunct2 [OF ok]])
    then show ?thesis by (simp add: tested_sales_def tested_def run save_unit_def evs)
  qed
qed

text \<open>
  A specification in the repository's given/when/expect style tests what it says: for the
  handlers of both modules, and any past the command's stream can have, the run reports no
  failed assertion exactly when the decision function gives the expected events, or the
  expected error, for that past.
\<close>

lemma specification_tests_decision:
  assumes "command_ok wc" and "\<forall>e \<in> set past. event_beer e = Some (wc_BeerId wc)"
    and "sales_command_ok sc" and "order_shape (sc_SalesOrderId sc) story"
  shows "spec_Run U (\<lambda>c. cmd_AggregateId (wc_base c)) wcommit wtype
      \<lparr>spec_StreamName = Availability_StreamName, Given = past, When = wc, OnHandler = tested_warehouse U now newid,
       Expect = wexpected, ExpectedError = werror\<rparr> = [] \<longleftrightarrow>
    warehouse_decision wc past = (case werror of Some err \<Rightarrow> Inl err | None \<Rightarrow> Inr wexpected)"
    and "spec_Run U (\<lambda>c. cmd_AggregateId (sc_base c)) scommit stype
      \<lparr>spec_StreamName = SalesOrder_StreamName, Given = story, When = sc, OnHandler = tested_sales U now newid,
       Expect = sexpected, ExpectedError = serror\<rparr> = [] \<longleftrightarrow>
    sales_decide sc story = (case serror of Some err \<Rightarrow> Inl err | None \<Rightarrow> Inr sexpected)"
proof -
  let ?w = "\<lparr>spec_StreamName = Availability_StreamName, Given = past, When = wc, OnHandler = tested_warehouse U now newid,
       Expect = wexpected, ExpectedError = werror\<rparr>"
  let ?s = "\<lparr>spec_StreamName = SalesOrder_StreamName, Given = story, When = sc, OnHandler = tested_sales U now newid,
       Expect = sexpected, ExpectedError = serror\<rparr>"
  show "spec_Run U (\<lambda>c. cmd_AggregateId (wc_base c)) wcommit wtype ?w = [] \<longleftrightarrow>
      warehouse_decision wc past = (case werror of Some err \<Rightarrow> Inl err | None \<Rightarrow> Inr wexpected)"
    using warehouse_spec.passes_iff [of ?w U now newid U "\<lambda>c. cmd_AggregateId (wc_base c)" wcommit wtype] assms(1,2)
    by (cases werror) (simp_all add: command_ok_def availability_stream_def)
  show "spec_Run U (\<lambda>c. cmd_AggregateId (sc_base c)) scommit stype ?s = [] \<longleftrightarrow>
      sales_decide sc story = (case serror of Some err \<Rightarrow> Inl err | None \<Rightarrow> Inr sexpected)"
    using sales_spec.passes_iff [of ?s U now newid U "\<lambda>c. cmd_AggregateId (sc_base c)" scommit stype] assms(3,4)
    by (cases serror) (simp_all add: sales_command_ok_def order_stream_def)
qed

section \<open>Tests of the repository, run\<close>

text \<open>
  \<^verbatim>\<open>TestUpdateAvailabilityDueToProductionOrderAfterAggregateCreation\<close>: 100 Lt produced after
  100 Lt give an event with the total of 200 Lt; and the same specification with the total
  of 100 Lt is reported at its first event.
\<close>

definition production_test :: "go_int \<Rightarrow> (warehouse_command, warehouse_event) CommandSpecification" where
  "production_test litres =
     \<lparr>spec_StreamName = Availability_StreamName,
      Given = [NewAvailabilityUpdatedDueToProductionOrder 7 3 ''Muflone IPA'' (NewQuantity 100 ''Lt'')],
      When = NewUpdateAvailabilityDueToProductionOrder 7 3 ''Muflone IPA'' (NewQuantity 100 ''Lt''),
      OnHandler = tested_warehouse hex_uuid 10 11,
      Expect = [NewAvailabilityUpdatedDueToProductionOrder 7 3 ''Muflone IPA'' (NewQuantity litres ''Lt'')],
      ExpectedError = None\<rparr>"

lemma production_test_passes:
  "spec_Run hex_uuid (\<lambda>c. cmd_AggregateId (wc_base c)) (\<lambda>_. 3) (\<lambda>_. []) (production_test 200) = []"
  "spec_Run hex_uuid (\<lambda>c. cmd_AggregateId (wc_base c)) (\<lambda>_. 3) (\<lambda>_. []) (production_test 100) = [OtherEventExpected 0]"
  by code_simp+

end
