(* ===== verification/Spec2Isabelle.thy ===== *)
theory Spec2Isabelle
  imports Brewery_System App Specification
begin

text \<open>
  A verification library for the beer company's modular monolith, a Go program of two
  event-sourced modules on a small framework.

  \<^bold>\<open>The program.\<close> \<^emph>\<open>Sales\<close> accepts orders, \<^emph>\<open>Warehouses\<close> keeps the stock of each beer. Both build
  on \<^emph>\<open>muflone\<close> (aggregate root, event store, repository, service bus, outbox, dead letters).
  A client's request goes through the REST layer to a facade, which sends a command on the
  bus. The command handler loads an aggregate by replaying its stream, lets it decide, and
  saves the new events under an optimistic-concurrency check. The events reach the read
  models, and a created order leaves Sales as an integration event. That event starts a saga
  in Warehouses, which allocates the order row by row, gives allocated rows back when a row
  cannot be had, and announces the outcome; Sales settles the order accordingly. A
  supervisor resumes unfinished sagas at start and fails steps that take too long. In memory
  mode stores and bus live in the process; in durable mode events, outbox, read models and
  dead letters are tables of one Postgres database and messages may go over AMQP.

  \<^bold>\<open>Which theory models what\<close> (paths under \<^verbatim>\<open>src/internal\<close> unless another is given).

  Shared vocabulary:
    \<^item> \<open>Brew_Prelude\<close>: Go integers, identifiers, instants, errors (\<^verbatim>\<open>muflone/errors.go\<close>), the
      standard-library functions in use, fact collections and generic lemmas.
    \<^item> \<open>Custom_Types\<close>: \<^verbatim>\<open>shared/customtypes\<close>.
    \<^item> \<open>Warehouse_Messages\<close>, \<open>Sales_Messages\<close>: commands, events and names of
      \<^verbatim>\<open>warehouses/sharedkernel\<close>, \<^verbatim>\<open>sales/sharedkernel\<close> and \<^verbatim>\<open>muflone/message.go\<close>.
    \<^item> \<open>Json_Wire\<close>, \<open>Command_Wire\<close>: the JSON of integration events and of commands.

  muflone:
    \<^item> \<open>Aggregate_Root\<close> (\<^verbatim>\<open>aggregate.go\<close>), \<open>Event_Store\<close> (\<^verbatim>\<open>eventstore.go\<close>), \<open>Repository\<close>
      (\<^verbatim>\<open>repository.go\<close>), \<open>Specification\<close> (\<^verbatim>\<open>specification.go\<close>).
    \<^item> \<open>Service_Bus\<close>: the sending side of \<^verbatim>\<open>servicebus.go\<close>. \<open>Delivery\<close>: the consuming side, the
      middleware chain, \<^verbatim>\<open>transport.go\<close>, \<^verbatim>\<open>amqp_transport.go\<close> and \<^verbatim>\<open>deadletters.go\<close>. \<open>Retry\<close>: \<^verbatim>\<open>retry.go\<close>.
    \<^item> \<open>Registry\<close>: \<^verbatim>\<open>registry.go\<close> and the events of Warehouses. \<open>Postgres_Store\<close>:
      \<^verbatim>\<open>postgres_eventstore.go\<close>. \<open>Outbox\<close>: \<^verbatim>\<open>outbox.go\<close>.

  Warehouses:
    \<^item> \<open>Availability\<close> and \<open>Allocation_Saga\<close>: the aggregates of \<^verbatim>\<open>warehouses/domain\<close>.
    \<^item> \<open>Warehouse_Handlers\<close>: \<^verbatim>\<open>domain/commandhandlers\<close>. \<open>Saga_Runner\<close>: \<^verbatim>\<open>sagas\<close>.
    \<^item> \<open>Warehouse_Read_Model\<close>: \<^verbatim>\<open>readmodel\<close> and \<^verbatim>\<open>rebuild.go\<close>. \<open>Warehouse_Module\<close>: the module's
      subscriptions and facade, and any sequence of deliveries on them.

  Sales:
    \<^item> \<open>Sales_Order\<close>: \<^verbatim>\<open>sales/domain\<close> with its handlers. \<open>Sales_Read_Model\<close>: \<^verbatim>\<open>readmodel\<close> and
      \<^verbatim>\<open>rebuild.go\<close>. \<open>Sales_Module\<close>: \<^verbatim>\<open>facade.go\<close>, \<^verbatim>\<open>integration\<close>. \<open>Sales_Registry\<close>:
      \<^verbatim>\<open>NewEventRegistry\<close> of \<^verbatim>\<open>module.go\<close>.
    \<^item> \<open>Postgres_Read_Model\<close>: the Postgres services of both modules.

  Composition and edges:
    \<^item> \<open>Brewery_Contract\<close>: what the modules promise each other. \<open>Brewery_System\<close>: both modules in
      memory mode. \<open>Durable_System\<close>: both on Postgres with the relay. \<open>Modules\<close>: the \<^verbatim>\<open>Register\<close>
      functions of both \<^verbatim>\<open>module.go\<close> in durable mode, on the bus of \<open>Delivery\<close>.
    \<^item> \<open>Config\<close>, \<open>Platform\<close>: \<^verbatim>\<open>platform/config\<close>, \<^verbatim>\<open>platform/database\<close>, \<^verbatim>\<open>platform/telemetry\<close> and the
      level parser of \<^verbatim>\<open>platform/logging\<close>.
    \<^item> \<open>Rest\<close>: \<^verbatim>\<open>rest\<close> and \<^verbatim>\<open>platform/auth\<close>.
    \<^item> \<open>App\<close>: \<^verbatim>\<open>app/app.go\<close>, over any registration of the modules, \<^verbatim>\<open>src/cmd/api\<close> and
      \<^verbatim>\<open>src/cmd/redrive\<close>. \<open>Rebuild\<close>: \<^verbatim>\<open>src/cmd/rebuild\<close>.

  \<^bold>\<open>How state and operations correspond.\<close> A Go struct is a record, with the aggregates
  extending the record of the root; an interface value is the record of its methods; an
  operation returns its result or error with the state it leaves. Quantities and durations
  are 64-bit words. A handler receives the clock and the fresh identifiers it would read.
  What is put on the wire is a list that only grows, and a delivery takes any message of it:
  messages may come late, twice, in another order or never. The code that is not in the
  repository enters as a parameter:
    \<^item> the UUID package (\<open>uuid_ok\<close>: parsing undoes printing);
    \<^item> the formatting of floats and times (\<open>scalars_ok\<close>: the same for these);
    \<^item> Watermill's poison queue (\<open>poison_spec\<close>: a failing message is published on the
      dead-letter topic with its payload and its topic of origin, and counts as handled if that
      succeeds; other metadata and the error of a failed publication are open);
    \<^item> what the columns of the read-model tables keep of a price or a date (\<open>pg_columns\<close>);
    \<^item> the network and the broker client (any publication may be refused), the database
      (any statement may fail, and other transactions may commit in between), gin's binding,
      the token bucket, the OIDC verifier, the HTTP server and the OpenTelemetry exporters.

  \<^bold>\<open>Interfaces.\<close> Each contract between components is a locale, interpreted by the model's own
  definitions: \<open>event_sourced\<close> (the two aggregates of the domain and the saga), \<open>event_store\<close> and
  \<open>reliable_event_store\<close> (in-memory and Postgres store), \<open>repository\<close>, \<open>availability_handlers\<close>,
  \<open>sales_handlers\<close> and \<open>saga_runner\<close> over them, \<open>availability_writer\<close> (the services the
  projection writes to), \<open>warehouse_side\<close> and \<open>sales_side\<close> (a module on any store, for both
  compositions), \<open>specified_handler\<close> (what the test harness relies on), and
  \<open>module_registration\<close> (what the composition root relies on).

  \<^bold>\<open>What is shown.\<close>
    \<^item> Composition: an order shown as allocated holds stock of every beer it asked for and a
      rejected one has a rejected saga, in memory and in durable mode, under every failure
      and redelivery; what the bus runs for a message is a step of that system, and every
      topic has the handlers it should have; rebuilding restores the read models, as far as
      the columns keep the values.
    \<^item> Warehouses: the handlers keep an abstract ledger of stock; a saga ends after boundedly
      many transitions, always has a next step until then, and announces the right outcome;
      a recorded event changes nothing when it comes again, at any later moment; resuming and
      sweeping reach every unfinished saga.
    \<^item> Sales: an order is created once and settled once; the projection converges in any
      order of deliveries; producer and consumer of each integration event agree.
    \<^item> Delivery: exact backoff and termination of retries, dead letters and their redrive,
      atomic append with outbox, lost races reported as conflicts, a relay that loses nothing
      and keeps the order.
    \<^item> Edges: encodings are read back, roles are enforced, an accepted write was sent, and how
      a run ends.
    \<^item> Where the code falls short of what it means to do, the failing run is a theorem too: an
      order with the same beer twice completes early, an outcome whose publication fails is
      never announced, a late allocation keeps its stock, a dead letter that cannot be archived
      forgets its topic, and a bus that fails to start leaves \<^verbatim>\<open>Run\<close> waiting.

  \<^bold>\<open>Bounds and fuel.\<close> No definition has a fuel argument. Loops over slices recurse on the list.
  The upcaster loop of \<open>Deserialize\<close> may run forever: it is a partial function into \<open>option\<close>,
  and that it returns is proved for the registries of both modules. The retry loop ends by
  a measure on the attempts left, duration parsing and trimming by the length of the input.
  The relay's endless loop is a list of its ticks, and every theorem on it holds for every list.

  \<^bold>\<open>Not modelled.\<close>
    \<^item> The text of log lines, metrics values and trace propagation: output only.
    \<^item> Watermill, gin, pgx, AMQP, OIDC and OpenTelemetry: libraries, parameters as said above.
    \<^item> The dependency injector: it hands out the values the definitions pass on.
    \<^item> Mutexes and goroutines within an operation: an in-memory operation is one step. For
      Postgres, transactions of others between the statements of an append are covered in
      \<open>Postgres_Store\<close>; \<open>Durable_System\<close> takes transactions one after another. A commit
      that took effect although it reported an error is not covered.
    \<^item> Two corners of Go's JSON decoder that no message of the program reaches: a member given
      twice in one object, and a null after a value for the same member.
    \<^item> The \<^verbatim>\<open>main\<close> functions: they print the error of \<open>run\<close> and exit.
    \<^item> SQL migrations, scripts and deployment files: not Go code; the tables they define are
      the records of \<open>Postgres_Store\<close> and \<open>Postgres_Read_Model\<close>.
\<close>

end
